(* ===== verification/Prelude.thy ===== *)
theory Prelude
  imports
    Main
    "HOL-Library.Word"
    "HOL-Library.AList"
    "HOL-Library.List_Lexorder"
    "HOL-Library.Char_ord"
begin

text \<open>
  Shared vocabulary of the development: the machine integers of the controller, the
  string helpers it uses (decimal and fixed-width hexadecimal printing, joining),
  association lists for the Rust maps it reads, and the collections of rewrite rules the
  component theories fill.

  Rust strings are UTF-8 byte strings, so a \<open>string\<close> here (a list of 8-bit characters)
  has the same length and the same lexicographic order as the Rust value.
\<close>

section \<open>Machine integers and maps\<close>

type_synonym u8 = "8 word"
type_synonym u16 = "16 word"
type_synonym u32 = "32 word"
type_synonym u64 = "64 word"
type_synonym u128 = "128 word"

text \<open>
  A \<open>BTreeMap<String, String>\<close> is an association list read through \<open>map_of\<close>. Fields of a
  Kubernetes object the controller never looks at travel in an \<open>others\<close> list (field name
  and JSON text), so that "the rest is copied" is a statement about a value.
\<close>

type_synonym smap = "(string \<times> string) list"
type_synonym others = "(string \<times> string) list"

named_theorems vc_simps \<open>equations that compute verification conditions of effectful programs\<close>
named_theorems handler_defs \<open>definitions of the reconcile handlers\<close>
named_theorems pure_defs \<open>definitions of the pure predicates on objects\<close>

section \<open>Options\<close>

definition unwrap_or :: "'a option \<Rightarrow> 'a \<Rightarrow> 'a" where
  "unwrap_or o1 d = (case o1 of None \<Rightarrow> d | Some x \<Rightarrow> x)"

definition is_some_and :: "'a option \<Rightarrow> ('a \<Rightarrow> bool) \<Rightarrow> bool" where
  "is_some_and o1 P = (case o1 of None \<Rightarrow> False | Some x \<Rightarrow> P x)"

lemma unwrap_or_simps [simp]: "unwrap_or None d = d" "unwrap_or (Some x) d = x"
  by (simp_all add: unwrap_or_def)

lemma is_some_and_simps [simp]: "is_some_and None P = False" "is_some_and (Some x) P = P x"
  by (simp_all add: is_some_and_def)

lemma is_some_and_iff: "is_some_and o1 P \<longleftrightarrow> (\<exists>x. o1 = Some x \<and> P x)"
  by (cases o1) auto

definition oget :: "smap option \<Rightarrow> string \<Rightarrow> string option" where
  "oget mo k = map_of (unwrap_or mo []) k"

lemma oget_simps [simp]: "oget None k = None" "oget (Some m) k = map_of m k"
  by (simp_all add: oget_def)

lemma map_of_AList_update [simp]:
  "map_of (AList.update k v m) k' = (if k' = k then Some v else map_of m k')"
  by (simp add: AList.update_conv)

lemma map_of_AList_delete [simp]:
  "map_of (AList.delete k m) k' = (if k' = k then None else map_of m k')"
  by (simp add: AList.delete_conv)

section \<open>Saturating subtraction\<close>

definition sat_sub :: "'a::len word \<Rightarrow> 'a word \<Rightarrow> 'a word" where
  "sat_sub a b = (if a < b then 0 else a - b)"

lemma unat_sat_sub: "unat (sat_sub a b) = unat a - unat b"
  by (auto simp: sat_sub_def unat_sub word_less_nat_alt word_le_nat_alt not_less)

lemma sat_sub_eq_minus: "b \<le> a \<Longrightarrow> sat_sub a b = a - b"
  by (auto simp: sat_sub_def)

section \<open>Printing numbers\<close>

definition digit :: "nat \<Rightarrow> char" where
  "digit d = char_of (48 + d)"

definition hex_digit :: "nat \<Rightarrow> char" where
  "hex_digit d = (if d < 10 then digit d else char_of (87 + d))"

text \<open>\<open>{n}\<close>: decimal, no padding.\<close>

fun dec :: "nat \<Rightarrow> string" where
  "dec n = (if n < 10 then [digit n] else dec (n div 10) @ [digit (n mod 10)])"

declare dec.simps [simp del]

text \<open>\<open>{n:0wx}\<close> for a value below \<open>16 ^ w\<close>: exactly \<open>w\<close> lower-case digits.\<close>

fun hex_fixed :: "nat \<Rightarrow> nat \<Rightarrow> string" where
  "hex_fixed 0 n = []"
| "hex_fixed (Suc w) n = hex_fixed w (n div 16) @ [hex_digit (n mod 16)]"

definition is_digit :: "char \<Rightarrow> bool" where
  "is_digit c \<longleftrightarrow> 48 \<le> (of_char c :: nat) \<and> (of_char c :: nat) \<le> 57"

lemma of_char_digit: "d < 10 \<Longrightarrow> (of_char (digit d) :: nat) = 48 + d"
  by (simp add: digit_def of_char_of)

lemma is_digit_digit [simp]: "d < 10 \<Longrightarrow> is_digit (digit d)"
  by (simp add: is_digit_def of_char_digit)

lemma digit_inj: "a < 10 \<Longrightarrow> b < 10 \<Longrightarrow> digit a = digit b \<longleftrightarrow> a = b"
  by (metis add_left_cancel of_char_digit)

lemma dec_nonempty [simp]: "dec n \<noteq> []"
  by (subst dec.simps) simp

lemma dec_digits: "list_all is_digit (dec n)"
proof (induction n rule: dec.induct)
  case (1 n)
  then show ?case by (cases "n < 10") (simp_all add: dec.simps [of n])
qed

lemma dec_inj_aux: "dec m = dec n \<Longrightarrow> m = n"
proof (induction m arbitrary: n rule: dec.induct)
  case (1 m)
  show ?case
  proof (cases "m < 10")
    case True
    show ?thesis
    proof (cases "n < 10")
      case True
      with \<open>m < 10\<close> "1.prems" show ?thesis by (simp add: dec.simps [of m] dec.simps [of n] digit_inj)
    next
      case False
      then have "length (dec n) > length (dec m)"
        using \<open>m < 10\<close> by (simp add: dec.simps [of m] dec.simps [of n])
      with "1.prems" show ?thesis by simp
    qed
  next
    case False
    show ?thesis
    proof (cases "n < 10")
      case True
      then have "length (dec m) > length (dec n)"
        using \<open>\<not> m < 10\<close> by (simp add: dec.simps [of m] dec.simps [of n])
      with "1.prems" show ?thesis by simp
    next
      case n: False
      with False "1.prems" have "dec (m div 10) = dec (n div 10)" "digit (m mod 10) = digit (n mod 10)"
        by (simp_all add: dec.simps [of m] dec.simps [of n])
      with "1.IH" [OF False] have "m div 10 = n div 10" "m mod 10 = n mod 10"
        by (simp_all add: digit_inj)
      then show ?thesis by (metis mult_div_mod_eq)
    qed
  qed
qed

lemma dec_inj [simp]: "dec m = dec n \<longleftrightarrow> m = n"
  using dec_inj_aux by blast

lemma length_hex_fixed [simp]: "length (hex_fixed w n) = w"
  by (induction w arbitrary: n) simp_all

lemma of_char_hex_digit:
  "d < 16 \<Longrightarrow> (of_char (hex_digit d) :: nat) = (if d < 10 then 48 + d else 87 + d)"
  by (simp add: hex_digit_def of_char_digit of_char_of)

lemma hex_digit_inj: "a < 16 \<Longrightarrow> b < 16 \<Longrightarrow> hex_digit a = hex_digit b \<longleftrightarrow> a = b"
proof
  assume "a < 16" "b < 16" "hex_digit a = hex_digit b"
  then have "(if a < 10 then 48 + a else 87 + a) = (if b < 10 then 48 + b else 87 + b)"
    by (metis of_char_hex_digit)
  then show "a = b" using \<open>a < 16\<close> \<open>b < 16\<close> by (simp split: if_splits)
qed simp

lemma hex_fixed_inj:
  "m < 16 ^ w \<Longrightarrow> n < 16 ^ w \<Longrightarrow> hex_fixed w m = hex_fixed w n \<longleftrightarrow> m = n"
proof (induction w arbitrary: m n)
  case 0
  then show ?case by simp
next
  case (Suc w)
  then have "m div 16 < 16 ^ w" "n div 16 < 16 ^ w" by (simp_all add: less_mult_imp_div_less mult.commute)
  with Suc.IH have "hex_fixed (Suc w) m = hex_fixed (Suc w) n \<longleftrightarrow>
      m div 16 = n div 16 \<and> m mod 16 = n mod 16"
    by (simp add: hex_digit_inj)
  also have "\<dots> \<longleftrightarrow> m = n" by (metis mult_div_mod_eq)
  finally show ?case .
qed

section \<open>Joining strings\<close>

text \<open>\<open>Vec<String>::join\<close>.\<close>

fun join :: "string \<Rightarrow> string list \<Rightarrow> string" where
  "join sep [] = []"
| "join sep [x] = x"
| "join sep (x # y # xs) = x @ sep @ join sep (y # xs)"

end
