(* ===== verification/Cluster_Objects.thy ===== *)
theory Cluster_Objects
  imports Prelude
begin

text \<open>
  The Kubernetes and zfs-localpv objects the controller reads and writes
  (\<open>src/src/crd/openebs.rs\<close> and the k8s-openapi types it imports). Every record keeps the
  fields some function of the controller looks at; the remaining ones are carried
  unread in an \<open>others\<close> field, as the \<open>extra\<close> flatten maps of the source do. Field
  prefixes name the record: \<open>m_\<close> for metadata, \<open>pvs_\<close> for a PV spec and so on.
\<close>

section \<open>Metadata\<close>

record objmeta =
  m_name :: "string option"
  m_generate_name :: "string option"
  m_uid :: "string option"
  m_labels :: "smap option"
  m_annotations :: "smap option"
  m_finalizers :: "string list option"
  m_deletion_timestamp :: "string option"
  m_others :: others

definition default_meta :: objmeta where
  "default_meta = \<lparr>m_name = None, m_generate_name = None, m_uid = None, m_labels = None,
     m_annotations = None, m_finalizers = None, m_deletion_timestamp = None, m_others = []\<rparr>"

text \<open>
  The accessors of kube's \<open>ResourceExt\<close>, as documented: the name, else the generate-name,
  else the empty string; a missing map or list reads as empty.
\<close>

definition name_any :: "objmeta \<Rightarrow> string" where
  "name_any m = (case m_name m of Some n \<Rightarrow> n | None \<Rightarrow> unwrap_or (m_generate_name m) '''')"

definition meta_finalizers :: "objmeta \<Rightarrow> string list" where
  "meta_finalizers m = unwrap_or (m_finalizers m) []"

definition meta_labels :: "objmeta \<Rightarrow> smap" where
  "meta_labels m = unwrap_or (m_labels m) []"

definition meta_annotation :: "objmeta \<Rightarrow> string \<Rightarrow> string option" where
  "meta_annotation m k = oget (m_annotations m) k"

definition being_deleted :: "objmeta \<Rightarrow> bool" where
  "being_deleted m \<longleftrightarrow> m_deletion_timestamp m \<noteq> None"

section \<open>Core objects\<close>

record condition =
  c_type :: string
  c_status :: string

record csi_source =
  csi_driver :: string
  csi_volume_handle :: string
  csi_volume_attributes :: "smap option"
  csi_others :: others

record object_reference =
  or_api_version :: "string option"
  or_kind :: "string option"
  or_namespace :: "string option"
  or_name :: "string option"
  or_uid :: "string option"
  or_others :: others

record selector_requirement =
  r_key :: string
  r_operator :: string
  r_values :: "string list option"

record selector_term =
  st_match_expressions :: "selector_requirement list option"
  st_match_fields :: "selector_requirement list option"

record volume_node_affinity =
  vna_required :: "selector_term list option"

record pv_spec =
  pvs_csi :: "csi_source option"
  pvs_claim_ref :: "object_reference option"
  pvs_reclaim_policy :: "string option"
  pvs_node_affinity :: "volume_node_affinity option"
  pvs_storage_class_name :: "string option"
  pvs_others :: others

record pv_status =
  pvt_phase :: "string option"
  pvt_others :: others

record persistent_volume =
  pv_meta :: objmeta
  pv_spec :: "pv_spec option"
  pv_status :: "pv_status option"

record pvc_spec =
  pcs_volume_name :: "string option"

record pvc_status =
  pct_conditions :: "condition list option"

record persistent_volume_claim =
  pvc_meta :: objmeta
  pvc_spec :: "pvc_spec option"
  pvc_status :: "pvc_status option"

record pod_volume =
  vol_name :: string
  vol_claim :: "string option"
  vol_ephemeral :: bool

record toleration =
  tol_key :: "string option"
  tol_operator :: "string option"
  tol_effect :: "string option"
  tol_value :: "string option"

record node_affinity =
  na_required :: "selector_term list option"

record affinity =
  aff_node_affinity :: "node_affinity option"

record pod_spec =
  ps_volumes :: "pod_volume list option"
  ps_node_name :: "string option"
  ps_node_selector :: "smap option"
  ps_affinity :: "affinity option"
  ps_tolerations :: "toleration list option"

definition default_pod_spec :: pod_spec where
  "default_pod_spec = \<lparr>ps_volumes = None, ps_node_name = None, ps_node_selector = None,
     ps_affinity = None, ps_tolerations = None\<rparr>"

record pod =
  pod_meta :: objmeta
  pod_spec :: "pod_spec option"

record taint =
  ta_key :: string
  ta_effect :: string
  ta_value :: "string option"

record node_spec =
  ns_taints :: "taint list option"
  ns_unschedulable :: "bool option"
  ns_pod_cidr :: "string option"
  ns_pod_cidrs :: "string list option"

record node_address =
  addr_type :: string
  addr_address :: string

record node_status =
  nt_addresses :: "node_address list option"
  nt_conditions :: "condition list option"

record node =
  node_meta :: objmeta
  node_spec :: "node_spec option"
  node_status :: "node_status option"

record topology_requirement =
  tr_key :: string
  tr_values :: "string list"

record topology_term =
  tt_match_label_expressions :: "topology_requirement list option"

record storage_class =
  sc_meta :: objmeta
  sc_parameters :: "smap option"
  sc_allowed_topologies :: "topology_term list option"

section \<open>zfs-localpv objects\<close>

definition OPENEBS_GROUP :: string where "OPENEBS_GROUP = ''zfs.openebs.io''"
definition ZFS_FINALIZER :: string where "ZFS_FINALIZER = ''zfs.openebs.io/finalizer''"
definition ZFS_VOL_LABEL :: string where "ZFS_VOL_LABEL = ''openebs.io/persistent-volume''"
definition MARKED_FOR_DELETION :: string where
  "MARKED_FOR_DELETION = ''openebs.io/marked-for-deletion''"
definition NODE_ID_TOPOLOGY_KEY :: string where "NODE_ID_TOPOLOGY_KEY = ''openebs.io/nodeid''"
definition POOLNAME_ATTRIBUTE :: string where "POOLNAME_ATTRIBUTE = ''openebs.io/poolname''"
definition ZFS_DRIVER :: string where "ZFS_DRIVER = ''zfs.csi.openebs.io''"
definition ZFS_STATUS_READY :: string where "ZFS_STATUS_READY = ''Ready''"
definition ZFS_STATUS_PENDING :: string where "ZFS_STATUS_PENDING = ''Pending''"
definition BKP_STATUS_INIT :: string where "BKP_STATUS_INIT = ''Init''"
definition BKP_STATUS_DONE :: string where "BKP_STATUS_DONE = ''Done''"
definition BKP_STATUS_FAILED :: string where "BKP_STATUS_FAILED = ''Failed''"
definition BKP_STATUS_INVALID :: string where "BKP_STATUS_INVALID = ''Invalid''"

lemmas openebs_consts =
  OPENEBS_GROUP_def ZFS_FINALIZER_def ZFS_VOL_LABEL_def MARKED_FOR_DELETION_def
  NODE_ID_TOPOLOGY_KEY_def POOLNAME_ATTRIBUTE_def ZFS_DRIVER_def ZFS_STATUS_READY_def
  ZFS_STATUS_PENDING_def BKP_STATUS_INIT_def BKP_STATUS_DONE_def BKP_STATUS_FAILED_def
  BKP_STATUS_INVALID_def

record volume_info =
  vi_owner_node_id :: string
  vi_pool_name :: string
  vi_capacity :: "string option"
  vi_snapname :: "string option"
  vi_fs_type :: "string option"
  vi_volume_type :: "string option"
  vi_extra :: others

record zfs_volume_status =
  zs_state :: "string option"

record zfs_volume =
  zv_meta :: objmeta
  zv_spec :: volume_info
  zv_status :: "zfs_volume_status option"

record zfs_snapshot =
  sn_meta :: objmeta
  sn_spec :: volume_info
  sn_status :: "zfs_volume_status option"

record zfs_backup_spec =
  bks_volume_name :: string
  bks_owner_node_id :: string
  bks_snap_name :: "string option"
  bks_prev_snap_name :: "string option"
  bks_backup_dest :: string

record zfs_backup =
  bk_meta :: objmeta
  bk_spec :: zfs_backup_spec
  bk_status :: "string option"

record zfs_restore_spec =
  rss_volume_name :: string
  rss_owner_node_id :: string
  rss_restore_src :: string

record type_meta =
  tm_api_version :: string
  tm_kind :: string

record zfs_restore =
  rs_type_meta :: type_meta
  rs_meta :: objmeta
  rs_spec :: zfs_restore_spec
  rs_vol_spec :: "volume_info option"
  rs_status :: "string option"

record zfs_pool =
  zp_name :: string
  zp_uuid :: "string option"
  zp_free :: "string option"

record zfs_node =
  zn_meta :: objmeta
  zn_pools :: "zfs_pool list"

text \<open>\<open>Kind::new(name, spec)\<close> of a derived custom resource: metadata with the name only.\<close>

definition named_meta :: "string \<Rightarrow> objmeta" where
  "named_meta n = default_meta\<lparr>m_name := Some n\<rparr>"

definition ZFSRestore_new :: "string \<Rightarrow> zfs_restore_spec \<Rightarrow> volume_info \<Rightarrow> zfs_restore" where
  "ZFSRestore_new n spec vs = \<lparr>
     rs_type_meta = \<lparr>tm_api_version = OPENEBS_GROUP @ ''/v1'', tm_kind = ''ZFSRestore''\<rparr>,
     rs_meta = named_meta n,
     rs_spec = spec,
     rs_vol_spec = Some vs,
     rs_status = None\<rparr>"

lemma name_any_named [simp]: "name_any (named_meta n) = n"
  by (simp add: name_any_def named_meta_def)

lemma named_meta_fields [simp]:
  "m_name (named_meta n) = Some n" "m_labels (named_meta n) = None"
  "m_finalizers (named_meta n) = None" "m_deletion_timestamp (named_meta n) = None"
  "m_uid (named_meta n) = None" "m_annotations (named_meta n) = None"
  by (simp_all add: named_meta_def default_meta_def)

end
