(* ===== verification/Evac_Objects.thy ===== *)
theory Evac_Objects
  imports Cluster_Objects
begin

text \<open>
  The controller's own custom resources (\<open>src/src/crd/zfs_evacuation.rs\<close>):
  \<open>ZFSEvacuation\<close> with its spec and status, the phases of the state machine, and
  \<open>EvacuationParams\<close>, the parameter object of the admission policy. Integers keep the
  width they have in the Rust structs.
\<close>

section \<open>Names\<close>

definition EVACUATE_ANNOTATION :: string where
  "EVACUATE_ANNOTATION = ''zfsevac.alumino.us/evacuate''"
definition GUARD_FINALIZER :: string where "GUARD_FINALIZER = ''zfsevac.alumino.us/guard''"
definition EVACUATION_FINALIZER :: string where
  "EVACUATION_FINALIZER = ''zfsevac.alumino.us/cleanup''"
definition EVACUATING_LABEL :: string where
  "EVACUATING_LABEL = ''zfsevac.alumino.us/evacuating''"
definition PARAMS_NAME :: string where "PARAMS_NAME = ''zfs-evacuation-locks''"

lemmas evac_consts =
  EVACUATE_ANNOTATION_def GUARD_FINALIZER_def EVACUATION_FINALIZER_def EVACUATING_LABEL_def
  PARAMS_NAME_def

section \<open>Spec\<close>

datatype evacuation_trigger = Annotation | NodeTaint

datatype evacuation_mode = WhenIdle | WhenClaimed

record evac_spec =
  es_pv_name :: string
  es_trigger :: evacuation_trigger
  es_mode :: evacuation_mode
  es_target_node :: "string option"
  es_target_pool :: "string option"
  es_settle_seconds :: "u64 option"
  es_transfer_timeout_seconds :: "u64 option"
  es_max_attempts :: "u32 option"
  es_headroom_percent :: "u32 option"

section \<open>Status\<close>

datatype phase =
    Pending | Guarding | Retaining | Locking | Quiescing | TargetSelecting | Transferring
  | Adopting | Committing | Swapping | CleaningUp | Completed | Aborting | Failed

record pvc_ref =
  pr_namespace :: string
  pr_name :: string
  pr_uid :: string

record source_info =
  si_node :: string
  si_node_id :: string
  si_pool :: string
  si_volume_handle :: string
  si_pv_uid :: string
  si_capacity_bytes :: u64

record target_info =
  ti_node :: string
  ti_node_id :: string
  ti_pool :: string
  ti_new_volume_handle :: string

record transfer_status =
  ts_attempt :: u32
  ts_snap_name :: string
  ts_ports :: "u16 list"
  ts_bytes_relayed :: "u64 option"
  ts_started_at :: "string option"
  ts_failure_reason :: "string option"
  ts_target_snap_delete_issued :: bool

datatype colocation_role = Leader | Follower

record colocation_member =
  cm_pv_name :: string
  cm_capacity_bytes :: u64

record colocation_status =
  co_pod :: string
  co_members :: "colocation_member list"
  co_role :: colocation_role
  co_followed :: "string option"

text \<open>\<open>conditions\<close> is never written by the controller; it stays as unread JSON texts.\<close>

record evac_status =
  s_phase :: phase
  s_conditions :: "string list"
  s_observed_generation :: "int option"
  s_message :: "string option"
  s_pvc_ref :: "pvc_ref option"
  s_source :: "source_info option"
  s_target :: "target_info option"
  s_original_reclaim_policy :: "string option"
  s_old_pv_manifest :: "string option"
  s_new_pv_manifest :: "string option"
  s_committed :: bool
  s_cancelled :: bool
  s_transfer :: "transfer_status option"
  s_quiesced_at :: "string option"
  s_locked_at :: "string option"
  s_colocation :: "colocation_status option"

definition default_status :: evac_status where
  "default_status = \<lparr>s_phase = Pending, s_conditions = [], s_observed_generation = None,
     s_message = None, s_pvc_ref = None, s_source = None, s_target = None,
     s_original_reclaim_policy = None, s_old_pv_manifest = None, s_new_pv_manifest = None,
     s_committed = False, s_cancelled = False, s_transfer = None, s_quiesced_at = None,
     s_locked_at = None, s_colocation = None\<rparr>"

record zfs_evacuation =
  ev_meta :: objmeta
  ev_spec :: evac_spec
  ev_status :: "evac_status option"

record evacuation_params_spec =
  pvc_keys :: "string list"
  claimable_pvc_keys :: "string list"

definition default_params :: evacuation_params_spec where
  "default_params = \<lparr>pvc_keys = [], claimable_pvc_keys = []\<rparr>"

record evacuation_params =
  ep_meta :: objmeta
  ep_spec :: evacuation_params_spec

section \<open>Leader-election lease\<close>

text \<open>
  \<open>LeaseSpec\<close> of the coordination API, as \<open>src/src/leader.rs\<close> uses it. Times are seconds
  (\<open>Timestamp::as_second\<close>), the only reading the controller makes of them.
\<close>

record lease_spec =
  ls_holder_identity :: "string option"
  ls_lease_duration_seconds :: "32 word option"
  ls_acquire_time :: "int option"
  ls_renew_time :: "int option"
  ls_lease_transitions :: "32 word option"
  ls_others :: others

record lease =
  le_meta :: objmeta
  le_spec :: "lease_spec option"

section \<open>The status's phases in numbers\<close>

text \<open>
  The order of the phases in the documented state machine; the two terminal failures come
  after every forward phase, so that a phase change is always an increase.
\<close>

fun phase_rank :: "phase \<Rightarrow> nat" where
  "phase_rank Pending = 0"
| "phase_rank Guarding = 1"
| "phase_rank Retaining = 2"
| "phase_rank Locking = 3"
| "phase_rank Quiescing = 4"
| "phase_rank TargetSelecting = 5"
| "phase_rank Transferring = 6"
| "phase_rank Adopting = 7"
| "phase_rank Committing = 8"
| "phase_rank Swapping = 9"
| "phase_rank CleaningUp = 10"
| "phase_rank Completed = 11"
| "phase_rank Aborting = 12"
| "phase_rank Failed = 13"

lemma phase_rank_inj: "phase_rank p = phase_rank q \<longleftrightarrow> p = q"
  by (cases p; cases q) simp_all

instantiation phase :: linorder
begin

definition less_eq_phase :: "phase \<Rightarrow> phase \<Rightarrow> bool" where
  "p \<le> q \<longleftrightarrow> phase_rank p \<le> phase_rank q"

definition less_phase :: "phase \<Rightarrow> phase \<Rightarrow> bool" where
  "p < q \<longleftrightarrow> phase_rank p < phase_rank q"

instance
  by standard (auto simp: less_eq_phase_def less_phase_def phase_rank_inj)

end

end
