(* ===== verification/Effects.thy ===== *)
theory Effects
  imports Evac_Objects
begin

text \<open>
  Effectful code as values. The controller is a client of the Kubernetes API, of the clock
  and of the random source; none of these is code of the repository, so a program is a tree
  of requests whose continuation takes whatever the outside answers. Running a program takes
  the outside as a parameter \<open>api\<close>: a function from a world and a request to an answer and the
  next world. Other writers (users, the scheduler, the node agents) are part of that world,
  so a statement for every \<open>api\<close> and every world is a statement under every interleaving of
  API calls.

  The in-memory table of live relays (\<open>Ctx::transfers\<close>) is the program's own state: a \<open>Mem\<close>
  node is one critical section of its mutex.
\<close>

section \<open>Requests and answers\<close>

datatype kind =
    K_PV | K_Node | K_PVC | K_Pod | K_StorageClass | K_ZFSVolume | K_ZFSSnapshot
  | K_ZFSBackup | K_ZFSRestore | K_ZFSNode | K_Evacuation | K_Params | K_Lease

datatype obj =
    O_pv persistent_volume
  | O_node node
  | O_pvc persistent_volume_claim
  | O_pod pod
  | O_sc storage_class
  | O_zv zfs_volume
  | O_snap zfs_snapshot
  | O_bkp zfs_backup
  | O_rst zfs_restore
  | O_znode zfs_node
  | O_evac zfs_evacuation
  | O_params evacuation_params
  | O_lease lease

text \<open>The merge patches the controller sends; \<open>None\<close> is a JSON null, which removes the entry.\<close>

datatype patch =
    P_finalizers "string list"
  | P_reclaim_policy string
  | P_label string "string option"
  | P_annotation string "string option"

datatype ip_addr = V4 u32 | V6 u128

record ip_net =
  net_addr :: ip_addr
  net_prefix :: u8

datatype req =
    Get kind string string                          \<comment> \<open>kind, namespace, name\<close>
  | List_all kind string "(string \<times> string) option"  \<comment> \<open>kind, namespace, label selector\<close>
  | Create kind string obj
  | Replace kind string string obj
  | Delete kind string string
  | Patch_merge kind string string patch
  | Patch_status string evac_status
  | Now
  | Rand_u128
  | Rand_u16
  | Spawn_relay "ip_net list" "ip_net list"
  | Relay_load nat
  | Abort_task nat
  | Selection_lock
  | Selection_unlock

text \<open>\<open>kube::Error\<close>: an API status with its HTTP code, or anything else (transport, decoding).\<close>

datatype kube_error = Api_error u16 string | Kube_other string

record relay_load =
  rl_bytes :: u64
  rl_last_activity :: u64
  rl_task_finished :: bool
  rl_source_connected :: bool

datatype resp =
    R_err kube_error
  | R_ok
  | R_none
  | R_obj obj
  | R_objs "obj list"
  | R_time nat                  \<comment> \<open>nanoseconds since the epoch\<close>
  | R_u128 u128
  | R_u16 u16
  | R_relay nat u16 u16         \<comment> \<open>task, backup port, restore port\<close>
  | R_load relay_load

section \<open>Errors\<close>

text \<open>\<open>anyhow::Error\<close>: a message or a Kubernetes error, under context lines.\<close>

datatype error =
    E_msg string
  | E_kube kube_error
  | E_ctx string error

section \<open>Programs\<close>

record active_transfer =
  at_attempt :: u32
  at_task :: nat
  at_backup_port :: u16
  at_restore_port :: u16

type_synonym transfers = "string \<rightharpoonup> active_transfer"

datatype 'a prog =
    Done "error + 'a"
  | Call req "resp \<Rightarrow> 'a prog"
  | Mem "transfers \<Rightarrow> transfers" "transfers \<Rightarrow> 'a prog"

abbreviation ret :: "'a \<Rightarrow> 'a prog" where
  "ret x \<equiv> Done (Inr x)"

abbreviation throw :: "error \<Rightarrow> 'a prog" where
  "throw e \<equiv> Done (Inl e)"

text \<open>Sequencing with the \<open>?\<close> operator: an error ends the program.\<close>

primrec bnd :: "'a prog \<Rightarrow> ('a \<Rightarrow> 'b prog) \<Rightarrow> 'b prog" where
  "bnd (Done r) f = (case r of Inl e \<Rightarrow> Done (Inl e) | Inr x \<Rightarrow> f x)"
| "bnd (Call q k) f = Call q (\<lambda>a. bnd (k a) f)"
| "bnd (Mem g k) f = Mem g (\<lambda>m. bnd (k m) f)"

text \<open>\<open>match result { Ok(x) => .., Err(e) => .. }\<close>: the error is handled, not propagated.\<close>

primrec try_with :: "'a prog \<Rightarrow> (error + 'a \<Rightarrow> 'b prog) \<Rightarrow> 'b prog" where
  "try_with (Done r) f = f r"
| "try_with (Call q k) f = Call q (\<lambda>a. try_with (k a) f)"
| "try_with (Mem g k) f = Mem g (\<lambda>m. try_with (k m) f)"

text \<open>\<open>.context(..)\<close>\<close>

definition with_context :: "string \<Rightarrow> 'a prog \<Rightarrow> 'a prog" where
  "with_context s p = try_with p (\<lambda>r. case r of Inl e \<Rightarrow> throw (E_ctx s e) | Inr x \<Rightarrow> ret x)"

text \<open>A scope that holds a guard: released on every way out, errors included.\<close>

definition with_selection_lock :: "'a prog \<Rightarrow> 'a prog" where
  "with_selection_lock p =
     Call Selection_lock (\<lambda>_. try_with p (\<lambda>r. Call Selection_unlock (\<lambda>_. Done r)))"

text \<open>One request, its answer decoded.\<close>

definition ask :: "req \<Rightarrow> (resp \<Rightarrow> error + 'a) \<Rightarrow> 'a prog" where
  "ask q d = Call q (\<lambda>a. Done (d a))"

section \<open>Running\<close>

type_synonym 'w api = "req \<Rightarrow> 'w \<Rightarrow> resp \<times> 'w"
type_synonym trace = "(req \<times> resp) list"

primrec exec :: "'w api \<Rightarrow> 'a prog \<Rightarrow> 'w \<Rightarrow> transfers \<Rightarrow> (error + 'a) \<times> trace \<times> 'w \<times> transfers" where
  "exec api (Done r) w m = (r, [], w, m)"
| "exec api (Call q k) w m =
     (let (a, w') = api q w; (r, tr, s) = exec api (k a) w' m in (r, (q, a) # tr, s))"
| "exec api (Mem g k) w m = exec api (k m) w (g m)"

abbreviation run_trace :: "'w api \<Rightarrow> 'a prog \<Rightarrow> 'w \<Rightarrow> transfers \<Rightarrow> trace" where
  "run_trace api p w m \<equiv> fst (snd (exec api p w m))"

abbreviation run_result :: "'w api \<Rightarrow> 'a prog \<Rightarrow> 'w \<Rightarrow> transfers \<Rightarrow> error + 'a" where
  "run_result api p w m \<equiv> fst (exec api p w m)"

text \<open>A world that replays a script of answers, for concrete runs.\<close>

fun replay :: "resp list api" where
  "replay q [] = (R_err (Kube_other ''connection closed''), [])"
| "replay q (a # as) = (a, as)"

section \<open>Verification conditions\<close>

text \<open>
  \<open>vc G p Q h\<close>: started after the calls \<open>h\<close>, whatever the outside answers and whatever the
  relay table holds, every call of \<open>p\<close> satisfies the guard \<open>G\<close> (given the calls before it) and
  the result satisfies \<open>Q\<close> (given all calls). It is computed by rewriting: \<open>vc_bnd\<close> turns
  sequencing into nesting.
\<close>

primrec vc :: "(trace \<Rightarrow> req \<Rightarrow> bool) \<Rightarrow> 'a prog \<Rightarrow> (error + 'a \<Rightarrow> trace \<Rightarrow> bool) \<Rightarrow> trace \<Rightarrow> bool" where
  "vc G (Done r) Q h \<longleftrightarrow> Q r h"
| "vc G (Call q k) Q h \<longleftrightarrow> G h q \<and> (\<forall>a. vc G (k a) Q (h @ [(q, a)]))"
| "vc G (Mem g k) Q h \<longleftrightarrow> (\<forall>m. vc G (k m) Q h)"

declare vc.simps [vc_simps]

definition on_ok :: "('a \<Rightarrow> trace \<Rightarrow> bool) \<Rightarrow> (error \<Rightarrow> trace \<Rightarrow> bool) \<Rightarrow> error + 'a \<Rightarrow> trace \<Rightarrow> bool" where
  "on_ok P E r h = (case r of Inl e \<Rightarrow> E e h | Inr x \<Rightarrow> P x h)"

lemma on_ok_simps [simp, vc_simps]:
  "on_ok P E (Inl e) h = E e h" "on_ok P E (Inr x) h = P x h"
  by (simp_all add: on_ok_def)

lemma vc_try_with [vc_simps]: "vc G (try_with p f) Q h \<longleftrightarrow> vc G p (\<lambda>r. vc G (f r) Q) h"
  by (induction p arbitrary: h) simp_all

lemma bnd_try_with: "bnd p f = try_with p (\<lambda>r. case r of Inl e \<Rightarrow> throw e | Inr x \<Rightarrow> f x)"
  by (induction p) (simp_all split: sum.splits)

lemma vc_bnd [vc_simps]:
  "vc G (bnd p f) Q h \<longleftrightarrow> vc G p (on_ok (\<lambda>x. vc G (f x) Q) (\<lambda>e. Q (Inl e))) h"
proof -
  have "(\<lambda>r. vc G (case r of Inl e \<Rightarrow> throw e | Inr x \<Rightarrow> f x) Q) = on_ok (\<lambda>x. vc G (f x) Q) (\<lambda>e. Q (Inl e))"
    by (auto simp: fun_eq_iff on_ok_def split: sum.splits)
  then show ?thesis by (simp add: bnd_try_with vc_try_with)
qed

lemma vc_with_context [vc_simps]:
  "vc G (with_context s p) Q h \<longleftrightarrow> vc G p (on_ok (\<lambda>x. Q (Inr x)) (\<lambda>e. Q (Inl (E_ctx s e)))) h"
proof -
  have "(\<lambda>r. vc G (case r of Inl e \<Rightarrow> throw (E_ctx s e) | Inr x \<Rightarrow> ret x) Q)
      = on_ok (\<lambda>x. Q (Inr x)) (\<lambda>e. Q (Inl (E_ctx s e)))"
    by (auto simp: fun_eq_iff on_ok_def split: sum.splits)
  then show ?thesis by (simp add: with_context_def vc_try_with)
qed

lemma vc_ask [vc_simps]: "vc G (ask q d) Q h \<longleftrightarrow> G h q \<and> (\<forall>a. Q (d a) (h @ [(q, a)]))"
  by (simp add: ask_def)

lemma vc_if [vc_simps]: "vc G (if b then p else p') Q h \<longleftrightarrow> (if b then vc G p Q h else vc G p' Q h)"
  by simp

lemma vc_mono:
  "vc G p Q h \<Longrightarrow> (\<And>h q. G h q \<Longrightarrow> G' h q) \<Longrightarrow> (\<And>r h. Q r h \<Longrightarrow> Q' r h) \<Longrightarrow> vc G' p Q' h"
  by (induction p arbitrary: h) auto

lemma vc_conseq: "vc G p Q h \<Longrightarrow> (\<And>r h. Q r h \<Longrightarrow> Q' r h) \<Longrightarrow> vc G p Q' h"
  by (rule vc_mono)

lemma vc_bnd_using:
  "vc G p S h \<Longrightarrow> (\<And>x h'. S (Inr x) h' \<Longrightarrow> vc G (f x) Q h') \<Longrightarrow> (\<And>e h'. S (Inl e) h' \<Longrightarrow> Q (Inl e) h')
     \<Longrightarrow> vc G (bnd p f) Q h"
  unfolding vc_bnd by (erule vc_conseq) (auto simp: on_ok_def split: sum.split)

lemma vc_conj: "vc G p Q h \<Longrightarrow> vc G' p Q' h \<Longrightarrow> vc (\<lambda>h q. G h q \<and> G' h q) p (\<lambda>r h. Q r h \<and> Q' r h) h"
  by (induction p arbitrary: h) auto

text \<open>The history only grows.\<close>

lemma vc_extends: "vc (\<lambda>_ _. True) p (\<lambda>r h'. \<exists>t. h' = h @ t) h"
proof -
  have "vc (\<lambda>_ _. True) p (\<lambda>r h'. \<exists>t. h' = h0 @ t) h" if "\<exists>t. h = h0 @ t" for h0
    using that by (induction p arbitrary: h) auto
  then show ?thesis by blast
qed

text \<open>
  Soundness. The guard holds of every call of every run, at the prefix of the run before it
  (so also of a run cut off by a crash), and the postcondition of every completed run.
\<close>

lemma vc_sound_post:
  "vc G p Q h \<Longrightarrow> exec api p w m = (r, tr, s) \<Longrightarrow> Q r (h @ tr)"
proof (induction p arbitrary: h w m r tr s)
  case (Call q k)
  obtain a w' where a: "api q w = (a, w')" by fastforce
  obtain r1 tr1 s1 where e: "exec api (k a) w' m = (r1, tr1, s1)" by (cases "exec api (k a) w' m")
  have "vc G (k a) Q (h @ [(q, a)])" using Call.prems(1) by simp
  then have "Q r1 ((h @ [(q, a)]) @ tr1)" using Call.IH e by blast
  moreover have "r = r1" "tr = (q, a) # tr1" using Call.prems(2) a e by simp_all
  ultimately show ?case by simp
next
  case (Mem g k)
  then have "vc G (k m) Q h" "exec api (k m) w (g m) = (r, tr, s)" by simp_all
  then show ?case by (rule Mem.IH [OF rangeI])
qed auto

lemma vc_sound_guard:
  "vc G p Q h \<Longrightarrow> run_trace api p w m = xs @ (q, a) # ys \<Longrightarrow> G (h @ xs) q"
proof (induction p arbitrary: h w m xs)
  case (Call q' k)
  obtain a' w' where a': "api q' w = (a', w')" by fastforce
  have tr: "run_trace api (Call q' k) w m = (q', a') # run_trace api (k a') w' m"
    by (simp add: a' split: prod.splits)
  show ?case
  proof (cases xs)
    case Nil
    with Call.prems tr show ?thesis by simp
  next
    case (Cons x xs')
    with Call.prems(2) tr have "run_trace api (k a') w' m = xs' @ (q, a) # ys" "x = (q', a')" by auto
    moreover have "vc G (k a') Q (h @ [(q', a')])" using Call.prems(1) by simp
    ultimately have "G ((h @ [(q', a')]) @ xs') q" using Call.IH by blast
    with Cons \<open>x = (q', a')\<close> show ?thesis by simp
  qed
next
  case (Mem g k)
  then have "vc G (k m) Q h" "run_trace api (k m) w (g m) = xs @ (q, a) # ys" by simp_all
  then show ?case by (rule Mem.IH [OF rangeI])
qed auto

lemma vc_sound_call:
  assumes "vc (\<lambda>_. P) p Q h" and "(q, a) \<in> set (run_trace api p w m)"
  shows "P q"
proof -
  from assms(2) obtain xs ys where "run_trace api p w m = xs @ (q, a) # ys"
    by (meson split_list)
  with assms(1) show ?thesis by (rule vc_sound_guard)
qed

text \<open>Every program returns: the tree is finite on every path, so a run is a finite trace.\<close>

lemma exec_total: "\<exists>r tr w' m'. exec api p w m = (r, tr, w', m')"
  by (metis prod_cases4)

lemma exec_bnd:
  "exec api (bnd p f) w m =
     (case exec api p w m of
        (Inl e, tr, s) \<Rightarrow> (Inl e, tr, s)
      | (Inr x, tr, w', m') \<Rightarrow> (case exec api (f x) w' m' of (r, tr', s) \<Rightarrow> (r, tr @ tr', s)))"
  by (induction p arbitrary: w m) (auto split: sum.splits prod.splits)

section \<open>Calls, whatever came before\<close>

text \<open>
  \<open>calls P p R\<close>: every call of \<open>p\<close> satisfies \<open>P\<close> and its result satisfies \<open>R\<close>. It is \<open>vc\<close>
  for conditions that do not look at the calls before; \<open>call_intros\<close> are its introduction
  rules, one per construct, so that the condition of a handler splits into one goal per call.
\<close>

named_theorems call_intros \<open>introduction rules for the calls of a program\<close>

primrec calls :: "(req \<Rightarrow> bool) \<Rightarrow> 'a prog \<Rightarrow> (error + 'a \<Rightarrow> bool) \<Rightarrow> bool" where
  "calls P (Done r) R \<longleftrightarrow> R r"
| "calls P (Call q k) R \<longleftrightarrow> P q \<and> (\<forall>a. calls P (k a) R)"
| "calls P (Mem g k) R \<longleftrightarrow> (\<forall>m. calls P (k m) R)"

lemma calls_vc: "calls P p R \<Longrightarrow> vc (\<lambda>_. P) p (\<lambda>r _. R r) h"
  by (induction p arbitrary: h) auto

lemma calls_mono: "calls P p R \<Longrightarrow> (\<And>q. P q \<Longrightarrow> P' q) \<Longrightarrow> (\<And>r. R r \<Longrightarrow> R' r) \<Longrightarrow> calls P' p R'"
  by (induction p) auto

lemma calls_bnd:
  "calls P (bnd p f) R \<longleftrightarrow> calls P p (\<lambda>r. case r of Inl e \<Rightarrow> R (Inl e) | Inr x \<Rightarrow> calls P (f x) R)"
  by (induction p) (simp_all split: sum.splits)

lemma calls_try_with: "calls P (try_with p f) R \<longleftrightarrow> calls P p (\<lambda>r. calls P (f r) R)"
  by (induction p) simp_all

text \<open>Rules that keep nothing of an intermediate result, and one that does.\<close>

lemma calls_bndI [call_intros]:
  "calls P p (\<lambda>_. True) \<Longrightarrow> (\<And>e. R (Inl e)) \<Longrightarrow> (\<And>x. calls P (f x) R) \<Longrightarrow> calls P (bnd p f) R"
  unfolding calls_bnd by (erule calls_mono) (auto split: sum.split)

lemma calls_bnd_using:
  "calls P p S \<Longrightarrow> (\<And>e. R (Inl e)) \<Longrightarrow> (\<And>x. S (Inr x) \<Longrightarrow> calls P (f x) R) \<Longrightarrow> calls P (bnd p f) R"
  unfolding calls_bnd by (erule calls_mono) (auto split: sum.split)

lemma calls_try_withI [call_intros]:
  "calls P p (\<lambda>_. True) \<Longrightarrow> (\<And>r. calls P (f r) R) \<Longrightarrow> calls P (try_with p f) R"
  unfolding calls_try_with by (erule calls_mono) simp_all

lemma calls_DoneI [call_intros]: "R r \<Longrightarrow> calls P (Done r) R"
  by simp

lemma calls_CallI [call_intros]: "P q \<Longrightarrow> (\<And>a. calls P (k a) R) \<Longrightarrow> calls P (Call q k) R"
  by simp

lemma calls_MemI [call_intros]: "(\<And>m. calls P (k m) R) \<Longrightarrow> calls P (Mem g k) R"
  by simp

lemma calls_askI [call_intros]: "P q \<Longrightarrow> (\<And>a. R (d a)) \<Longrightarrow> calls P (ask q d) R"
  by (simp add: ask_def)

lemma calls_with_contextI [call_intros]:
  "calls P p (\<lambda>_. True) \<Longrightarrow> (\<And>r. R r) \<Longrightarrow> calls P (with_context s p) R"
  unfolding with_context_def calls_try_with by (erule calls_mono) (auto split: sum.split)

lemma calls_with_selection_lockI [call_intros]:
  "P Selection_lock \<Longrightarrow> P Selection_unlock \<Longrightarrow> calls P p R \<Longrightarrow> calls P (with_selection_lock p) R"
  unfolding with_selection_lock_def by (auto simp: calls_try_with elim: calls_mono)

lemma calls_ifI [call_intros]:
  "(b \<Longrightarrow> calls P p R) \<Longrightarrow> (\<not> b \<Longrightarrow> calls P p' R) \<Longrightarrow> calls P (if b then p else p') R"
  by simp

lemma calls_optionI [call_intros]:
  "(o1 = None \<Longrightarrow> calls P p R) \<Longrightarrow> (\<And>x. o1 = Some x \<Longrightarrow> calls P (f x) R)
     \<Longrightarrow> calls P (case o1 of None \<Rightarrow> p | Some x \<Rightarrow> f x) R"
  by (cases o1) simp_all

lemma calls_listI [call_intros]:
  "(xs = [] \<Longrightarrow> calls P p R) \<Longrightarrow> (\<And>y ys. xs = y # ys \<Longrightarrow> calls P (f y ys) R)
     \<Longrightarrow> calls P (case xs of [] \<Rightarrow> p | y # ys \<Rightarrow> f y ys) R"
  by (cases xs) simp_all

lemma calls_prodI [call_intros]:
  "(\<And>x y. z = (x, y) \<Longrightarrow> calls P (f x y) R) \<Longrightarrow> calls P (case z of (x, y) \<Rightarrow> f x y) R"
  by (cases z) simp

lemma calls_sumI [call_intros]:
  "(\<And>x. s = Inl x \<Longrightarrow> calls P (f x) R) \<Longrightarrow> (\<And>y. s = Inr y \<Longrightarrow> calls P (g y) R)
     \<Longrightarrow> calls P (case s of Inl x \<Rightarrow> f x | Inr y \<Rightarrow> g y) R"
  by (cases s) simp_all

lemma calls_LetI [call_intros]: "(\<And>x. x = t \<Longrightarrow> calls P (f x) R) \<Longrightarrow> calls P (Let t f) R"
  by simp

lemma calls_respI [call_intros]:
  "(\<And>e. a = R_err e \<Longrightarrow> calls P (f e) R) \<Longrightarrow> calls P p R
     \<Longrightarrow> calls P (case a of R_err e \<Rightarrow> f e | _ \<Rightarrow> p) R"
  by (cases a) simp_all

section \<open>Every possible run\<close>

text \<open>
  \<open>runs p tr\<close>: \<open>tr\<close> is what \<open>p\<close> may have asked and been answered so far. Answers are arbitrary,
  the relay table is arbitrary at each critical section (other reconciles use it too), and a
  run may stop anywhere (a crash, the loss of leadership): every prefix of a run is a run.
\<close>

inductive runs :: "'a prog \<Rightarrow> trace \<Rightarrow> bool" where
  stop: "runs p []"
| call: "runs (k a) tr \<Longrightarrow> runs (Call q k) ((q, a) # tr)"
| mem: "runs (k m) tr \<Longrightarrow> runs (Mem g k) tr"

inductive_cases runs_CallE: "runs (Call q k) tr"
inductive_cases runs_MemE: "runs (Mem g k) tr"
inductive_cases runs_DoneE: "runs (Done r) tr"

lemma runs_exec: "runs p (run_trace api p w m)"
proof (induction p arbitrary: w m)
  case (Call q k)
  obtain a w' where a: "api q w = (a, w')" by fastforce
  then have "run_trace api (Call q k) w m = (q, a) # run_trace api (k a) w' m"
    by (simp split: prod.splits)
  then show ?case using Call.IH [OF rangeI] by (simp add: runs.call)
next
  case (Mem g k)
  then have "runs (k m) (run_trace api (k m) w (g m))" by blast
  then show ?case by (simp add: runs.mem)
qed (simp add: runs.stop)

lemma runs_guard:
  "runs p tr \<Longrightarrow> vc G p Q h \<Longrightarrow> tr = xs @ (q, a) # ys \<Longrightarrow> G (h @ xs) q"
proof (induction arbitrary: h xs rule: runs.induct)
  case (call k b tr q')
  show ?case
  proof (cases xs)
    case Nil
    with call.prems show ?thesis by simp
  next
    case (Cons x xs')
    with call.prems(2) have "tr = xs' @ (q, a) # ys" "x = (q', b)" by auto
    moreover have "vc G (k b) Q (h @ [(q', b)])" using call.prems(1) by simp
    ultimately have "G ((h @ [(q', b)]) @ xs') q" using call.IH by blast
    with Cons \<open>x = (q', b)\<close> show ?thesis by simp
  qed
next
  case (mem k m tr g)
  then show ?case by simp
qed simp

lemma runs_prefix: "runs p (h @ t) \<Longrightarrow> runs p h"
proof (induction p "h @ t" arbitrary: h rule: runs.induct)
  case (call k a tr q)
  then show ?case by (cases h) (auto intro: runs.intros)
qed (auto intro: runs.intros)

text \<open>What \<open>calls\<close> says of a run.\<close>

lemma calls_sound: "calls P p R \<Longrightarrow> runs p tr \<Longrightarrow> (q, a) \<in> set tr \<Longrightarrow> P q"
  by (metis append_Nil calls_vc runs_guard split_list)

lemma calls_sound_result: "calls P p R \<Longrightarrow> R (run_result api p w m)"
  using vc_sound_post [OF calls_vc [where h = "[]"]] by (metis prod.collapse)

text \<open>The calls of a program stay calls of that program when others came before.\<close>

lemma vc_frame:
  assumes "calls P p R"
    and "\<And>q t. P q \<Longrightarrow> list_all (\<lambda>(q, a). P q) t \<Longrightarrow> G (h @ t) q"
    and "\<And>r t. R r \<Longrightarrow> list_all (\<lambda>(q, a). P q) t \<Longrightarrow> Q r (h @ t)"
  shows "vc G p Q h"
  using assms
proof (induction p arbitrary: h)
  case (Call q k)
  have "vc G (k a) Q (h @ [(q, a)])" for a
  proof (rule Call.IH)
    show "calls P (k a) R" using Call.prems(1) by simp
    fix q' and t :: trace assume "P q'" "list_all (\<lambda>(q, a). P q) t"
    then show "G ((h @ [(q, a)]) @ t) q'" using Call.prems(1) Call.prems(2) [of q' "(q, a) # t"] by simp
  next
    fix r and t :: trace assume "R r" "list_all (\<lambda>(q, a). P q) t"
    then show "Q r ((h @ [(q, a)]) @ t)" using Call.prems(1) Call.prems(3) [of r "(q, a) # t"] by simp
  qed simp
  moreover have "G h q" using Call.prems(1) Call.prems(2) [of q "[]"] by simp
  ultimately show ?case by simp
next
  case (Mem g k)
  then show ?case by auto
next
  case (Done r)
  then show ?case using Done.prems(3) [of r "[]"] by simp
qed

end
