(* ===== verification/Lock_Params.thy ===== *)
theory Lock_Params
  imports Evac_Objects
begin

text \<open>
  The attach lock (\<open>impl EvacuationParamsSpec\<close>, \<open>src/src/crd/zfs_evacuation.rs\<close>): two lists of
  PVC keys, one per mode. The abstract view of the parameter object is a map from locked
  keys to modes; \<open>lock_table\<close> states what a lock table promises, the client lemmas about
  histories of operations are proved from that contract, and the two Rust methods are shown
  to implement it.
\<close>

section \<open>The operations\<close>

definition lock :: "evacuation_params_spec \<Rightarrow> string \<Rightarrow> evacuation_mode
    \<Rightarrow> bool \<times> evacuation_params_spec" where
  "lock p key mode =
     (case mode of
        WhenIdle \<Rightarrow>
          (let into = pvc_keys p; out_of = claimable_pvc_keys p;
               changed = key \<notin> set into;
               into' = (if changed then into @ [key] else into);
               out_of' = filter (\<lambda>k. k \<noteq> key) out_of
           in (changed \<or> length out_of' \<noteq> length out_of,
               p\<lparr>pvc_keys := into', claimable_pvc_keys := out_of'\<rparr>))
      | WhenClaimed \<Rightarrow>
          (let into = claimable_pvc_keys p; out_of = pvc_keys p;
               changed = key \<notin> set into;
               into' = (if changed then into @ [key] else into);
               out_of' = filter (\<lambda>k. k \<noteq> key) out_of
           in (changed \<or> length out_of' \<noteq> length out_of,
               p\<lparr>pvc_keys := out_of', claimable_pvc_keys := into'\<rparr>)))"

definition unlock :: "evacuation_params_spec \<Rightarrow> string \<Rightarrow> bool \<times> evacuation_params_spec" where
  "unlock p key =
     (let before = length (pvc_keys p) + length (claimable_pvc_keys p);
          p' = p\<lparr>pvc_keys := filter (\<lambda>k. k \<noteq> key) (pvc_keys p),
                 claimable_pvc_keys := filter (\<lambda>k. k \<noteq> key) (claimable_pvc_keys p)\<rparr>
      in (length (pvc_keys p') + length (claimable_pvc_keys p') \<noteq> before, p'))"

section \<open>The contract\<close>

text \<open>
  The mode a key is locked under, as the admission policy reads the two lists: a key in
  \<open>pvcKeys\<close> is denied to every pod, whatever the other list says.
\<close>

definition locked_mode :: "evacuation_params_spec \<Rightarrow> string \<Rightarrow> evacuation_mode option" where
  "locked_mode p k = (if k \<in> set (pvc_keys p) then Some WhenIdle
     else if k \<in> set (claimable_pvc_keys p) then Some WhenClaimed else None)"

text \<open>No key is in both lists, and no list holds a key twice.\<close>

definition wf_params :: "evacuation_params_spec \<Rightarrow> bool" where
  "wf_params p \<longleftrightarrow> distinct (pvc_keys p @ claimable_pvc_keys p)"

datatype 'm lock_op = Lock_op string 'm | Unlock_op string

fun op_key :: "'m lock_op \<Rightarrow> string" where
  "op_key (Lock_op k m) = k"
| "op_key (Unlock_op k) = k"

fun op_mode :: "'m lock_op \<Rightarrow> 'm option" where
  "op_mode (Lock_op k m) = Some m"
| "op_mode (Unlock_op k) = None"

locale lock_table =
  fixes lock_in :: "'p \<Rightarrow> string \<Rightarrow> 'm \<Rightarrow> bool \<times> 'p"
    and unlock_in :: "'p \<Rightarrow> string \<Rightarrow> bool \<times> 'p"
    and view :: "'p \<Rightarrow> string \<rightharpoonup> 'm"
    and wf :: "'p \<Rightarrow> bool"
  assumes view_lock: "view (snd (lock_in p k m)) = (view p)(k \<mapsto> m)"
    and view_unlock: "view (snd (unlock_in p k)) = (view p)(k := None)"
    and wf_lock: "wf p \<Longrightarrow> wf (snd (lock_in p k m))"
    and wf_unlock: "wf p \<Longrightarrow> wf (snd (unlock_in p k))"
    and lock_changed: "fst (lock_in p k m) \<longleftrightarrow> snd (lock_in p k m) \<noteq> p"
    and unlock_changed: "fst (unlock_in p k) \<longleftrightarrow> snd (unlock_in p k) \<noteq> p"
begin

definition apply_op :: "'m lock_op \<Rightarrow> 'p \<Rightarrow> 'p" where
  "apply_op x p = (case x of Lock_op k m \<Rightarrow> snd (lock_in p k m) | Unlock_op k \<Rightarrow> snd (unlock_in p k))"

definition apply_ops :: "'m lock_op list \<Rightarrow> 'p \<Rightarrow> 'p" where
  "apply_ops xs p = fold apply_op xs p"

lemma view_apply_op: "view (apply_op x p) = (view p)(op_key x := op_mode x)"
  by (cases x) (simp_all add: apply_op_def view_lock view_unlock)

lemma wf_apply_ops: "wf p \<Longrightarrow> wf (apply_ops xs p)"
proof (induction xs arbitrary: p)
  case (Cons x xs)
  then have "wf (apply_op x p)" by (cases x) (simp_all add: apply_op_def wf_lock wf_unlock)
  then show ?case using Cons.IH by (simp add: apply_ops_def)
qed (simp add: apply_ops_def)

text \<open>What a history of operations leaves under a key is its last operation on that key.\<close>

lemma view_apply_ops:
  "view (apply_ops xs p) k =
     (case filter (\<lambda>x. op_key x = k) xs of [] \<Rightarrow> view p k | ys \<Rightarrow> op_mode (last ys))"
proof (induction xs rule: rev_induct)
  case Nil
  show ?case by (simp add: apply_ops_def)
next
  case (snoc x xs)
  have "view (apply_ops (xs @ [x]) p) k = (if op_key x = k then op_mode x else view (apply_ops xs p) k)"
    by (simp add: apply_ops_def view_apply_op)
  with snoc.IH show ?case by (auto split: list.splits)
qed

text \<open>Evacuations of different PVCs do not disturb each other's locks.\<close>

lemma view_apply_ops_other:
  assumes "\<And>x. x \<in> set xs \<Longrightarrow> op_key x \<noteq> k"
  shows "view (apply_ops xs p) k = view p k"
proof -
  have "filter (\<lambda>x. op_key x = k) xs = []" using assms by (auto simp: filter_empty_conv)
  then show ?thesis by (simp add: view_apply_ops)
qed

text \<open>A lock holds through everything that happens to other keys.\<close>

lemma view_after_lock:
  assumes "\<And>x. x \<in> set later \<Longrightarrow> op_key x \<noteq> k"
  shows "view (apply_ops (earlier @ Lock_op k m # later) p) k = Some m"
proof -
  have "apply_ops (earlier @ Lock_op k m # later) p = apply_ops later (apply_op (Lock_op k m) (apply_ops earlier p))"
    by (simp add: apply_ops_def)
  then show ?thesis using view_apply_ops_other [OF assms, of later] by (simp add: view_apply_op)
qed

lemma relock_view: "view p k = Some m \<Longrightarrow> view (snd (lock_in p k m)) = view p"
  by (auto simp: view_lock)

end

section \<open>The two lists implement it\<close>

lemma filter_neq_id: "filter (\<lambda>k. k \<noteq> key) xs = xs \<longleftrightarrow> key \<notin> set xs"
  by (auto simp: filter_id_conv)

lemma length_filter_neq: "length (filter (\<lambda>k. k \<noteq> key) xs) = length xs \<longleftrightarrow> key \<notin> set xs"
  using filter_neq_id [of key xs] length_filter_less [of key xs "\<lambda>k. k \<noteq> key"] by fastforce

lemma locked_mode_lock: "locked_mode (snd (lock p k m)) = (locked_mode p)(k \<mapsto> m)"
  by (cases m) (auto simp: lock_def locked_mode_def Let_def fun_eq_iff)

lemma locked_mode_unlock: "locked_mode (snd (unlock p k)) = (locked_mode p)(k := None)"
  by (auto simp: unlock_def locked_mode_def Let_def fun_eq_iff)

lemma wf_params_lock: "wf_params p \<Longrightarrow> wf_params (snd (lock p k m))"
  by (cases m) (auto simp: lock_def wf_params_def Let_def)

lemma wf_params_unlock: "wf_params p \<Longrightarrow> wf_params (snd (unlock p k))"
  by (auto simp: unlock_def wf_params_def Let_def)

lemma lock_changed_iff: "fst (lock p k m) \<longleftrightarrow> snd (lock p k m) \<noteq> p"
  by (cases m; cases p) (auto simp: lock_def Let_def length_filter_neq filter_neq_id)

lemma unlock_changed_iff: "fst (unlock p k) \<longleftrightarrow> snd (unlock p k) \<noteq> p"
proof (cases p)
  case (fields a b)
  have "length (filter (\<lambda>x. x \<noteq> k) a) + length (filter (\<lambda>x. x \<noteq> k) b) = length a + length b
      \<longleftrightarrow> k \<notin> set a \<and> k \<notin> set b"
    using length_filter_le [of "\<lambda>x. x \<noteq> k" a] length_filter_le [of "\<lambda>x. x \<noteq> k" b]
      length_filter_neq [of k a] length_filter_neq [of k b] by linarith
  then show ?thesis by (auto simp: fields unlock_def Let_def filter_neq_id)
qed

interpretation params: lock_table lock unlock locked_mode wf_params
  by unfold_locales
    (simp_all add: locked_mode_lock locked_mode_unlock wf_params_lock wf_params_unlock
      lock_changed_iff unlock_changed_iff)

end
