(* ===== verification/Node_Pod.thy ===== *)
theory Node_Pod
  imports Evac_Objects "HOL-Library.Multiset"
begin

text \<open>
  The pure readings of nodes and pods in \<open>src/src/controller/mod.rs\<close>: node identity, taints and
  readiness, the PVCs a pod references, whether it was ever scheduled, and the constructors
  that address a zfs-localpv object to the target node.
\<close>

section \<open>Addressing objects to the target\<close>

definition adapt_to_target :: "volume_info \<Rightarrow> target_info \<Rightarrow> volume_info" where
  "adapt_to_target info target = info\<lparr>
     vi_owner_node_id := ti_node_id target,
     vi_pool_name := ti_pool target,
     vi_snapname := None\<rparr>"

definition insert_label :: "string \<Rightarrow> string \<Rightarrow> objmeta \<Rightarrow> objmeta" where
  "insert_label k v m = m\<lparr>m_labels := Some (AList.update k v (unwrap_or (m_labels m) []))\<rparr>"

definition target_zfsvolume :: "volume_info \<Rightarrow> target_info \<Rightarrow> zfs_volume" where
  "target_zfsvolume info target = \<lparr>
     zv_meta = insert_label ''kubernetes.io/nodename'' (ti_node_id target)
                 (named_meta (ti_new_volume_handle target)),
     zv_spec = adapt_to_target info target,
     zv_status = Some \<lparr>zs_state = Some ZFS_STATUS_PENDING\<rparr>\<rparr>"

section \<open>Nodes\<close>

definition node_taints :: "node \<Rightarrow> taint list" where
  "node_taints n = (case node_spec n of None \<Rightarrow> [] | Some s \<Rightarrow> unwrap_or (ns_taints s) [])"

definition node_has_evacuate_taint :: "node \<Rightarrow> string \<Rightarrow> bool" where
  "node_has_evacuate_taint n key \<longleftrightarrow> list_ex (\<lambda>t. ta_key t = key) (node_taints n)"

definition node_id_of :: "node \<Rightarrow> string" where
  "node_id_of n = (case map_of (meta_labels (node_meta n)) NODE_ID_TOPOLOGY_KEY of
     Some v \<Rightarrow> v | None \<Rightarrow> name_any (node_meta n))"

definition node_is_ready :: "node \<Rightarrow> bool" where
  "node_is_ready n =
     (let ready = (case node_status n of None \<Rightarrow> False
        | Some s \<Rightarrow> (case nt_conditions s of None \<Rightarrow> False
            | Some cs \<Rightarrow> list_ex (\<lambda>c. c_type c = ''Ready'' \<and> c_status c = ''True'') cs));
          schedulable = (\<not> (case node_spec n of None \<Rightarrow> False | Some s \<Rightarrow> unwrap_or (ns_unschedulable s) False))
      in ready \<and> schedulable)"

definition node_repels_pods :: "node \<Rightarrow> string \<Rightarrow> bool" where
  "node_repels_pods n key =
     (case node_spec n of None \<Rightarrow> False
      | Some spec \<Rightarrow> unwrap_or (ns_unschedulable spec) False
          \<or> is_some_and (ns_taints spec)
              (list_ex (\<lambda>t. ta_key t = key \<and> (ta_effect t = ''NoSchedule'' \<or> ta_effect t = ''NoExecute''))))"

section \<open>Pods\<close>

abbreviation pod_name :: "pod \<Rightarrow> string" where
  "pod_name p \<equiv> name_any (pod_meta p)"

definition volume_pvc_name :: "string \<Rightarrow> pod_volume \<Rightarrow> string option" where
  "volume_pvc_name pn v = (case vol_claim v of
     Some c \<Rightarrow> Some c
   | None \<Rightarrow> if vol_ephemeral v then Some (pn @ ''-'' @ vol_name v) else None)"

definition pod_pvc_names :: "pod \<Rightarrow> string list" where
  "pod_pvc_names p = (case pod_spec p of None \<Rightarrow> []
     | Some s \<Rightarrow> List.map_filter (volume_pvc_name (pod_name p)) (unwrap_or (ps_volumes s) []))"

definition pod_references_pvc :: "pod \<Rightarrow> string \<Rightarrow> bool" where
  "pod_references_pvc p pvc = list_ex (\<lambda>n. n = pvc) (pod_pvc_names p)"

definition pod_is_scheduled :: "pod \<Rightarrow> bool" where
  "pod_is_scheduled p = (case pod_spec p of None \<Rightarrow> False
     | Some s \<Rightarrow> is_some_and (ps_node_name s) (\<lambda>n. n \<noteq> []))"

text \<open>\<open>sort_by_key\<close> is stable, as \<open>sort_key\<close> is.\<close>

definition unscheduled_pods :: "pod list \<Rightarrow> pod list" where
  "unscheduled_pods pods = sort_key pod_name (filter (\<lambda>p. \<not> pod_is_scheduled p) pods)"

definition pod_names :: "pod list \<Rightarrow> string list" where
  "pod_names pods = map pod_name pods"

definition blocking_pods_message :: "pod list \<Rightarrow> string" where
  "blocking_pods_message pods =
     (let scheduled = filter pod_is_scheduled pods;
          unscheduled = filter (\<lambda>p. \<not> pod_is_scheduled p) pods;
          names = (\<lambda>v. join '', '' (pod_names v));
          parts = (if scheduled = [] then []
                   else [''waiting for pods to release PVC: '' @ names scheduled]) @
                  (if unscheduled = [] then []
                   else [''never-scheduled pods predate the lock and hold it open: '' @ names unscheduled @
                         '' (delete them; the attach-lock denies recreation until the volume has moved)''])
      in join ''; '' parts)"

lemmas pod_defs = pod_references_pvc_def pod_pvc_names_def volume_pvc_name_def pod_is_scheduled_def

section \<open>Facts\<close>

lemma node_repels_pods_iff:
  "node_repels_pods n key \<longleftrightarrow> (\<exists>s. node_spec n = Some s \<and>
     (ns_unschedulable s = Some True \<or>
      (\<exists>t \<in> set (node_taints n). ta_key t = key \<and> ta_effect t \<in> {''NoSchedule'', ''NoExecute''})))"
proof (cases "node_spec n")
  case (Some s)
  then show ?thesis
    by (cases "ns_unschedulable s"; cases "ns_taints s")
      (auto simp: node_repels_pods_def node_taints_def list_ex_iff)
qed (simp add: node_repels_pods_def)

lemma hard_taint_is_evacuate_taint:
  "node_repels_pods n key \<Longrightarrow> \<not> node_has_evacuate_taint n key \<Longrightarrow>
     \<exists>s. node_spec n = Some s \<and> ns_unschedulable s = Some True"
  by (auto simp: node_repels_pods_iff node_has_evacuate_taint_def list_ex_iff)

lemma ready_not_cordoned:
  "node_is_ready n \<Longrightarrow> node_spec n = Some s \<Longrightarrow> ns_unschedulable s \<noteq> Some True"
  by (auto simp: node_is_ready_def Let_def)

text \<open>A node that may be a target is never one that repels pods: the two tests exclude each other.\<close>

lemma target_node_not_repelling:
  assumes "node_is_ready n" and "\<not> node_has_evacuate_taint n key"
  shows "\<not> node_repels_pods n key"
proof
  assume "node_repels_pods n key"
  then obtain s where "node_spec n = Some s" "ns_unschedulable s = Some True"
    using hard_taint_is_evacuate_taint assms(2) by blast
  with assms(1) show False using ready_not_cordoned by blast
qed

lemma set_unscheduled_pods:
  "set (unscheduled_pods pods) = {p \<in> set pods. \<not> pod_is_scheduled p}"
  by (auto simp: unscheduled_pods_def)

lemma sorted_unscheduled_pods: "sorted (map pod_name (unscheduled_pods pods))"
  by (simp add: unscheduled_pods_def)

lemma blocking_pods_message_nonempty: "pods \<noteq> [] \<Longrightarrow> blocking_pods_message pods \<noteq> []"
proof -
  assume "pods \<noteq> []"
  then have "filter pod_is_scheduled pods \<noteq> [] \<or> filter (\<lambda>p. \<not> pod_is_scheduled p) pods \<noteq> []"
    by (cases pods) auto
  then show ?thesis by (auto simp: blocking_pods_message_def Let_def)
qed

lemma adapt_to_target_fields [simp]:
  "vi_owner_node_id (adapt_to_target i t) = ti_node_id t"
  "vi_pool_name (adapt_to_target i t) = ti_pool t"
  "vi_snapname (adapt_to_target i t) = None"
  "vi_capacity (adapt_to_target i t) = vi_capacity i"
  "vi_fs_type (adapt_to_target i t) = vi_fs_type i"
  "vi_volume_type (adapt_to_target i t) = vi_volume_type i"
  "vi_extra (adapt_to_target i t) = vi_extra i"
  by (simp_all add: adapt_to_target_def)

lemma m_labels_insert_label [simp]:
  "oget (m_labels (insert_label k v m)) k' = (if k' = k then Some v else oget (m_labels m) k')"
  by (cases "m_labels m") (simp_all add: insert_label_def)

lemma name_any_insert_label [simp]: "name_any (insert_label k v m) = name_any m"
  by (simp add: insert_label_def name_any_def split: option.split)

section \<open>Choosing the consumer\<close>

text \<open>
  Every reconcile picks the same consumer: the list of never-scheduled pods depends only on
  which pods the API server returned, not on the order it returned them in (pod names are
  unique in a namespace).
\<close>

lemma unscheduled_pods_cong:
  assumes "mset pods = mset pods'" and "distinct (map pod_name pods)"
  shows "unscheduled_pods pods = unscheduled_pods pods'"
proof -
  let ?f = "filter (\<lambda>p. \<not> pod_is_scheduled p)"
  have m: "mset (?f pods) = mset (?f pods')" by (simp add: assms(1))
  have "set pods = set pods'" using assms(1) by (rule mset_eq_setD)
  moreover have "inj_on pod_name (set pods)" using assms(2) by (simp add: distinct_map)
  ultimately have "inj_on pod_name (set (?f pods))" by (auto simp: inj_on_def)
  then have "sort_key pod_name (?f pods) = sort_key pod_name (?f pods')"
    by (intro sort_key_inj_key_eq) (use m in simp_all)
  then show ?thesis by (simp add: unscheduled_pods_def)
qed

end
