(* ===== verification/Placement.thy ===== *)
theory Placement
  imports Node_Pod
begin

text \<open>
  Pod placement without the scheduler (\<open>src/src/controller/placement.rs\<close>): nodeSelector, required
  node affinity and tolerations against hard taints.
\<close>

section \<open>Parsing integers\<close>

text \<open>
  \<open>str::parse\<close> of Rust's standard library for integers: an optional sign (a minus for signed
  types only), at least one digit, nothing else, and a value in range.
\<close>

definition digits_value :: "string \<Rightarrow> nat" where
  "digits_value s = foldl (\<lambda>n c. 10 * n + (of_char c - 48)) 0 s"

definition parse_digits :: "string \<Rightarrow> nat option" where
  "parse_digits s = (if s \<noteq> [] \<and> list_all is_digit s then Some (digits_value s) else None)"

definition parse_unsigned :: "nat \<Rightarrow> string \<Rightarrow> nat option" where
  "parse_unsigned bits s =
     (case parse_digits (case s of c # cs \<Rightarrow> if c = CHR ''+'' then cs else s | [] \<Rightarrow> []) of
        None \<Rightarrow> None
      | Some n \<Rightarrow> if n < 2 ^ bits then Some n else None)"

definition parse_i64 :: "string \<Rightarrow> int option" where
  "parse_i64 s =
     (case s of
        [] \<Rightarrow> None
      | c # cs \<Rightarrow>
          (case (if c = CHR ''-'' then map_option (\<lambda>n. - int n) (parse_digits cs)
                 else if c = CHR ''+'' then map_option int (parse_digits cs)
                 else map_option int (parse_digits s)) of
             None \<Rightarrow> None
           | Some v \<Rightarrow> if - (2 ^ 63) \<le> v \<and> v < 2 ^ 63 then Some v else None))"

section \<open>Placement\<close>

record placement =
  pl_node_selector :: smap
  pl_terms :: "selector_term list"
  pl_tolerations :: "toleration list"

definition from_pod :: "pod \<Rightarrow> placement" where
  "from_pod p =
     (let spec = unwrap_or (pod_spec p) default_pod_spec in
      \<lparr>pl_node_selector = unwrap_or (ps_node_selector spec) [],
       pl_terms = (case ps_affinity spec of None \<Rightarrow> []
         | Some a \<Rightarrow> (case aff_node_affinity a of None \<Rightarrow> []
             | Some na \<Rightarrow> unwrap_or (na_required na) [])),
       pl_tolerations = unwrap_or (ps_tolerations spec) []\<rparr>)"

definition requirement_matches :: "selector_requirement \<Rightarrow> string option \<Rightarrow> bool" where
  "requirement_matches req value =
     (let values = unwrap_or (r_values req) []; op = r_operator req in
      if op = ''In'' then is_some_and value (\<lambda>v. v \<in> set values)
      else if op = ''NotIn'' then \<not> is_some_and value (\<lambda>v. v \<in> set values)
      else if op = ''Exists'' then value \<noteq> None
      else if op = ''DoesNotExist'' then value = None
      else if op = ''Gt'' \<or> op = ''Lt'' then
        (case (Option.bind value parse_i64,
               Option.bind (case values of [] \<Rightarrow> None | b # _ \<Rightarrow> Some b) parse_i64) of
           (Some v, Some bound) \<Rightarrow> if op = ''Gt'' then v > bound else v < bound
         | _ \<Rightarrow> False)
      else True)"

definition term_matches :: "selector_term \<Rightarrow> node \<Rightarrow> bool" where
  "term_matches t n =
     (let exprs = unwrap_or (st_match_expressions t) [];
          fields = unwrap_or (st_match_fields t) [] in
      if exprs = [] \<and> fields = [] then False
      else list_all (\<lambda>e. requirement_matches e (map_of (meta_labels (node_meta n)) (r_key e))) exprs
         \<and> list_all (\<lambda>f. requirement_matches f
               (if r_key f = ''metadata.name'' then Some (name_any (node_meta n)) else None)) fields)"

definition tolerates :: "toleration \<Rightarrow> taint \<Rightarrow> bool" where
  "tolerates tol t =
     (let key_ok = (case tol_key tol of
            None \<Rightarrow> tol_operator tol = Some ''Exists''
          | Some k \<Rightarrow> if k = [] then tol_operator tol = Some ''Exists'' else k = ta_key t);
          effect_ok = (case tol_effect tol of
            None \<Rightarrow> True
          | Some e \<Rightarrow> if e = [] then True else e = ta_effect t);
          value_ok = (if tol_operator tol = Some ''Exists'' then True
            else unwrap_or (tol_value tol) [] = unwrap_or (ta_value t) [])
      in key_ok \<and> effect_ok \<and> value_ok)"

definition hard_taint :: "taint \<Rightarrow> bool" where
  "hard_taint t \<longleftrightarrow> ta_effect t = ''NoSchedule'' \<or> ta_effect t = ''NoExecute''"

definition admits :: "placement \<Rightarrow> node \<Rightarrow> bool" where
  "admits p n =
     (let labels = meta_labels (node_meta n) in
      if list_ex (\<lambda>(k, v). map_of labels k \<noteq> Some v) (pl_node_selector p) then False
      else if pl_terms p \<noteq> [] \<and> \<not> list_ex (\<lambda>t. term_matches t n) (pl_terms p) then False
      else list_all (\<lambda>t. list_ex (\<lambda>tol. tolerates tol t) (pl_tolerations p))
             (filter hard_taint (node_taints n)))"

section \<open>Facts\<close>

text \<open>\<open>admits\<close> as the conjunction the scheduler documentation states.\<close>

lemma admits_iff:
  "admits p n \<longleftrightarrow>
     (\<forall>(k, v) \<in> set (pl_node_selector p). map_of (meta_labels (node_meta n)) k = Some v)
   \<and> (pl_terms p = [] \<or> (\<exists>t \<in> set (pl_terms p). term_matches t n))
   \<and> (\<forall>t \<in> set (node_taints n). hard_taint t \<longrightarrow> (\<exists>tol \<in> set (pl_tolerations p). tolerates tol t))"
  by (auto simp: admits_def Let_def list_ex_iff list_all_iff)

lemma tolerates_exists_all:
  "tol_key tol = None \<Longrightarrow> tol_operator tol = Some ''Exists'' \<Longrightarrow> tol_effect tol = None \<Longrightarrow> tolerates tol t"
  by (simp add: tolerates_def)

lemma tolerates_key:
  assumes "tolerates tol t"
  shows "(tol_key tol = None \<or> tol_key tol = Some []) \<and> tol_operator tol = Some ''Exists''
       \<or> tol_key tol = Some (ta_key t)"
  using assms by (auto simp: tolerates_def Let_def split: option.splits if_splits)

lemma tolerates_effect:
  assumes "tolerates tol t"
  shows "tol_effect tol = None \<or> tol_effect tol = Some [] \<or> tol_effect tol = Some (ta_effect t)"
  using assms by (auto simp: tolerates_def Let_def split: option.splits if_splits)

lemma empty_term_matches_nothing:
  "unwrap_or (st_match_expressions t) [] = [] \<Longrightarrow> unwrap_or (st_match_fields t) [] = [] \<Longrightarrow>
     \<not> term_matches t n"
  by (simp add: term_matches_def Let_def)

lemma digits_value_snoc: "digits_value (s @ [c]) = 10 * digits_value s + (of_char c - 48)"
  by (simp add: digits_value_def)

lemma digits_value_dec [simp]: "digits_value (dec n) = n"
proof (induction n rule: dec.induct)
  case (1 n)
  show ?case
  proof (cases "n < 10")
    case True
    then show ?thesis by (simp add: dec.simps [of n] digits_value_def of_char_digit)
  next
    case False
    then have "dec n = dec (n div 10) @ [digit (n mod 10)]" by (simp add: dec.simps [of n])
    with "1.IH" [OF False] show ?thesis by (simp add: digits_value_snoc of_char_digit)
  qed
qed

lemma parse_digits_dec [simp]: "parse_digits (dec n) = Some n"
  by (simp add: parse_digits_def dec_digits)

lemma dec_no_sign: "dec n = c # cs \<Longrightarrow> is_digit c"
  using dec_digits [of n] by simp

lemma parse_unsigned_dec: "n < 2 ^ bits \<Longrightarrow> parse_unsigned bits (dec n) = Some n"
proof -
  assume "n < 2 ^ bits"
  obtain c cs where c: "dec n = c # cs" by (cases "dec n") auto
  then have "is_digit c" by (rule dec_no_sign)
  then have "c \<noteq> CHR ''+''" by (auto simp: is_digit_def)
  then have "(case dec n of c # cs \<Rightarrow> if c = CHR ''+'' then cs else dec n | [] \<Rightarrow> []) = dec n"
    using c by simp
  then show ?thesis using \<open>n < 2 ^ bits\<close> by (simp add: parse_unsigned_def)
qed

end
