(* ===== verification/Relay_Net.thy ===== *)
theory Relay_Net
  imports Effects Placement
begin

unbundle bit_operations_syntax

text \<open>
  Peer pinning of the relay: \<open>IpNet\<close> (\<open>src/src/transfer/relay.rs\<close>), the addresses of a node
  (\<open>node_ips\<close>, \<open>src/src/controller/mod.rs\<close>) and the allowlist of one relay port (\<open>relay_peers\<close>,
  \<open>src/src/controller/transfer.rs\<close>). Address text is read as Rust's standard library reads it.
\<close>

section \<open>Trimming\<close>

text \<open>
  \<open>str::trim\<close> removes Unicode white space, here as the UTF-8 sequences of the characters with
  that property.
\<close>

definition bytes :: "nat list \<Rightarrow> string" where
  "bytes ns = map char_of ns"

definition white_space :: "string list" where
  "white_space = map bytes
     ([[9], [10], [11], [12], [13], [32], [194, 133], [194, 160], [225, 154, 128],
       [226, 128, 168], [226, 128, 169], [226, 128, 175], [226, 129, 159], [227, 128, 128]]
      @ map (\<lambda>n. [226, 128, 128 + n]) [0..<11])"

definition strip_prefix :: "string \<Rightarrow> string \<Rightarrow> string option" where
  "strip_prefix w s = (if take (length w) s = w \<and> w \<noteq> [] then Some (drop (length w) s) else None)"

fun first_some :: "('a \<Rightarrow> 'b option) \<Rightarrow> 'a list \<Rightarrow> 'b option" where
  "first_some f [] = None"
| "first_some f (x # xs) = (case f x of Some y \<Rightarrow> Some y | None \<Rightarrow> first_some f xs)"

lemma first_some_in: "first_some f xs = Some y \<Longrightarrow> \<exists>x \<in> set xs. f x = Some y"
  by (induction xs) (auto split: option.splits)

lemma strip_prefix_shorter: "strip_prefix w s = Some s' \<Longrightarrow> length s' < length s"
  by (cases s) (auto simp: strip_prefix_def split: if_splits)

lemma first_some_shorter: "first_some (\<lambda>w. strip_prefix w s) ws = Some s' \<Longrightarrow> length s' < length s"
  by (drule first_some_in) (auto simp: strip_prefix_shorter)

function strip_all :: "string list \<Rightarrow> string \<Rightarrow> string" where
  "strip_all ws s = (case first_some (\<lambda>w. strip_prefix w s) ws of None \<Rightarrow> s | Some s' \<Rightarrow> strip_all ws s')"
  by pat_completeness auto
termination
  by (relation "measure (\<lambda>(ws, s). length s)") (auto simp: first_some_shorter)

declare strip_all.simps [simp del]

definition trim :: "string \<Rightarrow> string" where
  "trim s = rev (strip_all (map rev white_space) (rev (strip_all white_space s)))"

section \<open>Reading addresses\<close>

definition hex_value :: "char \<Rightarrow> nat option" where
  "hex_value c = (let n = of_char c :: nat in
     if 48 \<le> n \<and> n \<le> 57 then Some (n - 48)
     else if 97 \<le> n \<and> n \<le> 102 then Some (n - 87)
     else if 65 \<le> n \<and> n \<le> 70 then Some (n - 55) else None)"

definition radix_digit :: "nat \<Rightarrow> char \<Rightarrow> nat option" where
  "radix_digit r c = (case hex_value c of Some d \<Rightarrow> if d < r then Some d else None | None \<Rightarrow> None)"

text \<open>
  The standard library's \<open>read_number\<close>: at most \<open>m\<close> digits, a value that fits \<open>bound\<close>, and
  (unless zero prefixes are allowed) no leading zero before another digit.
\<close>

fun read_digits :: "nat \<Rightarrow> nat \<Rightarrow> nat \<Rightarrow> nat \<Rightarrow> nat \<Rightarrow> string \<Rightarrow> (nat \<times> nat \<times> string) option" where
  "read_digits r m bound acc cnt [] = Some (acc, cnt, [])"
| "read_digits r m bound acc cnt (c # cs) =
     (case radix_digit r c of
        None \<Rightarrow> Some (acc, cnt, c # cs)
      | Some d \<Rightarrow> if r * acc + d < bound \<and> cnt < m
          then read_digits r m bound (r * acc + d) (cnt + 1) cs else None)"

definition read_number :: "nat \<Rightarrow> nat \<Rightarrow> nat \<Rightarrow> bool \<Rightarrow> string \<Rightarrow> (nat \<times> string) option" where
  "read_number r m bound zero_prefix s =
     (case read_digits r m bound 0 0 s of
        None \<Rightarrow> None
      | Some (v, cnt, rest) \<Rightarrow>
          if cnt = 0 \<or> (\<not> zero_prefix \<and> cnt > 1 \<and> take 1 s = ''0'') then None else Some (v, rest))"

definition read_char :: "char \<Rightarrow> string \<Rightarrow> string option" where
  "read_char c s = (case s of x # xs \<Rightarrow> if x = c then Some xs else None | [] \<Rightarrow> None)"

definition read_octet :: "string \<Rightarrow> (nat \<times> string) option" where
  "read_octet s = read_number 10 3 256 False s"

definition read_v4 :: "string \<Rightarrow> (nat list \<times> string) option" where
  "read_v4 s =
     Option.bind (read_octet s) (\<lambda>(a, s1). Option.bind (read_char (CHR ''.'') s1) (\<lambda>s2.
     Option.bind (read_octet s2) (\<lambda>(b, s3). Option.bind (read_char (CHR ''.'') s3) (\<lambda>s4.
     Option.bind (read_octet s4) (\<lambda>(c, s5). Option.bind (read_char (CHR ''.'') s5) (\<lambda>s6.
     Option.bind (read_octet s6) (\<lambda>(d, s7). Some ([a, b, c, d], s7))))))))"

definition read_separator :: "nat \<Rightarrow> string \<Rightarrow> string option" where
  "read_separator i s = (if i = 0 then Some s else read_char (CHR '':'') s)"

text \<open>\<open>n\<close> groups are still wanted, \<open>i\<close> are read; the flag says an embedded IPv4 ended the list.\<close>

fun read_groups :: "nat \<Rightarrow> nat \<Rightarrow> string \<Rightarrow> nat list \<times> bool \<times> string" where
  "read_groups 0 i s = ([], False, s)"
| "read_groups (Suc n) i s =
     (case (if n > 0 then Option.bind (read_separator i s) read_v4 else None) of
        Some ([a, b, c, d], s') \<Rightarrow> ([256 * a + b, 256 * c + d], True, s')
      | _ \<Rightarrow>
        (case Option.bind (read_separator i s) (read_number 16 4 65536 True) of
           None \<Rightarrow> ([], False, s)
         | Some (g, s') \<Rightarrow> (case read_groups n (i + 1) s' of (gs, v4, s'') \<Rightarrow> (g # gs, v4, s''))))"

definition read_v6 :: "string \<Rightarrow> (nat list \<times> string) option" where
  "read_v6 s =
     (case read_groups 8 0 s of (head, v4, s1) \<Rightarrow>
        if length head = 8 then Some (head, s1)
        else if v4 then None
        else Option.bind (read_char (CHR '':'') s1) (\<lambda>s2. Option.bind (read_char (CHR '':'') s2) (\<lambda>s3.
          case read_groups (8 - (length head + 1)) 0 s3 of (tail, _, s4) \<Rightarrow>
            Some (head @ replicate (8 - (length head + length tail)) 0 @ tail, s4))))"

definition parse_ip :: "string \<Rightarrow> ip_addr option" where
  "parse_ip s =
     (case read_v4 s of
        Some (os, []) \<Rightarrow> Some (V4 (word_of_nat (foldl (\<lambda>n d. 256 * n + d) 0 os)))
      | Some _ \<Rightarrow> None
      | None \<Rightarrow>
        (case read_v6 s of
           Some (gs, []) \<Rightarrow> Some (V6 (word_of_nat (foldl (\<lambda>n d. 65536 * n + d) 0 gs)))
         | _ \<Rightarrow> None))"

section \<open>Networks\<close>

definition is_ipv4 :: "ip_addr \<Rightarrow> bool" where
  "is_ipv4 a = (case a of V4 _ \<Rightarrow> True | V6 _ \<Rightarrow> False)"

definition host :: "ip_addr \<Rightarrow> ip_net" where
  "host a = \<lparr>net_addr = a, net_prefix = (if is_ipv4 a then 32 else 128)\<rparr>"

definition split_once :: "char \<Rightarrow> string \<Rightarrow> (string \<times> string) option" where
  "split_once c s = (case dropWhile (\<lambda>x. x \<noteq> c) s of [] \<Rightarrow> None
     | _ # rest \<Rightarrow> Some (takeWhile (\<lambda>x. x \<noteq> c) s, rest))"

definition parse_cidr :: "string \<Rightarrow> ip_net option" where
  "parse_cidr s =
     Option.bind (split_once (CHR ''/'') s) (\<lambda>(ip, len).
     Option.bind (parse_ip (trim ip)) (\<lambda>addr.
     Option.bind (parse_unsigned 8 (trim len)) (\<lambda>prefix.
       if prefix \<le> (if is_ipv4 addr then 32 else 128)
       then Some \<lparr>net_addr = addr, net_prefix = word_of_nat prefix\<rparr> else None)))"

definition prefix_mask :: "u8 \<Rightarrow> 'a::len word" where
  "prefix_mask p = (if p = 0 then 0 else push_bit (LENGTH('a) - unat p) (- 1))"

definition contains :: "ip_net \<Rightarrow> ip_addr \<Rightarrow> bool" where
  "contains net a =
     (case (net_addr net, a) of
        (V4 n, V4 i) \<Rightarrow> (n AND prefix_mask (net_prefix net)) = (i AND prefix_mask (net_prefix net))
      | (V6 n, V6 i) \<Rightarrow> (n AND prefix_mask (net_prefix net)) = (i AND prefix_mask (net_prefix net))
      | _ \<Rightarrow> False)"

text \<open>The networks the two constructors can build: the shift amount of the mask is in range.\<close>

definition wf_net :: "ip_net \<Rightarrow> bool" where
  "wf_net net \<longleftrightarrow> unat (net_prefix net) \<le> (case net_addr net of V4 _ \<Rightarrow> 32 | V6 _ \<Rightarrow> 128)"

section \<open>The allowlist of a node\<close>

definition node_ips :: "node \<Rightarrow> ip_addr list" where
  "node_ips n = (case node_status n of None \<Rightarrow> []
     | Some s \<Rightarrow> (case nt_addresses s of None \<Rightarrow> []
         | Some as \<Rightarrow> List.map_filter (\<lambda>a. parse_ip (addr_address a))
             (filter (\<lambda>a. addr_type a = ''InternalIP'' \<or> addr_type a = ''ExternalIP'') as)))"

definition relay_peers :: "node \<Rightarrow> error + ip_net list" where
  "relay_peers n =
     (let peers = map host (node_ips n) @
        (case node_spec n of None \<Rightarrow> []
         | Some spec \<Rightarrow>
             (let cidrs = unwrap_or (ns_pod_cidrs spec) [];
                  cidrs' = (case ns_pod_cidr spec of
                      Some c \<Rightarrow> if c \<notin> set cidrs then cidrs @ [c] else cidrs
                    | None \<Rightarrow> cidrs)
              in List.map_filter parse_cidr cidrs'))
      in if peers = []
         then Inl (E_msg (''no relay peer addresses found for node '' @ name_any (node_meta n)))
         else Inr peers)"

definition accepts :: "ip_net list \<Rightarrow> ip_addr \<Rightarrow> bool" where
  "accepts allowed peer = list_ex (\<lambda>net. contains net peer) allowed"

section \<open>Facts\<close>

lemma bit_prefix_mask:
  assumes "unat p \<le> LENGTH('a)"
  shows "bit (prefix_mask p :: 'a::len word) i \<longleftrightarrow> LENGTH('a) - unat p \<le> i \<and> i < LENGTH('a)"
proof (cases "p = 0")
  case True
  then show ?thesis by (auto simp: prefix_mask_def)
next
  case False
  then show ?thesis by (auto simp: prefix_mask_def bit_simps dest: bit_imp_le_length)
qed

text \<open>Comparing under the mask is comparing the leading \<open>prefix\<close> bits.\<close>

lemma masked_eq_iff:
  fixes a b :: "'a::len word"
  assumes "unat p \<le> LENGTH('a)"
  shows "(a AND prefix_mask p) = (b AND prefix_mask p)
     \<longleftrightarrow> (\<forall>i. LENGTH('a) - unat p \<le> i \<and> i < LENGTH('a) \<longrightarrow> bit a i = bit b i)"
  using assms by (auto simp: bit_eq_iff bit_and_iff bit_prefix_mask)

lemma masked_eq_drop_bit:
  fixes a b :: "'a::len word"
  assumes "unat p \<le> LENGTH('a)"
  shows "(a AND prefix_mask p) = (b AND prefix_mask p)
     \<longleftrightarrow> drop_bit (LENGTH('a) - unat p) a = drop_bit (LENGTH('a) - unat p) b"
proof -
  have "(\<forall>i. LENGTH('a) - unat p \<le> i \<and> i < LENGTH('a) \<longrightarrow> bit a i = bit b i) \<longleftrightarrow>
      (\<forall>j. bit a (LENGTH('a) - unat p + j) = bit b (LENGTH('a) - unat p + j))"
    by (metis bit_imp_le_length le_add1 le_add_diff_inverse)
  moreover have "drop_bit k a = drop_bit k b \<longleftrightarrow> (\<forall>j. bit a (k + j) = bit b (k + j))" for k
  proof
    assume "drop_bit k a = drop_bit k b"
    then show "\<forall>j. bit a (k + j) = bit b (k + j)" by (metis bit_drop_bit_eq comp_apply)
  qed (auto intro!: bit_word_eqI simp: bit_drop_bit_eq)
  ultimately show ?thesis using masked_eq_iff [OF assms, of a b] by metis
qed

lemma wf_net_host [simp]: "wf_net (host a)"
  by (cases a) (simp_all add: wf_net_def host_def is_ipv4_def)

lemma wf_net_parse_cidr: "parse_cidr s = Some net \<Longrightarrow> wf_net net"
proof -
  assume "parse_cidr s = Some net"
  then obtain addr pfx where p: "pfx \<le> (if is_ipv4 addr then 32 else 128)"
    and n: "net = \<lparr>net_addr = addr, net_prefix = word_of_nat pfx\<rparr>"
    by (auto simp: parse_cidr_def split: if_splits Option.bind_splits prod.splits)
  have "unat (word_of_nat pfx :: u8) \<le> pfx" by (simp add: unat_of_nat)
  with p n show ?thesis by (cases addr) (auto simp: wf_net_def is_ipv4_def)
qed

lemma contains_V4:
  assumes "wf_net net" and "net_addr net = V4 n"
  shows "contains net (V4 i) \<longleftrightarrow>
     drop_bit (32 - unat (net_prefix net)) n = drop_bit (32 - unat (net_prefix net)) i"
proof -
  have "unat (net_prefix net) \<le> LENGTH(32)" using assms by (simp add: wf_net_def)
  from masked_eq_drop_bit [OF this, of n i] show ?thesis by (simp only: contains_def assms(2) prod.case ip_addr.case) simp
qed

lemma contains_V6:
  assumes "wf_net net" and "net_addr net = V6 n"
  shows "contains net (V6 i) \<longleftrightarrow>
     drop_bit (128 - unat (net_prefix net)) n = drop_bit (128 - unat (net_prefix net)) i"
proof -
  have "unat (net_prefix net) \<le> LENGTH(128)" using assms by (simp add: wf_net_def)
  from masked_eq_drop_bit [OF this, of n i] show ?thesis by (simp only: contains_def assms(2) prod.case ip_addr.case) simp
qed

lemma contains_family: "contains net a \<Longrightarrow> is_ipv4 (net_addr net) = is_ipv4 a"
  by (auto simp: contains_def is_ipv4_def split: ip_addr.splits)

lemma contains_host: "contains (host a) b \<longleftrightarrow> a = b"
proof (cases "is_ipv4 a = is_ipv4 b")
  case False
  then show ?thesis using contains_family [of "host a" b] by (auto simp: host_def)
next
  case True
  show ?thesis
  proof (cases a)
    case (V4 n)
    with True obtain i where "b = V4 i" by (cases b) (auto simp: is_ipv4_def)
    with V4 show ?thesis
      using contains_V4 [of "host a" n i] wf_net_host [of a] by (simp add: host_def is_ipv4_def)
  next
    case (V6 n)
    with True obtain i where "b = V6 i" by (cases b) (auto simp: is_ipv4_def)
    with V6 show ?thesis
      using contains_V6 [of "host a" n i] wf_net_host [of a] by (simp add: host_def is_ipv4_def)
  qed
qed

lemma accepts_empty [simp]: "\<not> accepts [] peer"
  by (simp add: accepts_def)

lemma set_map_filter: "set (List.map_filter f xs) = {y. \<exists>x \<in> set xs. f x = Some y}"
  by (auto simp: List.map_filter_def image_iff) force

lemma relay_peers_wf: "relay_peers n = Inr peers \<Longrightarrow> net \<in> set peers \<Longrightarrow> wf_net net"
  by (auto simp: relay_peers_def Let_def set_map_filter wf_net_parse_cidr split: if_splits option.splits)

lemma relay_peers_nonempty: "relay_peers n = Inr peers \<Longrightarrow> peers \<noteq> []"
  by (auto simp: relay_peers_def Let_def split: if_splits)

end
