(* ===== verification/Quantity.thy ===== *)
theory Quantity
  imports Relay_Net
begin

text \<open>
  Kubernetes quantities in bytes (\<open>parse_quantity\<close>, \<open>parse_quantity_or_bytes\<close>,
  \<open>src/src/controller/mod.rs\<close>). The source multiplies in \<open>f64\<close> and truncates to \<open>u128\<close>, so the
  model carries IEEE double arithmetic for the non-negative values that occur: a finite double is
  \<open>m * 2 ^ e\<close>, every operation is exact on rationals and then rounded to the nearest double, ties to
  even.
\<close>

section \<open>Doubles\<close>

datatype f64 = F_fin nat int | F_inf

fun bit_length :: "nat \<Rightarrow> nat" where
  "bit_length n = (if n = 0 then 0 else Suc (bit_length (n div 2)))"

declare bit_length.simps [simp del]

text \<open>\<open>p / q\<close> to the nearest natural number, ties to even.\<close>

definition round_half_even :: "nat \<Rightarrow> nat \<Rightarrow> nat" where
  "round_half_even p q =
     (let d = p div q; r = p mod q in
      if 2 * r < q then d else if 2 * r > q then d + 1 else if even d then d else d + 1)"

text \<open>Rounding \<open>p / (q * 2 ^ e)\<close> for a possibly negative exponent.\<close>

definition scaled_round :: "nat \<Rightarrow> nat \<Rightarrow> int \<Rightarrow> nat" where
  "scaled_round p q e = (if 0 \<le> e then round_half_even p (q * 2 ^ nat e)
     else round_half_even (p * 2 ^ nat (- e)) q)"

text \<open>
  The exponent of the double nearest \<open>p / q\<close>: the one that leaves 53 significant bits, but never
  below that of the subnormals.
\<close>

definition f64_exponent :: "nat \<Rightarrow> nat \<Rightarrow> int" where
  "f64_exponent p q =
     (let e0 = int (bit_length p) - int (bit_length q) - 53;
          big = (if 0 \<le> e0 then p \<ge> q * 2 ^ nat e0 * 2 ^ 53 else p * 2 ^ nat (- e0) \<ge> q * 2 ^ 53)
      in max (-1074) (if big then e0 + 1 else e0))"

definition f64_of :: "nat \<Rightarrow> nat \<Rightarrow> f64" where
  "f64_of p q =
     (let e = f64_exponent p q; m = scaled_round p q e in
      if int (bit_length m) + e > 1024 then F_inf else F_fin m e)"

definition f64_mult :: "f64 \<Rightarrow> nat \<Rightarrow> f64" where
  "f64_mult x k = (case x of F_inf \<Rightarrow> F_inf
     | F_fin m e \<Rightarrow> if 0 \<le> e then f64_of (m * 2 ^ nat e * k) 1 else f64_of (m * k) (2 ^ nat (- e)))"

text \<open>\<open>as u128\<close>: truncation, saturating.\<close>

definition f64_to_u128 :: "f64 \<Rightarrow> u128" where
  "f64_to_u128 x = (case x of F_inf \<Rightarrow> - 1
     | F_fin m e \<Rightarrow>
         (let t = (if 0 \<le> e then m * 2 ^ nat e else m div 2 ^ nat (- e))
          in if t \<ge> 2 ^ 128 then - 1 else word_of_nat t))"

text \<open>
  \<open>str::parse::<f64>\<close> on text made of digits, dots and signs: a sign, digits with at most one dot
  and at least one digit. The result is the sign, the digits and how many of them follow the dot.
\<close>

definition parse_decimal :: "string \<Rightarrow> (bool \<times> nat \<times> nat) option" where
  "parse_decimal s =
     (let neg = (take 1 s = ''-'');
          body = (if take 1 s = ''-'' \<or> take 1 s = ''+'' then drop 1 s else s);
          ip = takeWhile is_digit body; rest = dropWhile is_digit body;
          (fp, end1) = (case rest of c # cs \<Rightarrow>
             if c = CHR ''.'' then (takeWhile is_digit cs, dropWhile is_digit cs) else ([], rest)
             | [] \<Rightarrow> ([], []))
      in if end1 = [] \<and> ip @ fp \<noteq> [] then Some (neg, digits_value (ip @ fp), length fp) else None)"

definition f64_is_zero :: "f64 \<Rightarrow> bool" where
  "f64_is_zero x = (case x of F_fin m e \<Rightarrow> m = 0 | F_inf \<Rightarrow> False)"

section \<open>Quantities\<close>

definition suffix_mult :: "string \<Rightarrow> nat option" where
  "suffix_mult s =
     (if s = ''Ki'' then Some (2 ^ 10) else if s = ''Mi'' then Some (2 ^ 20)
      else if s = ''Gi'' then Some (2 ^ 30) else if s = ''Ti'' then Some (2 ^ 40)
      else if s = ''Pi'' then Some (2 ^ 50) else if s = ''Ei'' then Some (2 ^ 60)
      else if s = ''k'' then Some 1000 else if s = ''M'' then Some 1000000
      else if s = ''G'' then Some 1000000000 else if s = ''T'' then Some 1000000000000
      else if s = ''P'' then Some 1000000000000000 else if s = ''E'' then Some 1000000000000000000
      else None)"

definition number_char :: "char \<Rightarrow> bool" where
  "number_char c \<longleftrightarrow> is_digit c \<or> c = CHR ''.'' \<or> c = CHR ''-'' \<or> c = CHR ''+''"

definition parse_quantity :: "string \<Rightarrow> u128 option" where
  "parse_quantity q0 =
     (let q = trim q0; num = takeWhile number_char q; suffix = dropWhile number_char q in
      if suffix = [] \<or> num = [] then None
      else case suffix_mult suffix of
        None \<Rightarrow> None
      | Some unit_bytes \<Rightarrow>
          (case parse_decimal num of
             None \<Rightarrow> None
           | Some (neg, digits, scale) \<Rightarrow>
               (let val = f64_of digits (10 ^ scale) in
                if neg \<and> \<not> f64_is_zero val then None
                else Some (f64_to_u128 (f64_mult val unit_bytes)))))"

definition parse_quantity_or_bytes :: "string \<Rightarrow> u128 option" where
  "parse_quantity_or_bytes q =
     (case parse_unsigned 128 (trim q) of
        Some n \<Rightarrow> Some (word_of_nat n)
      | None \<Rightarrow> parse_quantity q)"

end
