(* ===== verification/Kube_Calls.thy ===== *)
theory Kube_Calls
  imports Effects Lock_Params Node_Pod Quantity
begin

text \<open>
  The operations of \<open>Ctx\<close> and the API helpers every handler uses (\<open>src/src/controller/mod.rs\<close>, and
  \<open>set_finalizers\<close>, \<open>create_if_absent\<close>, \<open>strip_zfs_finalizer_if_node_gone\<close> of the phase modules).
  Third-party code enters as a record \<open>libs\<close>: humantime's printing and reading of timestamps,
  serde_json's printing and reading of a PV, the text of a kube error, and the order in which a
  \<open>HashMap\<close> with given keys is iterated.
\<close>

section \<open>Configuration and libraries\<close>

record config =
  cfg_openebs_ns :: string
  cfg_pod_ip :: string
  cfg_pod_namespace :: string
  cfg_stall_seconds :: u64
  cfg_taint_key :: string

record libs =
  format_rfc3339_seconds :: "nat \<Rightarrow> string"
  parse_rfc3339 :: "string \<Rightarrow> nat option"
  pv_to_json :: "persistent_volume \<Rightarrow> error + string"
  pv_from_json :: "string \<Rightarrow> error + persistent_volume"
  show_kube_error :: "kube_error \<Rightarrow> string"
  hash_order :: "string list \<Rightarrow> string list"

record ctx =
  c_cfg :: config
  c_libs :: libs

abbreviation openebs_ns :: "ctx \<Rightarrow> string" where
  "openebs_ns ctx \<equiv> cfg_openebs_ns (c_cfg ctx)"

abbreviation taint_key :: "ctx \<Rightarrow> string" where
  "taint_key ctx \<equiv> cfg_taint_key (c_cfg ctx)"

definition DEFAULT_SETTLE_SECONDS :: u64 where "DEFAULT_SETTLE_SECONDS = 90"
definition DEFAULT_TRANSFER_TIMEOUT :: u64 where "DEFAULT_TRANSFER_TIMEOUT = 3600"
definition DEFAULT_MAX_ATTEMPTS :: u32 where "DEFAULT_MAX_ATTEMPTS = 3"
definition DEFAULT_HEADROOM_PERCENT :: u32 where "DEFAULT_HEADROOM_PERCENT = 10"
definition LOCK_PROPAGATION_SECONDS :: u64 where "LOCK_PROPAGATION_SECONDS = 5"

text \<open>\<open>{e:#}\<close>: the context lines, then the root cause.\<close>

fun show_error :: "ctx \<Rightarrow> error \<Rightarrow> string" where
  "show_error ctx (E_msg s) = s"
| "show_error ctx (E_kube e) = show_kube_error (c_libs ctx) e"
| "show_error ctx (E_ctx s e) = s @ '': '' @ show_error ctx e"

section \<open>Reading answers\<close>

text \<open>An answer of another shape than the call expects is a decoding error of the client.\<close>

definition decode_error :: error where
  "decode_error = E_kube (Kube_other ''error decoding response'')"

definition as_opt :: "(obj \<Rightarrow> 'a option) \<Rightarrow> resp \<Rightarrow> error + 'a option" where
  "as_opt f r = (case r of
     R_err e \<Rightarrow> Inl (E_kube e)
   | R_none \<Rightarrow> Inr None
   | R_obj x \<Rightarrow> (case f x of None \<Rightarrow> Inl decode_error | Some y \<Rightarrow> Inr (Some y))
   | _ \<Rightarrow> Inl decode_error)"

definition as_list :: "(obj \<Rightarrow> 'a option) \<Rightarrow> resp \<Rightarrow> error + 'a list" where
  "as_list f r = (case r of
     R_err e \<Rightarrow> Inl (E_kube e)
   | R_objs xs \<Rightarrow> (case those (map f xs) of None \<Rightarrow> Inl decode_error | Some ys \<Rightarrow> Inr ys)
   | _ \<Rightarrow> Inl decode_error)"

definition as_unit :: "resp \<Rightarrow> error + unit" where
  "as_unit r = (case r of R_err e \<Rightarrow> Inl (E_kube e) | _ \<Rightarrow> Inr ())"

definition un_pv :: "obj \<Rightarrow> persistent_volume option" where
  "un_pv x = (case x of O_pv y \<Rightarrow> Some y | _ \<Rightarrow> None)"
definition un_node :: "obj \<Rightarrow> node option" where
  "un_node x = (case x of O_node y \<Rightarrow> Some y | _ \<Rightarrow> None)"
definition un_pvc :: "obj \<Rightarrow> persistent_volume_claim option" where
  "un_pvc x = (case x of O_pvc y \<Rightarrow> Some y | _ \<Rightarrow> None)"
definition un_pod :: "obj \<Rightarrow> pod option" where
  "un_pod x = (case x of O_pod y \<Rightarrow> Some y | _ \<Rightarrow> None)"
definition un_sc :: "obj \<Rightarrow> storage_class option" where
  "un_sc x = (case x of O_sc y \<Rightarrow> Some y | _ \<Rightarrow> None)"
definition un_zv :: "obj \<Rightarrow> zfs_volume option" where
  "un_zv x = (case x of O_zv y \<Rightarrow> Some y | _ \<Rightarrow> None)"
definition un_snap :: "obj \<Rightarrow> zfs_snapshot option" where
  "un_snap x = (case x of O_snap y \<Rightarrow> Some y | _ \<Rightarrow> None)"
definition un_bkp :: "obj \<Rightarrow> zfs_backup option" where
  "un_bkp x = (case x of O_bkp y \<Rightarrow> Some y | _ \<Rightarrow> None)"
definition un_rst :: "obj \<Rightarrow> zfs_restore option" where
  "un_rst x = (case x of O_rst y \<Rightarrow> Some y | _ \<Rightarrow> None)"
definition un_znode :: "obj \<Rightarrow> zfs_node option" where
  "un_znode x = (case x of O_znode y \<Rightarrow> Some y | _ \<Rightarrow> None)"
definition un_evac :: "obj \<Rightarrow> zfs_evacuation option" where
  "un_evac x = (case x of O_evac y \<Rightarrow> Some y | _ \<Rightarrow> None)"
definition un_params :: "obj \<Rightarrow> evacuation_params option" where
  "un_params x = (case x of O_params y \<Rightarrow> Some y | _ \<Rightarrow> None)"
definition un_lease :: "obj \<Rightarrow> lease option" where
  "un_lease x = (case x of O_lease y \<Rightarrow> Some y | _ \<Rightarrow> None)"

lemmas un_defs = un_pv_def un_node_def un_pvc_def un_pod_def un_sc_def un_zv_def un_snap_def
  un_bkp_def un_rst_def un_znode_def un_evac_def un_params_def un_lease_def

fun obj_meta :: "obj \<Rightarrow> objmeta" where
  "obj_meta (O_pv x) = pv_meta x"
| "obj_meta (O_node x) = node_meta x"
| "obj_meta (O_pvc x) = pvc_meta x"
| "obj_meta (O_pod x) = pod_meta x"
| "obj_meta (O_sc x) = sc_meta x"
| "obj_meta (O_zv x) = zv_meta x"
| "obj_meta (O_snap x) = sn_meta x"
| "obj_meta (O_bkp x) = bk_meta x"
| "obj_meta (O_rst x) = rs_meta x"
| "obj_meta (O_znode x) = zn_meta x"
| "obj_meta (O_evac x) = ev_meta x"
| "obj_meta (O_params x) = ep_meta x"
| "obj_meta (O_lease x) = le_meta x"

fun obj_kind :: "obj \<Rightarrow> kind" where
  "obj_kind (O_pv x) = K_PV"
| "obj_kind (O_node x) = K_Node"
| "obj_kind (O_pvc x) = K_PVC"
| "obj_kind (O_pod x) = K_Pod"
| "obj_kind (O_sc x) = K_StorageClass"
| "obj_kind (O_zv x) = K_ZFSVolume"
| "obj_kind (O_snap x) = K_ZFSSnapshot"
| "obj_kind (O_bkp x) = K_ZFSBackup"
| "obj_kind (O_rst x) = K_ZFSRestore"
| "obj_kind (O_znode x) = K_ZFSNode"
| "obj_kind (O_evac x) = K_Evacuation"
| "obj_kind (O_params x) = K_Params"
| "obj_kind (O_lease x) = K_Lease"

section \<open>Typed calls\<close>

text \<open>\<open>Api::all\<close> is the empty namespace; zfs-localpv objects live in \<open>OPENEBS_NAMESPACE\<close>.\<close>

definition get_pv :: "string \<Rightarrow> persistent_volume option prog" where
  "get_pv n = ask (Get K_PV [] n) (as_opt un_pv)"
definition list_pvs :: "persistent_volume list prog" where
  "list_pvs = ask (List_all K_PV [] None) (as_list un_pv)"
definition get_node :: "string \<Rightarrow> node option prog" where
  "get_node n = ask (Get K_Node [] n) (as_opt un_node)"
definition list_nodes :: "node list prog" where
  "list_nodes = ask (List_all K_Node [] None) (as_list un_node)"
definition get_pvc :: "string \<Rightarrow> string \<Rightarrow> persistent_volume_claim option prog" where
  "get_pvc ns n = ask (Get K_PVC ns n) (as_opt un_pvc)"
definition list_pods :: "string \<Rightarrow> pod list prog" where
  "list_pods ns = ask (List_all K_Pod ns None) (as_list un_pod)"
definition get_sc :: "string \<Rightarrow> storage_class option prog" where
  "get_sc n = ask (Get K_StorageClass [] n) (as_opt un_sc)"
definition get_zv :: "ctx \<Rightarrow> string \<Rightarrow> zfs_volume option prog" where
  "get_zv ctx n = ask (Get K_ZFSVolume (openebs_ns ctx) n) (as_opt un_zv)"
definition list_zvs :: "ctx \<Rightarrow> zfs_volume list prog" where
  "list_zvs ctx = ask (List_all K_ZFSVolume (openebs_ns ctx) None) (as_list un_zv)"
definition get_snap :: "ctx \<Rightarrow> string \<Rightarrow> zfs_snapshot option prog" where
  "get_snap ctx n = ask (Get K_ZFSSnapshot (openebs_ns ctx) n) (as_opt un_snap)"
definition list_snaps :: "ctx \<Rightarrow> string \<times> string \<Rightarrow> zfs_snapshot list prog" where
  "list_snaps ctx sel = ask (List_all K_ZFSSnapshot (openebs_ns ctx) (Some sel)) (as_list un_snap)"
definition get_bkp :: "ctx \<Rightarrow> string \<Rightarrow> zfs_backup option prog" where
  "get_bkp ctx n = ask (Get K_ZFSBackup (openebs_ns ctx) n) (as_opt un_bkp)"
definition get_rst :: "ctx \<Rightarrow> string \<Rightarrow> zfs_restore option prog" where
  "get_rst ctx n = ask (Get K_ZFSRestore (openebs_ns ctx) n) (as_opt un_rst)"
definition list_znodes :: "ctx \<Rightarrow> zfs_node list prog" where
  "list_znodes ctx = ask (List_all K_ZFSNode (openebs_ns ctx) None) (as_list un_znode)"
definition get_evac :: "string \<Rightarrow> zfs_evacuation option prog" where
  "get_evac n = ask (Get K_Evacuation [] n) (as_opt un_evac)"
definition list_evacs :: "zfs_evacuation list prog" where
  "list_evacs = ask (List_all K_Evacuation [] None) (as_list un_evac)"
definition get_params :: "evacuation_params option prog" where
  "get_params = ask (Get K_Params [] PARAMS_NAME) (as_opt un_params)"
definition delete_obj :: "kind \<Rightarrow> string \<Rightarrow> string \<Rightarrow> unit prog" where
  "delete_obj k ns n = ask (Delete k ns n) as_unit"
definition patch_obj :: "kind \<Rightarrow> string \<Rightarrow> string \<Rightarrow> patch \<Rightarrow> unit prog" where
  "patch_obj k ns n p = ask (Patch_merge k ns n p) as_unit"

lemmas call_defs = get_pv_def list_pvs_def get_node_def list_nodes_def get_pvc_def list_pods_def
  get_sc_def get_zv_def list_zvs_def get_snap_def list_snaps_def get_bkp_def get_rst_def
  list_znodes_def get_evac_def list_evacs_def get_params_def delete_obj_def patch_obj_def

section \<open>The clock\<close>

text \<open>Reading the clock cannot fail; a malformed answer reads as the epoch.\<close>

definition of_time :: "resp \<Rightarrow> nat" where
  "of_time r = (case r of R_time t \<Rightarrow> t | _ \<Rightarrow> 0)"

definition now :: "nat prog" where
  "now = ask Now (\<lambda>r. Inr (of_time r))"

definition as_secs :: "nat \<Rightarrow> u64" where
  "as_secs nanos = word_of_nat (nanos div 10 ^ 9)"

definition now_rfc3339 :: "ctx \<Rightarrow> string prog" where
  "now_rfc3339 ctx = bnd now (\<lambda>t. ret (format_rfc3339_seconds (c_libs ctx) t))"

definition secs_since :: "ctx \<Rightarrow> string \<Rightarrow> u64 option prog" where
  "secs_since ctx s = (case parse_rfc3339 (c_libs ctx) s of
     None \<Rightarrow> ret None
   | Some t \<Rightarrow> bnd now (\<lambda>n. ret (if t \<le> n then Some (as_secs (n - t)) else None)))"

definition opt_secs_since :: "ctx \<Rightarrow> string option \<Rightarrow> u64 option prog" where
  "opt_secs_since ctx o1 = (case o1 of None \<Rightarrow> ret None | Some s \<Rightarrow> secs_since ctx s)"

section \<open>Ctx\<close>

definition write_status :: "string \<Rightarrow> evac_status \<Rightarrow> unit prog" where
  "write_status name st =
     with_context (''writing status of ZFSEvacuation '' @ name) (ask (Patch_status name st) as_unit)"

definition params_object :: "evacuation_params_spec \<Rightarrow> evacuation_params" where
  "params_object spec = \<lparr>ep_meta = named_meta PARAMS_NAME, ep_spec = spec\<rparr>"

text \<open>Whether a failed write is an optimistic-concurrency conflict.\<close>

definition is_conflict :: "kube_error \<Rightarrow> bool" where
  "is_conflict e = (case e of Api_error code _ \<Rightarrow> code = 409 | Kube_other _ \<Rightarrow> False)"

fun update_params_n :: "nat \<Rightarrow> (evacuation_params_spec \<Rightarrow> bool \<times> evacuation_params_spec) \<Rightarrow> unit prog" where
  "update_params_n 0 mutate = throw (E_msg (''persistent conflict updating '' @ PARAMS_NAME))"
| "update_params_n (Suc n) mutate = bnd get_params (\<lambda>o1.
     (case o1 of
        None \<Rightarrow>
          (case mutate default_params of (changed, spec) \<Rightarrow>
             if \<not> changed then ret ()
             else Call (Create K_Params [] (O_params (params_object spec))) (\<lambda>a.
               case a of R_err e \<Rightarrow> if is_conflict e then update_params_n n mutate else throw (E_kube e)
               | _ \<Rightarrow> ret ()))
      | Some params \<Rightarrow>
          (case mutate (ep_spec params) of (changed, spec) \<Rightarrow>
             if \<not> changed then ret ()
             else Call (Replace K_Params [] (name_any (ep_meta params)) (O_params (params\<lparr>ep_spec := spec\<rparr>))) (\<lambda>a.
               case a of R_err e \<Rightarrow> if is_conflict e then update_params_n n mutate else throw (E_kube e)
               | _ \<Rightarrow> ret ()))))"

definition update_params :: "(evacuation_params_spec \<Rightarrow> bool \<times> evacuation_params_spec) \<Rightarrow> unit prog" where
  "update_params mutate = update_params_n 8 mutate"

section \<open>Helpers over the API\<close>

definition node_by_id :: "string \<Rightarrow> node option prog" where
  "node_by_id node_id = bnd (get_node node_id) (\<lambda>o1.
     (case o1 of
        Some n \<Rightarrow> if node_id_of n = node_id then ret (Some n)
                  else bnd list_nodes (\<lambda>all. ret (find (\<lambda>n. node_id_of n = node_id) all))
      | None \<Rightarrow> bnd list_nodes (\<lambda>all. ret (find (\<lambda>n. node_id_of n = node_id) all))))"

definition pods_referencing_pvc :: "string \<Rightarrow> string \<Rightarrow> pod list prog" where
  "pods_referencing_pvc ns pvc = bnd (list_pods ns) (\<lambda>ps. ret (filter (\<lambda>p. pod_references_pvc p pvc) ps))"

definition get_meta :: "kind \<Rightarrow> string \<Rightarrow> string \<Rightarrow> objmeta option prog" where
  "get_meta k ns n = ask (Get k ns n) (as_opt (\<lambda>x. if obj_kind x = k then Some (obj_meta x) else None))"

definition set_finalizers :: "kind \<Rightarrow> string \<Rightarrow> string \<Rightarrow> (string list \<Rightarrow> string list) \<Rightarrow> unit prog" where
  "set_finalizers k ns n f = bnd (get_meta k ns n) (\<lambda>o1.
     (case o1 of
        None \<Rightarrow> ret ()
      | Some m \<Rightarrow>
          (let cur = meta_finalizers m; new = f cur in
           if new \<noteq> cur then patch_obj k ns n (P_finalizers new) else ret ())))"

definition create_if_absent :: "kind \<Rightarrow> string \<Rightarrow> obj \<Rightarrow> unit prog" where
  "create_if_absent k ns x = Call (Create k ns x) (\<lambda>a.
     case a of R_err e \<Rightarrow> if is_conflict e then ret () else throw (E_kube e) | _ \<Rightarrow> ret ())"

definition remove_from :: "string list \<Rightarrow> string list \<Rightarrow> string list" where
  "remove_from own cur = filter (\<lambda>f. f \<notin> set own) cur"

definition add_finalizer :: "string \<Rightarrow> string list \<Rightarrow> string list" where
  "add_finalizer f cur = (if f \<in> set cur then cur else cur @ [f])"

definition strip_zfs_finalizer_if_node_gone :: "kind \<Rightarrow> string \<Rightarrow> string \<Rightarrow> string \<Rightarrow> unit prog" where
  "strip_zfs_finalizer_if_node_gone k ns n node_id = bnd (node_by_id node_id) (\<lambda>o1.
     if o1 \<noteq> None then ret () else set_finalizers k ns n (remove_from [ZFS_FINALIZER]))"

section \<open>The calls of the helpers\<close>

text \<open>
  One rule per helper: the requests it may send. A handler's proof sees a helper only through
  its rule.
\<close>

lemma calls_reads [call_intros]:
  "P (Get K_PV [] n) \<Longrightarrow> (\<And>r. R1 r) \<Longrightarrow> calls P (get_pv n) R1"
  "P (List_all K_PV [] None) \<Longrightarrow> (\<And>r. R2 r) \<Longrightarrow> calls P list_pvs R2"
  "P (Get K_Node [] n) \<Longrightarrow> (\<And>r. R3 r) \<Longrightarrow> calls P (get_node n) R3"
  "P (List_all K_Node [] None) \<Longrightarrow> (\<And>r. R4 r) \<Longrightarrow> calls P list_nodes R4"
  "P (Get K_PVC ns n) \<Longrightarrow> (\<And>r. R5 r) \<Longrightarrow> calls P (get_pvc ns n) R5"
  "P (List_all K_Pod ns None) \<Longrightarrow> (\<And>r. R6 r) \<Longrightarrow> calls P (list_pods ns) R6"
  "P (Get K_StorageClass [] n) \<Longrightarrow> (\<And>r. R7 r) \<Longrightarrow> calls P (get_sc n) R7"
  "P (Get K_ZFSVolume (openebs_ns ctx) n) \<Longrightarrow> (\<And>r. R8 r) \<Longrightarrow> calls P (get_zv ctx n) R8"
  "P (List_all K_ZFSVolume (openebs_ns ctx) None) \<Longrightarrow> (\<And>r. R9 r) \<Longrightarrow> calls P (list_zvs ctx) R9"
  "P (Get K_ZFSSnapshot (openebs_ns ctx) n) \<Longrightarrow> (\<And>r. R10 r) \<Longrightarrow> calls P (get_snap ctx n) R10"
  "P (List_all K_ZFSSnapshot (openebs_ns ctx) (Some sel)) \<Longrightarrow> (\<And>r. R11 r) \<Longrightarrow> calls P (list_snaps ctx sel) R11"
  "P (Get K_ZFSBackup (openebs_ns ctx) n) \<Longrightarrow> (\<And>r. R12 r) \<Longrightarrow> calls P (get_bkp ctx n) R12"
  "P (Get K_ZFSRestore (openebs_ns ctx) n) \<Longrightarrow> (\<And>r. R13 r) \<Longrightarrow> calls P (get_rst ctx n) R13"
  "P (List_all K_ZFSNode (openebs_ns ctx) None) \<Longrightarrow> (\<And>r. R14 r) \<Longrightarrow> calls P (list_znodes ctx) R14"
  "P (Get K_Evacuation [] n) \<Longrightarrow> (\<And>r. R15 r) \<Longrightarrow> calls P (get_evac n) R15"
  "P (List_all K_Evacuation [] None) \<Longrightarrow> (\<And>r. R16 r) \<Longrightarrow> calls P list_evacs R16"
  "P (Get K_Params [] PARAMS_NAME) \<Longrightarrow> (\<And>r. R17 r) \<Longrightarrow> calls P get_params R17"
  by (simp_all add: call_defs ask_def)

lemma calls_writes [call_intros]:
  "P (Delete k ns n) \<Longrightarrow> (\<And>r. R1 r) \<Longrightarrow> calls P (delete_obj k ns n) R1"
  "P (Patch_merge k ns n p) \<Longrightarrow> (\<And>r. R2 r) \<Longrightarrow> calls P (patch_obj k ns n p) R2"
  "P (Patch_status n st) \<Longrightarrow> (\<And>r. R3 r) \<Longrightarrow> calls P (write_status n st) R3"
  "P (Create k ns x) \<Longrightarrow> (\<And>r. R4 r) \<Longrightarrow> calls P (create_if_absent k ns x) R4"
  by (auto simp: delete_obj_def patch_obj_def write_status_def create_if_absent_def ask_def
      intro!: call_intros split: resp.split)

lemma calls_clock [call_intros]:
  "P Now \<Longrightarrow> (\<And>r. R1 r) \<Longrightarrow> calls P now R1"
  "P Now \<Longrightarrow> (\<And>r. R2 r) \<Longrightarrow> calls P (now_rfc3339 ctx) R2"
  "P Now \<Longrightarrow> (\<And>r. R3 r) \<Longrightarrow> calls P (opt_secs_since ctx s) R3"
  by (auto simp: now_def now_rfc3339_def opt_secs_since_def secs_since_def intro!: call_intros)

text \<open>\<open>update_params\<close> touches nothing but the parameter object.\<close>

definition params_req :: "req \<Rightarrow> bool" where
  "params_req q = (case q of Get k ns n \<Rightarrow> k = K_Params | Create k ns x \<Rightarrow> k = K_Params
     | Replace k ns n x \<Rightarrow> k = K_Params | _ \<Rightarrow> False)"

lemma params_req_simps [simp]:
  "params_req (Get k ns n) \<longleftrightarrow> k = K_Params" "params_req (Create k ns x) \<longleftrightarrow> k = K_Params"
  "params_req (Replace k ns n x) \<longleftrightarrow> k = K_Params"
  by (simp_all add: params_req_def)

lemma calls_update_params_n: "calls params_req (update_params_n n f) (\<lambda>_. True)"
proof (induction n)
  case (Suc n)
  show ?case
    by (auto intro!: call_intros Suc.IH split: resp.split)
qed simp

lemma calls_update_params [call_intros]:
  assumes "\<And>q. params_req q \<Longrightarrow> P q" and "\<And>r. R r"
  shows "calls P (update_params f) R"
  unfolding update_params_def using calls_update_params_n by (rule calls_mono) (use assms in auto)

text \<open>Finding a node by its identity reads nodes; what it finds has that identity.\<close>

lemma calls_node_by_id_result:
  assumes "P (Get K_Node [] nid)" and "P (List_all K_Node [] None)"
  shows "calls P (node_by_id nid) (\<lambda>r. case r of Inr (Some n) \<Rightarrow> node_id_of n = nid | _ \<Rightarrow> True)"
  using assms
  by (auto simp: node_by_id_def find_Some_iff intro!: call_intros split: option.split)

lemma calls_node_by_id [call_intros]:
  assumes "P (Get K_Node [] nid)" and "P (List_all K_Node [] None)" and "\<And>r. R r"
  shows "calls P (node_by_id nid) R"
  using calls_node_by_id_result [OF assms(1,2)] by (rule calls_mono) (use assms(3) in auto)

lemma calls_pods_referencing [call_intros]:
  "P (List_all K_Pod ns None) \<Longrightarrow> (\<And>r. R r) \<Longrightarrow> calls P (pods_referencing_pvc ns pvc) R"
  by (auto simp: pods_referencing_pvc_def intro!: call_intros)

lemma calls_get_meta [call_intros]:
  "P (Get k ns n) \<Longrightarrow> (\<And>r. R r) \<Longrightarrow> calls P (get_meta k ns n) R"
  by (auto simp: get_meta_def intro!: call_intros)

section \<open>Finalizer edits\<close>

text \<open>
  The contract of an edit of a finalizer list: doing it again changes nothing, and the
  finalizers of others stay, in their order. Every edit of the controller satisfies it, and
  \<open>set_finalizers\<close> with such an edit patches only when there is something to change.
\<close>

locale finalizer_edit =
  fixes edit :: "string list \<Rightarrow> string list" and own :: "string list"
  assumes idem: "edit (edit xs) = edit xs"
    and foreign: "filter (\<lambda>f. f \<notin> set own) (edit xs) = filter (\<lambda>f. f \<notin> set own) xs"
begin

lemma foreign_kept: "f \<notin> set own \<Longrightarrow> f \<in> set (edit xs) \<longleftrightarrow> f \<in> set xs"
  using foreign [of xs] by (metis (mono_tags, lifting) mem_Collect_eq set_filter)

text \<open>A patch is sent for a list just read, and only when the edit changes it.\<close>

lemma set_finalizers_calls:
  assumes "P (Get k ns n)" and "\<And>cur. edit cur \<noteq> cur \<Longrightarrow> P (Patch_merge k ns n (P_finalizers (edit cur)))"
    and "\<And>r. R r"
  shows "calls P (set_finalizers k ns n edit) R"
  using assms by (auto simp: set_finalizers_def Let_def intro!: call_intros)

lemma set_finalizers_vc:
  "vc (\<lambda>h q. \<forall>new. q = Patch_merge k ns n (P_finalizers new) \<longrightarrow>
          (\<exists>x. (Get k ns n, R_obj x) \<in> set h \<and> new = edit (meta_finalizers (obj_meta x))
             \<and> new \<noteq> meta_finalizers (obj_meta x)))
      (set_finalizers k ns n edit) (\<lambda>_ _. True) h0"
  by (auto simp: set_finalizers_def get_meta_def vc_simps as_opt_def Let_def patch_obj_def on_ok_def
      split: resp.split option.split sum.split)

end

lemma filter_add_finalizer: "filter (\<lambda>f. f \<notin> set [x]) (add_finalizer x xs) = filter (\<lambda>f. f \<notin> set [x]) xs"
  by (simp add: add_finalizer_def)

lemma filter_remove_from: "filter (\<lambda>f. f \<notin> set own) (remove_from own xs) = filter (\<lambda>f. f \<notin> set own) xs"
  by (simp add: remove_from_def)

interpretation add_guard: finalizer_edit "add_finalizer GUARD_FINALIZER" "[GUARD_FINALIZER]"
  by unfold_locales (use filter_add_finalizer in \<open>auto simp: add_finalizer_def\<close>)

interpretation drop_own: finalizer_edit "remove_from own" own for own
  by unfold_locales (use filter_remove_from in \<open>auto simp: remove_from_def\<close>)

lemma calls_set_finalizers [call_intros]:
  assumes "P (Get k ns n)" and "\<And>cur. P (Patch_merge k ns n (P_finalizers (f cur)))" and "\<And>r. R r"
  shows "calls P (set_finalizers k ns n f) R"
  using assms by (auto simp: set_finalizers_def Let_def intro!: call_intros)

lemma calls_strip_zfs_finalizer [call_intros]:
  assumes "P (Get K_Node [] nid)" and "P (List_all K_Node [] None)" and "P (Get k ns n)"
    and "\<And>cur. P (Patch_merge k ns n (P_finalizers (remove_from [ZFS_FINALIZER] cur)))" and "\<And>r. R r"
  shows "calls P (strip_zfs_finalizer_if_node_gone k ns n nid) R"
  using assms by (auto simp: strip_zfs_finalizer_if_node_gone_def intro!: call_intros)

text \<open>The finalizer of a zfs-localpv object is stripped only when its node is nowhere to be found.\<close>

definition no_node_with_id :: "string \<Rightarrow> trace \<Rightarrow> bool" where
  "no_node_with_id nid h \<longleftrightarrow> (\<exists>objs all. (List_all K_Node [] None, R_objs objs) \<in> set h
     \<and> those (map un_node objs) = Some all \<and> (\<forall>n \<in> set all. node_id_of n \<noteq> nid))"

definition is_patch :: "req \<Rightarrow> bool" where
  "is_patch q = (case q of Patch_merge _ _ _ _ \<Rightarrow> True | _ \<Rightarrow> False)"

lemma is_patch_simps [simp]: "is_patch (Patch_merge k ns n p)" "\<not> is_patch (Get k ns n)"
  "\<not> is_patch (List_all k ns sel)"
  by (simp_all add: is_patch_def)

lemma list_nodes_none:
  "vc (\<lambda>h q. is_patch q \<longrightarrow> no_node_with_id nid h)
      (bnd list_nodes (\<lambda>all. ret (find (\<lambda>n. node_id_of n = nid) all)))
      (\<lambda>r h. r = Inr None \<longrightarrow> no_node_with_id nid h) h"
  by (auto simp: vc_simps call_defs as_list_def on_ok_def find_None_iff no_node_with_id_def
      split: resp.split sum.split option.split)

lemma node_by_id_none:
  "vc (\<lambda>h q. is_patch q \<longrightarrow> no_node_with_id nid h) (node_by_id nid)
      (\<lambda>r h. r = Inr None \<longrightarrow> no_node_with_id nid h) h"
  unfolding node_by_id_def
  by (rule vc_bnd_using [where S = "\<lambda>_ _. True"])
    (simp_all add: get_node_def vc_ask list_nodes_none split: option.split)

lemma strip_zfs_finalizer_node_gone:
  "vc (\<lambda>h q. is_patch q \<longrightarrow> no_node_with_id nid h)
      (strip_zfs_finalizer_if_node_gone k ns n nid) (\<lambda>_ _. True) h"
proof -
  have mono: "no_node_with_id nid h' \<Longrightarrow> no_node_with_id nid (h' @ t)" for h' t
    by (auto simp: no_node_with_id_def)
  have "vc (\<lambda>h q. is_patch q \<longrightarrow> no_node_with_id nid h) (set_finalizers k ns n f) (\<lambda>_ _. True) h'"
    if "no_node_with_id nid h'" for f h'
    by (rule vc_frame [where P = "\<lambda>_. True" and R = "\<lambda>_. True"])
      (use that mono in \<open>auto intro!: call_intros\<close>)
  then show ?thesis
    unfolding strip_zfs_finalizer_if_node_gone_def
    by (intro vc_bnd_using [OF node_by_id_none]) simp_all
qed

end
