(* ===== verification/Phase_Common.thy ===== *)
theory Phase_Common
  imports Kube_Calls
begin

text \<open>
  What every phase handler returns and how it leaves: the \<open>Action\<close> of the runtime, and
  \<open>advance\<close>, \<open>fail\<close>, \<open>wait\<close> of \<open>src/src/controller/state_machine.rs\<close>. A handler takes the status
  it works on as an argument; the copy a status write sends is the handler's copy at that point.
\<close>

datatype duration = Secs u64 | Millis u64
datatype action = Await_change | Requeue duration

definition requeue_secs :: "u64 \<Rightarrow> action prog" where
  "requeue_secs n = ret (Requeue (Secs n))"

definition advance :: "string \<Rightarrow> evac_status \<Rightarrow> phase \<Rightarrow> action prog" where
  "advance name st p =
     bnd (write_status name (st\<lparr>s_phase := p, s_message := None\<rparr>)) (\<lambda>_. ret (Requeue (Millis 500)))"

definition fail :: "string \<Rightarrow> evac_status \<Rightarrow> string \<Rightarrow> action prog" where
  "fail name st msg =
     bnd (write_status name (st\<lparr>s_phase := Failed, s_message := Some msg\<rparr>)) (\<lambda>_. ret Await_change)"

definition wait :: "string \<Rightarrow> evac_status \<Rightarrow> string \<Rightarrow> u64 \<Rightarrow> action prog" where
  "wait name st msg secs =
     bnd (if s_message st \<noteq> Some msg then write_status name (st\<lparr>s_message := Some msg\<rparr>) else ret ())
       (\<lambda>_. requeue_secs secs)"

text \<open>Leaving for the abort path: several phases write this by hand.\<close>

definition go_abort :: "string \<Rightarrow> evac_status \<Rightarrow> string \<Rightarrow> action prog" where
  "go_abort name st msg =
     bnd (write_status name (st\<lparr>s_phase := Aborting, s_message := Some msg\<rparr>)) (\<lambda>_. requeue_secs 1)"

text \<open>\<open>.ok_or_else(|| anyhow!(msg))?\<close>\<close>

definition need :: "string \<Rightarrow> 'a option \<Rightarrow> 'a prog" where
  "need msg o1 = (case o1 of None \<Rightarrow> throw (E_msg msg) | Some x \<Rightarrow> ret x)"

definition pvc_key :: "pvc_ref \<Rightarrow> string" where
  "pvc_key r = pr_namespace r @ ''/'' @ pr_name r"

lemma calls_leave [call_intros]:
  "P (Patch_status n (st\<lparr>s_phase := p, s_message := None\<rparr>)) \<Longrightarrow> (\<And>r. R1 r) \<Longrightarrow> calls P (advance n st p) R1"
  "P (Patch_status n (st\<lparr>s_phase := Failed, s_message := Some m\<rparr>)) \<Longrightarrow> (\<And>r. R2 r) \<Longrightarrow> calls P (fail n st m) R2"
  "(s_message st \<noteq> Some m \<Longrightarrow> P (Patch_status n (st\<lparr>s_message := Some m\<rparr>))) \<Longrightarrow> (\<And>r. R3 r)
     \<Longrightarrow> calls P (wait n st m secs) R3"
  "P (Patch_status n (st\<lparr>s_phase := Aborting, s_message := Some m\<rparr>)) \<Longrightarrow> (\<And>r. R4 r)
     \<Longrightarrow> calls P (go_abort n st m) R4"
  "(\<And>r. R5 r) \<Longrightarrow> calls P (requeue_secs k) R5"
  by (auto simp: advance_def fail_def wait_def go_abort_def requeue_secs_def intro!: call_intros)

lemma calls_needI [call_intros]:
  "(\<And>x. o1 = Some x \<Longrightarrow> R (Inr x)) \<Longrightarrow> (\<And>e. R (Inl e)) \<Longrightarrow> calls P (need msg o1) R"
  by (cases o1) (simp_all add: need_def)

text \<open>The rule for the step that unwraps a recorded field: the handler goes on with its value.\<close>

lemma calls_bnd_need:
  "(\<And>e. R (Inl e)) \<Longrightarrow> (\<And>x. o1 = Some x \<Longrightarrow> calls P (f x) R) \<Longrightarrow> calls P (bnd (need msg o1) f) R"
  by (cases o1) (simp_all add: need_def)

lemma bnd_need: "bnd (need msg o1) f = (case o1 of None \<Rightarrow> throw (E_msg msg) | Some x \<Rightarrow> f x)"
  by (simp add: need_def split: option.split)

end
