(* ===== verification/Pv_Swap.thy ===== *)
theory Pv_Swap
  imports Phase_Common
begin

text \<open>
  Quiescence checks (\<open>source_repels_pods\<close>, \<open>blocking_reason\<close> of \<open>state_machine.rs\<close>) and the
  commit point with the PV swap (\<open>src/src/controller/pv_swap.rs\<close>): rendering the replacement PV,
  recording both manifests, deleting the old PV and creating the new one.
\<close>

section \<open>May the copy, or the swap, go ahead?\<close>

definition source_repels_pods :: "ctx \<Rightarrow> evac_status \<Rightarrow> bool prog" where
  "source_repels_pods ctx st =
     bnd (need ''no source recorded'' (s_source st)) (\<lambda>source.
     bnd (get_node (si_node source)) (\<lambda>o1.
       ret (case o1 of Some n \<Rightarrow> node_repels_pods n (taint_key ctx) | None \<Rightarrow> True)))"

definition uncordoned_message :: "pod list \<Rightarrow> string" where
  "uncordoned_message pods =
     (if pods = [] then
        ''the source node is still schedulable; cordon it (kubectl cordon) or taint it '' @
        ''with a NoSchedule effect so no consumer can land there mid-copy''
      else
        ''consumer '' @ join '', '' (pod_names pods) @
        '' is waiting for this volume, but the source node is still schedulable; '' @
        ''cordon it (kubectl cordon) so the pod cannot land there mid-copy'')"

definition blocking_reason :: "ctx \<Rightarrow> zfs_evacuation \<Rightarrow> evac_status \<Rightarrow> pod list \<Rightarrow> string option prog" where
  "blocking_reason ctx evac st pods =
     (if es_mode (ev_spec evac) = WhenIdle
      then ret (if pods = [] then None else Some (blocking_pods_message pods))
      else
        (let scheduled = filter pod_is_scheduled pods in
         if scheduled \<noteq> [] then ret (Some (blocking_pods_message scheduled))
         else bnd (source_repels_pods ctx st) (\<lambda>repels.
           ret (if repels then None else Some (uncordoned_message pods)))))"

section \<open>The replacement PV\<close>

definition PV_PROTECTION :: string where "PV_PROTECTION = ''kubernetes.io/pv-protection''"
definition PROVISIONER_FINALIZER :: string where
  "PROVISIONER_FINALIZER = ''external-provisioner.volume.kubernetes.io/finalizer''"

definition pinned_to :: "string \<Rightarrow> volume_node_affinity" where
  "pinned_to node_id = \<lparr>vna_required = Some [\<lparr>
     st_match_expressions = Some [\<lparr>r_key = NODE_ID_TOPOLOGY_KEY, r_operator = ''In'', r_values = Some [node_id]\<rparr>],
     st_match_fields = None\<rparr>]\<rparr>"

definition claim_for :: "pvc_ref \<Rightarrow> object_reference" where
  "claim_for r = \<lparr>or_api_version = Some ''v1'', or_kind = Some ''PersistentVolumeClaim'',
     or_namespace = Some (pr_namespace r), or_name = Some (pr_name r), or_uid = Some (pr_uid r), or_others = []\<rparr>"

definition render_new_pv :: "persistent_volume \<Rightarrow> pvc_ref \<Rightarrow> target_info \<Rightarrow> error + persistent_volume" where
  "render_new_pv old_pv pref target =
     (let m = pv_meta old_pv;
          meta = default_meta\<lparr>m_name := m_name m, m_labels := m_labels m,
            m_annotations := map_option (AList.delete EVACUATE_ANNOTATION) (m_annotations m)\<rparr>
      in case pv_spec old_pv of
           None \<Rightarrow> Inl (E_msg ''old PV has no spec'')
         | Some spec \<Rightarrow> (case pvs_csi spec of
             None \<Rightarrow> Inl (E_msg ''old PV has no csi source'')
           | Some csi \<Rightarrow>
               (let attrs = map_option (\<lambda>a. if map_of a POOLNAME_ATTRIBUTE \<noteq> None
                      then AList.update POOLNAME_ATTRIBUTE (ti_pool target) a else a) (csi_volume_attributes csi);
                    csi' = csi\<lparr>csi_volume_handle := ti_new_volume_handle target, csi_volume_attributes := attrs\<rparr>
                in Inr \<lparr>pv_meta = meta,
                     pv_spec = Some (spec\<lparr>pvs_claim_ref := Some (claim_for pref),
                       pvs_reclaim_policy := Some ''Retain'',
                       pvs_node_affinity := Some (pinned_to (ti_node_id target)),
                       pvs_csi := Some csi'\<rparr>),
                     pv_status = None\<rparr>)))"

section \<open>Committing\<close>

definition commit_record :: "evac_status \<Rightarrow> string \<Rightarrow> string \<Rightarrow> evac_status" where
  "commit_record st old_json new_json = st\<lparr>s_old_pv_manifest := Some old_json,
     s_new_pv_manifest := Some new_json, s_committed := True\<rparr>"

definition unexpected_pods :: "evacuation_mode \<Rightarrow> pod list \<Rightarrow> pod list" where
  "unexpected_pods mode pods = (case mode of WhenIdle \<Rightarrow> pods | WhenClaimed \<Rightarrow> filter pod_is_scheduled pods)"

definition committing :: "ctx \<Rightarrow> zfs_evacuation \<Rightarrow> evac_status \<Rightarrow> action prog" where
  "committing ctx evac st =
     (let name = name_any (ev_meta evac) in
      bnd (need ''no pvcRef recorded'' (s_pvc_ref st)) (\<lambda>pref.
      bnd (need ''no source recorded'' (s_source st)) (\<lambda>source.
      bnd (need ''no target recorded'' (s_target st)) (\<lambda>target.
      bnd (get_pvc (pr_namespace pref) (pr_name pref)) (\<lambda>pvc_o.
      bnd (need ''PVC vanished at commit'' pvc_o) (\<lambda>pvc.
      if m_uid (pvc_meta pvc) \<noteq> Some (pr_uid pref)
      then go_abort name st ''PVC UID changed at commit; aborting''
      else
        bnd (pods_referencing_pvc (pr_namespace pref) (pr_name pref)) (\<lambda>pods.
        let unexpected = unexpected_pods (es_mode (ev_spec evac)) pods in
        if unexpected \<noteq> []
        then go_abort name st (''pods appeared at commit despite lock: '' @ join '', '' (pod_names unexpected))
        else
          bnd (blocking_reason ctx evac st pods) (\<lambda>blocked. (case blocked of
            Some msg \<Rightarrow> wait name st msg 15
          | None \<Rightarrow>
              bnd (get_pv (es_pv_name (ev_spec evac))) (\<lambda>pv_o.
              bnd (need ''old PV vanished at commit'' pv_o) (\<lambda>old_pv.
              if m_uid (pv_meta old_pv) \<noteq> Some (si_pv_uid source)
              then fail name st ''old PV UID changed at commit''
              else
                bnd (Done (render_new_pv old_pv pref target)) (\<lambda>new_pv.
                bnd (Done (pv_to_json (c_libs ctx) old_pv)) (\<lambda>old_json.
                bnd (Done (pv_to_json (c_libs ctx) new_pv)) (\<lambda>new_json.
                  advance name (commit_record st old_json new_json) Swapping))))))))))))))"

section \<open>Swapping\<close>

definition pv_phase :: "persistent_volume \<Rightarrow> string" where
  "pv_phase pv = unwrap_or (Option.bind (pv_status pv) pvt_phase) []"

definition pv_claim_uid :: "persistent_volume \<Rightarrow> string" where
  "pv_claim_uid pv = unwrap_or (Option.bind (Option.bind (pv_spec pv) pvs_claim_ref) or_uid) []"

definition swapping :: "ctx \<Rightarrow> zfs_evacuation \<Rightarrow> evac_status \<Rightarrow> action prog" where
  "swapping ctx evac st =
     (let name = name_any (ev_meta evac); pv_name = es_pv_name (ev_spec evac) in
      bnd (need ''no source recorded'' (s_source st)) (\<lambda>source.
      bnd (need ''no pvcRef recorded'' (s_pvc_ref st)) (\<lambda>pref.
      bnd (get_pv pv_name) (\<lambda>pv_o. (case pv_o of
        None \<Rightarrow>
          bnd (need ''no newPVManifest recorded; cannot complete swap'' (s_new_pv_manifest st)) (\<lambda>manifest.
          bnd (with_context ''parsing stored newPVManifest'' (Done (pv_from_json (c_libs ctx) manifest))) (\<lambda>new_pv.
          bnd (create_if_absent K_PV [] (O_pv new_pv)) (\<lambda>_.
            requeue_secs 2)))
      | Some pv \<Rightarrow>
          if m_uid (pv_meta pv) = Some (si_pv_uid source)
          then
            bnd (if \<not> being_deleted (pv_meta pv)
                 then bnd (pods_referencing_pvc (pr_namespace pref) (pr_name pref)) (\<lambda>pods.
                      bnd (blocking_reason ctx evac st pods) (\<lambda>blocked. (case blocked of
                        Some msg \<Rightarrow> bnd (wait name st msg 10) (\<lambda>a. ret (Some a))
                      | None \<Rightarrow> bnd (delete_obj K_PV [] pv_name) (\<lambda>_. ret None))))
                 else ret None) (\<lambda>early. (case early of
              Some a \<Rightarrow> ret a
            | None \<Rightarrow>
                bnd (set_finalizers K_PV [] pv_name (remove_from [PV_PROTECTION, PROVISIONER_FINALIZER])) (\<lambda>_.
                  requeue_secs 2)))
          else if pv_phase pv = ''Bound'' \<and> pv_claim_uid pv = pr_uid pref
          then
            bnd (case s_original_reclaim_policy st of
                   Some orig \<Rightarrow> patch_obj K_PV [] pv_name (P_reclaim_policy orig)
                 | None \<Rightarrow> ret ()) (\<lambda>_.
              advance name st CleaningUp)
          else requeue_secs 3)))))"

end
