(* ===== verification/Transfer_Verdict.thy ===== *)
theory Transfer_Verdict
  imports Effects
begin

text \<open>
  The pure verdict on a transfer attempt (\<open>transfer_verdict\<close>, \<open>src/src/controller/transfer.rs\<close>):
  everything the phase can observe about the attempt, and what to do next. The lemmas give the
  exact condition of every verdict, so that the precedence of success, recorded failure, agent
  failure, staleness, timeout and stall is stated once.
\<close>

record relay_obs =
  ro_attempt :: u32
  ro_bytes :: u64
  ro_last_activity :: u64
  ro_task_finished :: bool
  ro_source_connected :: bool

record transfer_obs =
  to_attempt :: u32
  to_failure_reason :: "string option"
  to_bkp_status :: string
  to_rst_status :: string
  to_rst_exists :: bool
  to_mem :: "relay_obs option"
  to_elapsed_secs :: u64
  to_now_secs :: u64
  to_timeout_secs :: u64
  to_stall_secs :: u64

datatype attempt_verdict =
    Complete "u64 option"
  | FailAttempt string
  | StaleStatus
  | StaleRelay
  | WaitingForSource
  | CreateRestore
  | Continue u64

definition bad_status :: "string \<Rightarrow> bool" where
  "bad_status s \<longleftrightarrow> s = BKP_STATUS_FAILED \<or> s = BKP_STATUS_INVALID"

definition flowing :: "relay_obs \<Rightarrow> bool" where
  "flowing m \<longleftrightarrow> \<not> ro_task_finished m \<and> ro_bytes m > 0"

definition transfer_verdict :: "transfer_obs \<Rightarrow> attempt_verdict" where
  "transfer_verdict o1 =
     (if to_bkp_status o1 = BKP_STATUS_DONE \<and> to_rst_status o1 = BKP_STATUS_DONE
      then Complete (map_option ro_bytes (to_mem o1))
      else case to_failure_reason o1 of
        Some r \<Rightarrow> FailAttempt r
      | None \<Rightarrow>
        if bad_status (to_bkp_status o1)
        then FailAttempt (''backup reported status '' @ to_bkp_status o1)
        else if bad_status (to_rst_status o1)
        then FailAttempt (''restore reported status '' @ to_rst_status o1)
        else case to_mem o1 of
          None \<Rightarrow> FailAttempt ''controller restarted mid-transfer''
        | Some m \<Rightarrow>
          if ro_attempt m > to_attempt o1 then StaleStatus
          else if ro_attempt m < to_attempt o1 then StaleRelay
          else if \<not> flowing m \<and> to_elapsed_secs o1 > to_timeout_secs o1
          then FailAttempt ''transfer timed out''
          else if \<not> to_rst_exists o1
          then (if ro_source_connected m then CreateRestore else WaitingForSource)
          else if flowing m \<and> sat_sub (to_now_secs o1) (ro_last_activity m) > to_stall_secs o1
          then FailAttempt ''transfer stalled (no bytes)''
          else Continue (ro_bytes m))"

section \<open>The condition of each verdict\<close>

text \<open>Nothing durable decides the attempt yet: neither the agents nor a recorded reason.\<close>

definition undecided :: "transfer_obs \<Rightarrow> bool" where
  "undecided o1 \<longleftrightarrow>
     \<not> (to_bkp_status o1 = BKP_STATUS_DONE \<and> to_rst_status o1 = BKP_STATUS_DONE)
   \<and> to_failure_reason o1 = None
   \<and> \<not> bad_status (to_bkp_status o1) \<and> \<not> bad_status (to_rst_status o1)"

text \<open>The observed relay is the one of the recorded attempt.\<close>

definition current_relay :: "transfer_obs \<Rightarrow> relay_obs \<Rightarrow> bool" where
  "current_relay o1 m \<longleftrightarrow> to_mem o1 = Some m \<and> ro_attempt m = to_attempt o1"

definition timed_out :: "transfer_obs \<Rightarrow> relay_obs \<Rightarrow> bool" where
  "timed_out o1 m \<longleftrightarrow> \<not> flowing m \<and> to_elapsed_secs o1 > to_timeout_secs o1"

definition stalled :: "transfer_obs \<Rightarrow> relay_obs \<Rightarrow> bool" where
  "stalled o1 m \<longleftrightarrow> flowing m \<and> sat_sub (to_now_secs o1) (ro_last_activity m) > to_stall_secs o1"

lemmas verdict_defs =
  transfer_verdict_def undecided_def current_relay_def timed_out_def stalled_def

lemma complete_iff:
  "transfer_verdict o1 = Complete b \<longleftrightarrow>
     to_bkp_status o1 = BKP_STATUS_DONE \<and> to_rst_status o1 = BKP_STATUS_DONE
   \<and> b = map_option ro_bytes (to_mem o1)"
  by (auto simp: verdict_defs split: option.splits if_splits)

lemma undecided_cases:
  assumes "undecided o1"
  shows "transfer_verdict o1 =
     (case to_mem o1 of
        None \<Rightarrow> FailAttempt ''controller restarted mid-transfer''
      | Some m \<Rightarrow>
        if ro_attempt m > to_attempt o1 then StaleStatus
        else if ro_attempt m < to_attempt o1 then StaleRelay
        else if timed_out o1 m then FailAttempt ''transfer timed out''
        else if \<not> to_rst_exists o1
        then (if ro_source_connected m then CreateRestore else WaitingForSource)
        else if stalled o1 m then FailAttempt ''transfer stalled (no bytes)''
        else Continue (ro_bytes m))"
  using assms by (auto simp: verdict_defs split: option.split)

lemma stale_status_iff:
  "transfer_verdict o1 = StaleStatus \<longleftrightarrow>
     undecided o1 \<and> (\<exists>m. to_mem o1 = Some m \<and> ro_attempt m > to_attempt o1)"
  by (auto simp: verdict_defs split: option.splits if_splits)

lemma stale_relay_iff:
  "transfer_verdict o1 = StaleRelay \<longleftrightarrow>
     undecided o1 \<and> (\<exists>m. to_mem o1 = Some m \<and> ro_attempt m < to_attempt o1)"
  by (auto simp: verdict_defs split: option.splits if_splits)

lemma create_restore_iff:
  "transfer_verdict o1 = CreateRestore \<longleftrightarrow>
     undecided o1 \<and> \<not> to_rst_exists o1
   \<and> (\<exists>m. current_relay o1 m \<and> \<not> timed_out o1 m \<and> ro_source_connected m)"
  by (auto simp: verdict_defs split: option.splits if_splits)

lemma waiting_iff:
  "transfer_verdict o1 = WaitingForSource \<longleftrightarrow>
     undecided o1 \<and> \<not> to_rst_exists o1
   \<and> (\<exists>m. current_relay o1 m \<and> \<not> timed_out o1 m \<and> \<not> ro_source_connected m)"
  by (auto simp: verdict_defs split: option.splits if_splits)

lemma continue_iff:
  "transfer_verdict o1 = Continue b \<longleftrightarrow>
     undecided o1 \<and> to_rst_exists o1
   \<and> (\<exists>m. current_relay o1 m \<and> \<not> timed_out o1 m \<and> \<not> stalled o1 m \<and> b = ro_bytes m)"
  by (auto simp: verdict_defs split: option.splits if_splits)

text \<open>Why an attempt is judged failed, with the reason the status records.\<close>

definition fail_cause :: "transfer_obs \<Rightarrow> string \<Rightarrow> bool" where
  "fail_cause o1 r \<longleftrightarrow>
     to_failure_reason o1 = Some r
   \<or> to_failure_reason o1 = None \<and>
      (bad_status (to_bkp_status o1) \<and> r = ''backup reported status '' @ to_bkp_status o1
     \<or> \<not> bad_status (to_bkp_status o1) \<and> bad_status (to_rst_status o1)
         \<and> r = ''restore reported status '' @ to_rst_status o1
     \<or> \<not> bad_status (to_bkp_status o1) \<and> \<not> bad_status (to_rst_status o1) \<and>
        (to_mem o1 = None \<and> r = ''controller restarted mid-transfer''
       \<or> (\<exists>m. current_relay o1 m \<and> timed_out o1 m \<and> r = ''transfer timed out'')
       \<or> (\<exists>m. current_relay o1 m \<and> to_rst_exists o1 \<and> \<not> timed_out o1 m \<and> stalled o1 m
            \<and> r = ''transfer stalled (no bytes)'')))"

lemma fail_iff:
  "transfer_verdict o1 = FailAttempt r \<longleftrightarrow>
     \<not> (to_bkp_status o1 = BKP_STATUS_DONE \<and> to_rst_status o1 = BKP_STATUS_DONE) \<and> fail_cause o1 r"
proof (cases "to_bkp_status o1 = BKP_STATUS_DONE \<and> to_rst_status o1 = BKP_STATUS_DONE
    \<or> to_failure_reason o1 \<noteq> None \<or> bad_status (to_bkp_status o1) \<or> bad_status (to_rst_status o1)")
  case True
  then consider
      "to_bkp_status o1 = BKP_STATUS_DONE \<and> to_rst_status o1 = BKP_STATUS_DONE"
    | "\<not> (to_bkp_status o1 = BKP_STATUS_DONE \<and> to_rst_status o1 = BKP_STATUS_DONE)"
      "to_failure_reason o1 \<noteq> None"
    | "\<not> (to_bkp_status o1 = BKP_STATUS_DONE \<and> to_rst_status o1 = BKP_STATUS_DONE)"
      "to_failure_reason o1 = None" "bad_status (to_bkp_status o1) \<or> bad_status (to_rst_status o1)"
    by blast
  then show ?thesis
  proof cases
    case 1
    then show ?thesis by (simp add: transfer_verdict_def)
  next
    case 2
    then show ?thesis unfolding transfer_verdict_def fail_cause_def by fastforce
  next
    case 3
    then show ?thesis
      unfolding transfer_verdict_def fail_cause_def
      by (cases "bad_status (to_bkp_status o1)") auto
  qed
next
  case False
  then have u: "undecided o1" by (simp add: undecided_def)
  show ?thesis
  proof (cases "to_mem o1")
    case None
    with False show ?thesis by (auto simp: undecided_cases [OF u] fail_cause_def current_relay_def)
  next
    case (Some m)
    have c: "fail_cause o1 r \<longleftrightarrow> ro_attempt m = to_attempt o1 \<and>
        (timed_out o1 m \<and> r = ''transfer timed out''
       \<or> to_rst_exists o1 \<and> \<not> timed_out o1 m \<and> stalled o1 m \<and> r = ''transfer stalled (no bytes)'')"
      using False Some unfolding fail_cause_def current_relay_def by (simp cong: conj_cong) blast
    have v: "transfer_verdict o1 = FailAttempt r \<longleftrightarrow> ro_attempt m = to_attempt o1 \<and>
        (if timed_out o1 m then FailAttempt r = FailAttempt ''transfer timed out''
         else to_rst_exists o1 \<and> stalled o1 m \<and> FailAttempt r = FailAttempt ''transfer stalled (no bytes)'')"
      unfolding undecided_cases [OF u] Some option.case by auto
    show ?thesis unfolding c v using False by auto
  qed
qed

lemma flowing_not_timed_out: "flowing m \<Longrightarrow> \<not> timed_out o1 m"
  by (simp add: timed_out_def)

end
