(* ===== verification/Transfer_Phase.thy ===== *)
theory Transfer_Phase
  imports Phase_Common Transfer_Verdict Relay_Net
begin

text \<open>
  The Transferring phase (\<open>src/src/controller/transfer.rs\<close>): one relay and one pair of
  ZFSBackup/ZFSRestore objects per attempt, retries, teardown of an attempt, and the
  destruction of the snapshot the received stream leaves on the target.
\<close>

section \<open>Names\<close>

definition bkp_name :: "string \<Rightarrow> u32 \<Rightarrow> string" where
  "bkp_name evac attempt = evac @ ''-evac-a'' @ dec (unat attempt)"

definition rst_name :: "string \<Rightarrow> u32 \<Rightarrow> string" where
  "rst_name evac attempt = evac @ ''-evacr-a'' @ dec (unat attempt)"

definition snap_name_of :: "u32 \<Rightarrow> u16 \<Rightarrow> string" where
  "snap_name_of attempt r = ''zevac-a'' @ dec (unat attempt) @ ''-'' @ hex_fixed 4 (unat r)"

section \<open>The relay table\<close>

text \<open>Atomics and handles of the relay task are this process's memory; reading them cannot fail.\<close>

definition of_load :: "resp \<Rightarrow> relay_load" where
  "of_load r = (case r of R_load l \<Rightarrow> l
     | _ \<Rightarrow> \<lparr>rl_bytes = 0, rl_last_activity = 0, rl_task_finished = False, rl_source_connected = False\<rparr>)"

definition observe_relay :: "string \<Rightarrow> relay_obs option prog" where
  "observe_relay name = Mem id (\<lambda>m. case m name of
     None \<Rightarrow> ret None
   | Some a \<Rightarrow> Call (Relay_load (at_task a)) (\<lambda>r.
       let l = of_load r in
       ret (Some \<lparr>ro_attempt = at_attempt a, ro_bytes = rl_bytes l, ro_last_activity = rl_last_activity l,
         ro_task_finished = rl_task_finished l, ro_source_connected = rl_source_connected l\<rparr>)))"

definition drop_relay :: "string \<Rightarrow> unit prog" where
  "drop_relay name = Mem (\<lambda>m. m(name := None)) (\<lambda>m. case m name of
     None \<Rightarrow> ret ()
   | Some t \<Rightarrow> Call (Abort_task (at_task t)) (\<lambda>_. ret ()))"

definition register_relay :: "string \<Rightarrow> active_transfer \<Rightarrow> unit prog" where
  "register_relay name a = Mem (\<lambda>m. m(name \<mapsto> a)) (\<lambda>m. case m name of
     None \<Rightarrow> ret ()
   | Some old \<Rightarrow> Call (Abort_task (at_task old)) (\<lambda>_. ret ()))"

text \<open>Indexing the map with a missing key panics; the panic ends the reconcile like an error.\<close>

definition relay_ports :: "string \<Rightarrow> (u16 \<times> u16) prog" where
  "relay_ports name = Mem id (\<lambda>m. case m name of
     None \<Rightarrow> throw (E_msg ''panic: no entry found for key'')
   | Some t \<Rightarrow> ret (at_backup_port t, at_restore_port t))"

definition as_relay :: "resp \<Rightarrow> error + nat \<times> u16 \<times> u16" where
  "as_relay r = (case r of R_relay t b p \<Rightarrow> Inr (t, b, p) | R_err e \<Rightarrow> Inl (E_kube e) | _ \<Rightarrow> Inl decode_error)"

definition spawn_relay :: "ip_net list \<Rightarrow> ip_net list \<Rightarrow> (nat \<times> u16 \<times> u16) prog" where
  "spawn_relay bs rs = ask (Spawn_relay bs rs) as_relay"

definition rand_u16 :: "u16 prog" where
  "rand_u16 = ask Rand_u16 (\<lambda>r. Inr (case r of R_u16 x \<Rightarrow> x | _ \<Rightarrow> 0))"

definition peers_of :: "node \<Rightarrow> ip_net list prog" where
  "peers_of n = Done (relay_peers n)"

section \<open>Attempts\<close>

definition new_attempt :: "u32 \<Rightarrow> string \<Rightarrow> u16 \<times> u16 \<Rightarrow> string \<Rightarrow> transfer_status" where
  "new_attempt attempt snap ports started = \<lparr>ts_attempt = attempt, ts_snap_name = snap,
     ts_ports = [fst ports, snd ports], ts_bytes_relayed = None, ts_started_at = Some started,
     ts_failure_reason = None, ts_target_snap_delete_issued = False\<rparr>"

definition attempt_backup :: "ctx \<Rightarrow> string \<Rightarrow> source_info \<Rightarrow> u32 \<Rightarrow> string \<Rightarrow> u16 \<Rightarrow> zfs_backup" where
  "attempt_backup ctx name src attempt snap port = \<lparr>
     bk_meta = named_meta (bkp_name name attempt),
     bk_spec = \<lparr>bks_volume_name = si_volume_handle src, bks_owner_node_id = si_node_id src,
       bks_snap_name = Some snap, bks_prev_snap_name = None,
       bks_backup_dest = cfg_pod_ip (c_cfg ctx) @ '':'' @ dec (unat port)\<rparr>,
     bk_status = Some BKP_STATUS_INIT\<rparr>"

definition start_attempt :: "ctx \<Rightarrow> zfs_evacuation \<Rightarrow> evac_status \<Rightarrow> u32 \<Rightarrow> action prog" where
  "start_attempt ctx evac st attempt =
     (let name = name_any (ev_meta evac) in
      bnd (need ''no source recorded'' (s_source st)) (\<lambda>source.
      bnd (need ''no target recorded'' (s_target st)) (\<lambda>target.
      Mem id (\<lambda>m.
        if is_some_and (m name) (\<lambda>a. attempt \<le> at_attempt a) then requeue_secs 5
        else
          bnd (node_by_id (si_node_id source)) (\<lambda>src_o.
          bnd (need (''source node '' @ si_node_id source @ '' gone'') src_o) (\<lambda>src_node.
          bnd (node_by_id (ti_node_id target)) (\<lambda>dst_o.
          bnd (need (''target node '' @ ti_node_id target @ '' gone'') dst_o) (\<lambda>dst_node.
          bnd (peers_of src_node) (\<lambda>src_peers.
          bnd (peers_of dst_node) (\<lambda>dst_peers.
          bnd (spawn_relay src_peers dst_peers) (\<lambda>(task, bp, rp).
          bnd (register_relay name \<lparr>at_attempt = attempt, at_task = task, at_backup_port = bp, at_restore_port = rp\<rparr>) (\<lambda>_.
          bnd (relay_ports name) (\<lambda>ports.
          bnd rand_u16 (\<lambda>r.
          bnd (now_rfc3339 ctx) (\<lambda>started.
            let snap = snap_name_of attempt r;
                st' = st\<lparr>s_transfer := Some (new_attempt attempt snap ports started),
                         s_message := Some (''transfer attempt '' @ dec (unat attempt) @ '' starting'')\<rparr>
            in bnd (write_status name st') (\<lambda>_.
               bnd (create_if_absent K_ZFSBackup (openebs_ns ctx)
                      (O_bkp (attempt_backup ctx name source attempt snap (fst ports)))) (\<lambda>_.
               requeue_secs 2)))))))))))))))))"

definition create_restore :: "ctx \<Rightarrow> evac_status \<Rightarrow> string \<Rightarrow> u32 \<Rightarrow> u16 \<Rightarrow> unit prog" where
  "create_restore ctx st name attempt restore_port =
     bnd (need ''no source recorded'' (s_source st)) (\<lambda>source.
     bnd (need ''no target recorded'' (s_target st)) (\<lambda>target.
     bnd (get_zv ctx (si_volume_handle source)) (\<lambda>zv_o.
     bnd (need ''source ZFSVolume disappeared'' zv_o) (\<lambda>zv.
       let rst = (ZFSRestore_new (rst_name name attempt)
                   \<lparr>rss_volume_name = ti_new_volume_handle target, rss_owner_node_id = ti_node_id target,
                    rss_restore_src = cfg_pod_ip (c_cfg ctx) @ '':'' @ dec (unat restore_port)\<rparr>
                   (adapt_to_target (zv_spec zv) target))\<lparr>rs_status := Some BKP_STATUS_INIT\<rparr>
       in create_if_absent K_ZFSRestore (openebs_ns ctx) (O_rst rst)))))"

text \<open>One of the two objects of an attempt: delete it, or help a deletion whose node is gone.\<close>

definition cleanup_cr :: "kind \<Rightarrow> string \<Rightarrow> string \<Rightarrow> objmeta option \<Rightarrow> string option \<Rightarrow> bool prog" where
  "cleanup_cr k ns n o1 node_id = (case o1 of
     None \<Rightarrow> ret True
   | Some m \<Rightarrow>
       bnd (if \<not> being_deleted m then delete_obj k ns n
            else case node_id of None \<Rightarrow> ret ()
              | Some nid \<Rightarrow> strip_zfs_finalizer_if_node_gone k ns n nid)
         (\<lambda>_. ret False))"

definition cleanup_transfer_crs :: "ctx \<Rightarrow> string \<Rightarrow> u32 \<Rightarrow> evac_status \<Rightarrow> bool prog" where
  "cleanup_transfer_crs ctx name attempt st =
     (let b = bkp_name name attempt; r = rst_name name attempt in
      bnd (get_bkp ctx b) (\<lambda>bkp.
      bnd (cleanup_cr K_ZFSBackup (openebs_ns ctx) b (map_option bk_meta bkp) (map_option si_node_id (s_source st))) (\<lambda>b_gone.
      bnd (get_rst ctx r) (\<lambda>rst.
      bnd (cleanup_cr K_ZFSRestore (openebs_ns ctx) r (map_option rs_meta rst) (map_option ti_node_id (s_target st))) (\<lambda>r_gone.
        ret (b_gone \<and> r_gone))))))"

definition note_failure :: "string \<Rightarrow> evac_status \<Rightarrow> evac_status" where
  "note_failure reason st = (case s_transfer st of None \<Rightarrow> st
     | Some x \<Rightarrow> st\<lparr>s_transfer := Some (x\<lparr>ts_failure_reason := Some reason\<rparr>)\<rparr>)"

definition retry_or_fail :: "ctx \<Rightarrow> zfs_evacuation \<Rightarrow> evac_status \<Rightarrow> transfer_status \<Rightarrow> u32 \<Rightarrow> string \<Rightarrow> action prog" where
  "retry_or_fail ctx evac st t max_attempts reason =
     (let name = name_any (ev_meta evac); st1 = note_failure reason st in
      bnd (drop_relay name) (\<lambda>_.
      bnd (cleanup_transfer_crs ctx name (ts_attempt t) st1) (\<lambda>gone.
        if \<not> gone
        then wait name st1 (''attempt '' @ dec (unat (ts_attempt t)) @ '' failed ('' @ reason @ ''); cleaning up'') 10
        else if max_attempts \<le> ts_attempt t
        then go_abort name st1 (''transfer failed after '' @ dec (unat (ts_attempt t)) @ '' attempts (last: '' @ reason @ '')'')
        else start_attempt ctx evac st1 (ts_attempt t + 1))))"

definition set_bytes :: "u64 \<Rightarrow> evac_status \<Rightarrow> evac_status" where
  "set_bytes b st = (case s_transfer st of None \<Rightarrow> st
     | Some x \<Rightarrow> st\<lparr>s_transfer := Some (x\<lparr>ts_bytes_relayed := Some b\<rparr>)\<rparr>)"

definition act_on_verdict :: "ctx \<Rightarrow> zfs_evacuation \<Rightarrow> evac_status \<Rightarrow> transfer_status \<Rightarrow> attempt_verdict \<Rightarrow> action prog" where
  "act_on_verdict ctx evac st t v =
     (let name = name_any (ev_meta evac) in
      case v of
        Complete b \<Rightarrow> bnd (drop_relay name) (\<lambda>_.
          advance name (case b of None \<Rightarrow> st | Some n \<Rightarrow> set_bytes n st) Adopting)
      | FailAttempt reason \<Rightarrow>
          retry_or_fail ctx evac st t (unwrap_or (es_max_attempts (ev_spec evac)) DEFAULT_MAX_ATTEMPTS) reason
      | StaleStatus \<Rightarrow> requeue_secs 2
      | StaleRelay \<Rightarrow> bnd (drop_relay name) (\<lambda>_. requeue_secs 1)
      | WaitingForSource \<Rightarrow>
          wait name st (''transfer attempt '' @ dec (unat (ts_attempt t)) @ '' waiting for source'') 2
      | CreateRestore \<Rightarrow>
          bnd (create_restore ctx st name (ts_attempt t) (case ts_ports t of _ # p # _ \<Rightarrow> p | _ \<Rightarrow> 0))
            (\<lambda>_. requeue_secs 2)
      | Continue b \<Rightarrow>
          bnd (if Option.bind (s_transfer st) ts_bytes_relayed \<noteq> Some b then write_status name (set_bytes b st) else ret ())
            (\<lambda>_. requeue_secs 10))"

definition transferring :: "ctx \<Rightarrow> zfs_evacuation \<Rightarrow> evac_status \<Rightarrow> action prog" where
  "transferring ctx evac st =
     (let name = name_any (ev_meta evac) in
      case s_transfer st of
        None \<Rightarrow> start_attempt ctx evac st 1
      | Some t \<Rightarrow>
          bnd (get_bkp ctx (bkp_name name (ts_attempt t))) (\<lambda>bkp.
          bnd (get_rst ctx (rst_name name (ts_attempt t))) (\<lambda>rst.
          bnd (observe_relay name) (\<lambda>mem.
          bnd (opt_secs_since ctx (ts_started_at t)) (\<lambda>elapsed.
          bnd now (\<lambda>n.
            act_on_verdict ctx evac st t (transfer_verdict \<lparr>
              to_attempt = ts_attempt t,
              to_failure_reason = ts_failure_reason t,
              to_bkp_status = unwrap_or (Option.bind bkp bk_status) [],
              to_rst_status = unwrap_or (Option.bind rst rs_status) [],
              to_rst_exists = (rst \<noteq> None),
              to_mem = mem,
              to_elapsed_secs = unwrap_or elapsed 0,
              to_now_secs = as_secs n,
              to_timeout_secs = unwrap_or (es_transfer_timeout_seconds (ev_spec evac)) DEFAULT_TRANSFER_TIMEOUT,
              to_stall_secs = cfg_stall_seconds (c_cfg ctx)\<rparr>)))))))"

section \<open>The snapshot on the target\<close>

definition target_snapshot_cr :: "target_info \<Rightarrow> string \<Rightarrow> volume_info \<Rightarrow> zfs_snapshot" where
  "target_snapshot_cr target snap_name info = \<lparr>
     sn_meta = insert_label ZFS_VOL_LABEL (ti_new_volume_handle target)
       (insert_label ''kubernetes.io/nodename'' (ti_node_id target) (named_meta snap_name)),
     sn_spec = adapt_to_target info target,
     sn_status = Some \<lparr>zs_state = Some ZFS_STATUS_PENDING\<rparr>\<rparr>"

definition note_delete_issued :: "evac_status \<Rightarrow> evac_status" where
  "note_delete_issued st = (case s_transfer st of None \<Rightarrow> st
     | Some t \<Rightarrow> st\<lparr>s_transfer := Some (t\<lparr>ts_target_snap_delete_issued := True\<rparr>)\<rparr>)"

definition mark_target_snap_delete_issued :: "string \<Rightarrow> evac_status \<Rightarrow> evac_status prog" where
  "mark_target_snap_delete_issued name st =
     bnd (write_status name (note_delete_issued st)) (\<lambda>_. ret (note_delete_issued st))"

abbreviation snap_wait :: string where
  "snap_wait \<equiv> ''waiting for target transfer snapshot destruction''"

definition destroy_target_snapshot :: "ctx \<Rightarrow> string \<Rightarrow> evac_status \<Rightarrow> (string option \<times> evac_status) prog" where
  "destroy_target_snapshot ctx name st =
     (case (s_transfer st, s_target st) of
        (Some t, Some target) \<Rightarrow>
          bnd (get_snap ctx (ts_snap_name t)) (\<lambda>existing.
            if ts_target_snap_delete_issued t
            then (case existing of
                None \<Rightarrow> ret (None, st)
              | Some _ \<Rightarrow>
                  bnd (strip_zfs_finalizer_if_node_gone K_ZFSSnapshot (openebs_ns ctx) (ts_snap_name t) (ti_node_id target))
                    (\<lambda>_. ret (Some snap_wait, st)))
            else (case existing of
                None \<Rightarrow>
                  bnd (get_zv ctx (ti_new_volume_handle target)) (\<lambda>zv_o. (case zv_o of
                    None \<Rightarrow> ret (None, st)
                  | Some zv \<Rightarrow>
                      bnd (create_if_absent K_ZFSSnapshot (openebs_ns ctx)
                            (O_snap (target_snapshot_cr target (ts_snap_name t) (zv_spec zv))))
                        (\<lambda>_. ret (Some ''registering target transfer snapshot'', st))))
              | Some cr \<Rightarrow>
                  if being_deleted (sn_meta cr)
                  then bnd (mark_target_snap_delete_issued name st) (\<lambda>st'. ret (Some snap_wait, st'))
                  else if ZFS_FINALIZER \<in> set (meta_finalizers (sn_meta cr))
                  then bnd (delete_obj K_ZFSSnapshot (openebs_ns ctx) (ts_snap_name t)) (\<lambda>_.
                       bnd (mark_target_snap_delete_issued name st) (\<lambda>st'. ret (Some snap_wait, st')))
                  else bnd (node_by_id (ti_node_id target)) (\<lambda>node_o.
                       bnd (if node_o = None
                            then bnd (delete_obj K_ZFSSnapshot (openebs_ns ctx) (ts_snap_name t)) (\<lambda>_.
                                 mark_target_snap_delete_issued name st)
                            else ret st) (\<lambda>st'.
                         ret (Some ''waiting for target agent to register transfer snapshot'', st')))))
      | _ \<Rightarrow> ret (None, st))"

end
