(* ===== verification/Abort_Path.thy ===== *)
theory Abort_Path
  imports Transfer_Phase
begin

text \<open>
  The abort path (\<open>src/src/controller/abort.rs\<close>): unwind in reverse, the guard finalizer last.
\<close>

definition requeue_msg :: "string \<Rightarrow> evac_status \<Rightarrow> string \<Rightarrow> action prog" where
  "requeue_msg name st msg =
     bnd (if s_message st \<noteq> Some msg then write_status name (st\<lparr>s_message := Some msg\<rparr>) else ret ())
       (\<lambda>_. requeue_secs 5)"

definition clear_evac_finalizer :: "string list \<Rightarrow> string list" where
  "clear_evac_finalizer = remove_from [EVACUATION_FINALIZER]"

text \<open>\<open>remove_evac_finalizer\<close> of \<open>state_machine.rs\<close>; it patches whether or not the list changes.\<close>

definition remove_evac_finalizer :: "string \<Rightarrow> unit prog" where
  "remove_evac_finalizer name = bnd (get_evac name) (\<lambda>o1. (case o1 of
     None \<Rightarrow> ret ()
   | Some e \<Rightarrow> patch_obj K_Evacuation [] name (P_finalizers (clear_evac_finalizer (meta_finalizers (ev_meta e))))))"

text \<open>
  Unlocking, shared by the abort path and CleaningUp: the parameter object is the lock, the
  label only a marker whose removal may fail.
\<close>

definition unlock_pvc :: "pvc_ref option \<Rightarrow> unit prog" where
  "unlock_pvc o1 = (case o1 of None \<Rightarrow> ret ()
     | Some r \<Rightarrow>
         bnd (update_params (\<lambda>p. unlock p (pvc_key r))) (\<lambda>_.
         try_with (patch_obj K_PVC (pr_namespace r) (pr_name r) (P_label EVACUATING_LABEL None)) (\<lambda>_. ret ())))"

definition abort_transfer_crs :: "ctx \<Rightarrow> string \<Rightarrow> evac_status \<Rightarrow> u32 \<Rightarrow> action option prog" where
  "abort_transfer_crs ctx name st attempt =
     bnd (cleanup_transfer_crs ctx name attempt st) (\<lambda>gone.
       if gone then ret None
       else bnd (requeue_msg name st ''abort: cleaning up transfer CRs'') (\<lambda>a. ret (Some a)))"

text \<open>Steps 2 and 3: what landed on the target, then the transfer objects; \<open>Some\<close> is an early return.\<close>

definition abort_target :: "ctx \<Rightarrow> string \<Rightarrow> evac_status \<Rightarrow> action option prog" where
  "abort_target ctx name st =
     (case (s_target st, s_transfer st) of
        (Some target, Some t) \<Rightarrow>
          bnd (get_rst ctx (rst_name name (ts_attempt t))) (\<lambda>rst.
          bnd (get_zv ctx (ti_new_volume_handle target)) (\<lambda>zv_o.
          (case zv_o of
             Some zv \<Rightarrow>
               bnd (if \<not> being_deleted (zv_meta zv)
                    then delete_obj K_ZFSVolume (openebs_ns ctx) (ti_new_volume_handle target) else ret ()) (\<lambda>_.
               bnd (strip_zfs_finalizer_if_node_gone K_ZFSVolume (openebs_ns ctx) (ti_new_volume_handle target) (ti_node_id target)) (\<lambda>_.
               bnd (requeue_msg name st ''abort: destroying target dataset'') (\<lambda>a. ret (Some a))))
           | None \<Rightarrow>
               if is_some_and (Option.bind rst rs_status) (\<lambda>s. s = BKP_STATUS_DONE)
               then bnd (need ''no source recorded'' (s_source st)) (\<lambda>src.
                    bnd (get_zv ctx (si_volume_handle src)) (\<lambda>src_o. (case src_o of
                      Some src_zv \<Rightarrow>
                        bnd (create_if_absent K_ZFSVolume (openebs_ns ctx) (O_zv (target_zfsvolume (zv_spec src_zv) target))) (\<lambda>_.
                        bnd (requeue_msg name st ''abort: adopting orphan dataset for destruction'') (\<lambda>a. ret (Some a)))
                    | None \<Rightarrow> abort_transfer_crs ctx name st (ts_attempt t))))
               else abort_transfer_crs ctx name st (ts_attempt t))))
      | _ \<Rightarrow> ret None)"

definition restore_policy :: "string \<Rightarrow> evac_status \<Rightarrow> unit prog" where
  "restore_policy pv_name st =
     (case (s_source st, s_original_reclaim_policy st) of
        (Some source, Some orig) \<Rightarrow>
          bnd (get_pv pv_name) (\<lambda>o1. (case o1 of
            Some pv \<Rightarrow> if m_uid (pv_meta pv) = Some (si_pv_uid source)
                       then patch_obj K_PV [] pv_name (P_reclaim_policy orig) else ret ()
          | None \<Rightarrow> ret ()))
      | _ \<Rightarrow> ret ())"

text \<open>Steps 6 and 7.\<close>

definition release_source :: "ctx \<Rightarrow> string \<Rightarrow> evac_status \<Rightarrow> unit prog" where
  "release_source ctx pv_name st =
     (case s_source st of None \<Rightarrow> ret ()
      | Some source \<Rightarrow>
          (let ns = openebs_ns ctx; h = si_volume_handle source in
           bnd (case s_pvc_ref st of
                  Some r \<Rightarrow> bnd (get_pvc (pr_namespace r) (pr_name r)) (\<lambda>o1. ret (o1 = None))
                | None \<Rightarrow> ret False) (\<lambda>pvc_gone.
           bnd (get_pv pv_name) (\<lambda>pv_o.
           bnd (if pvc_gone \<and> pv_o = None \<and> s_original_reclaim_policy st = Some ''Delete''
                then bnd (get_zv ctx h) (\<lambda>zv_o. (case zv_o of
                       Some zv \<Rightarrow> if \<not> being_deleted (zv_meta zv) then delete_obj K_ZFSVolume ns h else ret ()
                     | None \<Rightarrow> ret ()))
                else ret ()) (\<lambda>_.
           bnd (set_finalizers K_ZFSVolume ns h (remove_from [GUARD_FINALIZER])) (\<lambda>_.
             strip_zfs_finalizer_if_node_gone K_ZFSVolume ns h (si_node_id source)))))))"

definition abort_run :: "ctx \<Rightarrow> zfs_evacuation \<Rightarrow> evac_status \<Rightarrow> action prog" where
  "abort_run ctx evac st =
     (let name = name_any (ev_meta evac); pv_name = es_pv_name (ev_spec evac);
          st1 = st\<lparr>s_phase := Aborting\<rparr> in
      bnd (if s_phase st \<noteq> Aborting then write_status name st1 else ret ()) (\<lambda>_.
      bnd (drop_relay name) (\<lambda>_.
      bnd (abort_target ctx name st1) (\<lambda>early. (case early of
        Some a \<Rightarrow> ret a
      | None \<Rightarrow>
          bnd (restore_policy pv_name st1) (\<lambda>_.
          bnd (unlock_pvc (s_pvc_ref st1)) (\<lambda>_.
          bnd (release_source ctx pv_name st1) (\<lambda>_.
            if being_deleted (ev_meta evac)
            then bnd (remove_evac_finalizer name) (\<lambda>_. ret Await_change)
            else bnd (write_status name (st1\<lparr>s_phase := Failed,
                   s_message := Some (unwrap_or (s_message st1) ''evacuation aborted'')\<rparr>)) (\<lambda>_.
                 ret Await_change)))))))))"

end
