(* ===== verification/Target_Select.thy ===== *)
theory Target_Select
  imports Kube_Calls Placement
begin

text \<open>
  Target selection (\<open>src/src/controller/target.rs\<close>): where the received dataset goes, the ledger
  of space and nodes other evacuations hold, the eligibility of each node and pool, and the
  choice of the eligible pool with the most free space. The API reads come first, as in the
  code; what follows them is pure. Sizes are \<open>u128\<close> and wrap as they do in the release build.
\<close>

section \<open>Destination pool\<close>

definition pool_component :: "string \<Rightarrow> string" where
  "pool_component p = takeWhile (\<lambda>c. c \<noteq> CHR ''/'') p"

definition resolve_dest_poolname :: "string option \<Rightarrow> string option \<Rightarrow> string \<Rightarrow> string \<times> string" where
  "resolve_dest_poolname target_pool sc_pool source_pool =
     (case target_pool of
        Some tp \<Rightarrow> (tp, ''spec.targetPool'')
      | None \<Rightarrow> (case sc_pool of
          Some sc \<Rightarrow> (sc, ''StorageClass poolname'')
        | None \<Rightarrow> (source_pool, ''source poolName (StorageClass unavailable)'')))"

section \<open>The reservation ledger\<close>

record selection_input =
  in_evac_name :: string
  in_spec :: evac_spec
  in_source_node_id :: string
  in_source_pool :: string
  in_capacity_bytes :: u128
  in_pv :: persistent_volume
  in_group_extra_bytes :: u128
  in_anchor :: "string option"
  in_placement :: "placement option"

abbreviation ev_name :: "zfs_evacuation \<Rightarrow> string" where
  "ev_name e \<equiv> name_any (ev_meta e)"

definition capacity_of_evac :: "zfs_evacuation \<Rightarrow> u128" where
  "capacity_of_evac e = (case Option.bind (ev_status e) s_source of
     None \<Rightarrow> 0 | Some s \<Rightarrow> ucast (si_capacity_bytes s))"

definition placed :: "zfs_evacuation list \<Rightarrow> string set" where
  "placed evacs = set (map ev_name
     (filter (\<lambda>e. is_some_and (ev_status e) (\<lambda>s. s_target s \<noteq> None)) evacs))"

definition member_bytes :: "colocation_member list \<Rightarrow> u128" where
  "member_bytes ms = sum_list (map (\<lambda>m. ucast (cm_capacity_bytes m)) ms)"

record ledger =
  lg_reserved :: "string \<times> string \<rightharpoonup> u128"
  lg_busy :: "string list"

definition reserved_in :: "ledger \<Rightarrow> string \<times> string \<Rightarrow> u128" where
  "reserved_in L k = unwrap_or (lg_reserved L k) 0"

definition ledger_step :: "string \<Rightarrow> string set \<Rightarrow> zfs_evacuation \<Rightarrow> ledger \<Rightarrow> ledger" where
  "ledger_step me pl e L =
     (if ev_name e = me then L
      else case ev_status e of
        None \<Rightarrow> L
      | Some st \<Rightarrow>
          if s_phase st = Failed then L
          else case s_target st of
            None \<Rightarrow> L
          | Some t \<Rightarrow>
              (let completed = (s_phase st = Completed);
                   key = (ti_node_id t, pool_component (ti_pool t));
                   own = (if completed then 0 else capacity_of_evac e);
                   group = (case s_colocation st of None \<Rightarrow> 0
                     | Some c \<Rightarrow> member_bytes
                         (filter (\<lambda>m. cm_pv_name m \<noteq> me \<and> cm_pv_name m \<notin> pl)
                           (filter (\<lambda>m. cm_pv_name m \<noteq> ev_name e) (co_members c))))
               in \<lparr>lg_reserved = (lg_reserved L)(key \<mapsto> reserved_in L key + own + group),
                   lg_busy = (if completed then lg_busy L else ti_node_id t # lg_busy L)\<rparr>))"

definition build_ledger :: "string \<Rightarrow> zfs_evacuation list \<Rightarrow> ledger" where
  "build_ledger me evacs =
     fold (ledger_step me (placed evacs)) evacs \<lparr>lg_reserved = Map.empty, lg_busy = []\<rparr>"

section \<open>Eligibility\<close>

definition space_needed :: "selection_input \<Rightarrow> u128" where
  "space_needed i =
     (let headroom = ucast (unwrap_or (es_headroom_percent (in_spec i)) DEFAULT_HEADROOM_PERCENT);
          bytes = in_capacity_bytes i + in_group_extra_bytes i
      in bytes + bytes * headroom div 100)"

definition explicit_node :: "selection_input \<Rightarrow> string option" where
  "explicit_node i = (case es_target_node (in_spec i) of Some n \<Rightarrow> Some n | None \<Rightarrow> in_anchor i)"

text \<open>An explicit target is a node name or a node id.\<close>

definition matches_explicit :: "node list \<Rightarrow> string \<Rightarrow> string \<Rightarrow> bool" where
  "matches_explicit nodes ex nid \<longleftrightarrow>
     (case find (\<lambda>n. name_any (node_meta n) = ex) nodes of
        Some n \<Rightarrow> node_id_of n = nid | None \<Rightarrow> False) \<or> ex = nid"

record candidate =
  cd_node :: string
  cd_node_id :: string
  cd_pool :: string
  cd_free :: u128

definition pool_free :: "zfs_pool \<Rightarrow> u128" where
  "pool_free p = unwrap_or (Option.bind (zp_free p) parse_quantity_or_bytes) 0"

text \<open>One pool of an eligible node: a candidate, or the reason it is not one.\<close>

definition consider_pool :: "ledger \<Rightarrow> u128 \<Rightarrow> string \<Rightarrow> node \<Rightarrow> string \<Rightarrow> zfs_pool \<Rightarrow> string + candidate" where
  "consider_pool L need wanted n nid p =
     (let free = pool_free p; res = reserved_in L (nid, zp_name p) in
      if need \<le> sat_sub free res
      then Inr \<lparr>cd_node = name_any (node_meta n), cd_node_id = nid, cd_pool = zp_name p, cd_free = free - res\<rparr>
      else Inl (''zpool '' @ wanted @ '' has '' @ dec (unat (sat_sub free res)) @
                '' bytes free after reservations, need '' @ dec (unat need)))"

text \<open>The checks on the node itself; \<open>Inl\<close> is the reason it is rejected.\<close>

definition eligible_node :: "string \<Rightarrow> selection_input \<Rightarrow> node list \<Rightarrow> string list option \<Rightarrow> ledger \<Rightarrow> string \<Rightarrow> string + node" where
  "eligible_node tkey i nodes allowed L nid =
     (if is_some_and allowed (\<lambda>ids. nid \<notin> set ids) then Inl ''outside the StorageClass allowedTopologies''
      else case find (\<lambda>n. node_id_of n = nid) nodes of
        None \<Rightarrow> Inl ''no Node with this openebs.io/nodeid''
      | Some n \<Rightarrow>
          if \<not> node_is_ready n then Inl ''not Ready or unschedulable''
          else if node_has_evacuate_taint n tkey then Inl ''carries the evacuate taint''
          else if nid \<in> set (lg_busy L) then Inl ''already receiving another evacuation''
          else if is_some_and (in_placement i) (\<lambda>p. \<not> admits p n)
          then Inl ''excluded by the consumer pod's nodeSelector/affinity/tolerations''
          else Inr n)"

definition skipped :: "selection_input \<Rightarrow> node list \<Rightarrow> string \<Rightarrow> bool" where
  "skipped i nodes nid \<longleftrightarrow> nid = in_source_node_id i
     \<or> is_some_and (explicit_node i) (\<lambda>ex. \<not> matches_explicit nodes ex nid)"

definition consider_znode :: "string \<Rightarrow> selection_input \<Rightarrow> node list \<Rightarrow> string list option \<Rightarrow> ledger
    \<Rightarrow> string \<Rightarrow> zfs_node \<Rightarrow> (string + candidate) list" where
  "consider_znode tkey i nodes allowed L wanted zn =
     (let nid = name_any (zn_meta zn) in
      if skipped i nodes nid then []
      else map (map_sum (\<lambda>why. nid @ '': '' @ why) id)
        (case eligible_node tkey i nodes allowed L nid of
           Inl why \<Rightarrow> [Inl why]
         | Inr n \<Rightarrow>
             (let ps = filter (\<lambda>p. zp_name p = wanted) (zn_pools zn) in
              if ps = [] then [Inl (''no zpool '' @ wanted)]
              else map (consider_pool L (space_needed i) wanted n nid) ps)))"

section \<open>The choice\<close>

definition lefts :: "('a + 'b) list \<Rightarrow> 'a list" where
  "lefts xs = List.map_filter (\<lambda>x. case x of Inl a \<Rightarrow> Some a | Inr _ \<Rightarrow> None) xs"

definition rights :: "('a + 'b) list \<Rightarrow> 'b list" where
  "rights xs = List.map_filter (\<lambda>x. case x of Inl _ \<Rightarrow> None | Inr b \<Rightarrow> Some b) xs"

text \<open>\<open>sort_by_key(|c| Reverse(c.3))\<close> is a stable sort by descending free space.\<close>

definition most_free_first :: "candidate list \<Rightarrow> candidate list" where
  "most_free_first cs = sort_key (\<lambda>c. - int (unat (cd_free c))) cs"

definition no_target_message :: "selection_input \<Rightarrow> string \<Rightarrow> string \<Rightarrow> string list \<Rightarrow> string" where
  "no_target_message i dest wanted rejected =
     (let reasons = (if rejected = [] then [] else ''; '' @ join '', '' rejected);
          need = dec (unat (space_needed i))
      in case explicit_node i of
           Some e \<Rightarrow> ''target '' @ e @ '' ineligible (need '' @ need @ '' bytes in zpool '' @ wanted @ '')'' @ reasons
         | None \<Rightarrow> ''no eligible target: need '' @ need @ '' bytes in zpool '' @ wanted @
             '' (for destination '' @ dest @ '') on a ready node (excluding source '' @
             in_source_node_id i @ '')'' @ reasons)"

definition choose_target :: "string \<Rightarrow> selection_input \<Rightarrow> node list \<Rightarrow> zfs_evacuation list
    \<Rightarrow> string \<Rightarrow> string list option \<Rightarrow> zfs_node list \<Rightarrow> error + target_info" where
  "choose_target tkey i nodes evacs dest allowed zns =
     (let wanted = pool_component dest;
          L = build_ledger (in_evac_name i) evacs;
          considered = concat (map (consider_znode tkey i nodes allowed L wanted) zns)
      in case most_free_first (rights considered) of
           [] \<Rightarrow> Inl (E_msg (no_target_message i dest wanted (lefts considered)))
         | c # _ \<Rightarrow> Inr \<lparr>ti_node = cd_node c, ti_node_id = cd_node_id c, ti_pool = dest,
                        ti_new_volume_handle = []\<rparr>)"

section \<open>The API reads\<close>

definition pv_storage_class :: "persistent_volume \<Rightarrow> string option" where
  "pv_storage_class pv = Option.bind (pv_spec pv) pvs_storage_class_name"

definition sc_poolname :: "persistent_volume \<Rightarrow> string option prog" where
  "sc_poolname pv = (case pv_storage_class pv of
     None \<Rightarrow> ret None
   | Some n \<Rightarrow> bnd (get_sc n) (\<lambda>o1. ret (case o1 of
       None \<Rightarrow> None | Some sc \<Rightarrow> oget (sc_parameters sc) ''poolname'')))"

definition topology_ids :: "topology_term list \<Rightarrow> topology_requirement list" where
  "topology_ids ts = filter (\<lambda>e. tr_key e = NODE_ID_TOPOLOGY_KEY)
     (concat (map (\<lambda>t. unwrap_or (tt_match_label_expressions t) []) ts))"

definition allowed_ids_of :: "string \<Rightarrow> storage_class \<Rightarrow> error + string list option" where
  "allowed_ids_of n sc = (case sc_allowed_topologies sc of
     None \<Rightarrow> Inr None
   | Some ts \<Rightarrow>
       (let es = topology_ids ts; ids = concat (map tr_values es) in
        if es = [] then Inr None
        else if ids = [] then Inl (E_msg (''StorageClass '' @ n @ '' allowedTopologies excludes every node''))
        else Inr (Some ids)))"

definition allowed_node_ids :: "persistent_volume \<Rightarrow> string list option prog" where
  "allowed_node_ids pv = (case pv_storage_class pv of
     None \<Rightarrow> ret None
   | Some n \<Rightarrow> bnd (get_sc n) (\<lambda>o1. (case o1 of
       None \<Rightarrow> ret None | Some sc \<Rightarrow> Done (allowed_ids_of n sc))))"

definition select_target :: "ctx \<Rightarrow> selection_input \<Rightarrow> target_info prog" where
  "select_target ctx i =
     bnd list_nodes (\<lambda>nodes.
     bnd list_evacs (\<lambda>evacs.
     bnd (sc_poolname (in_pv i)) (\<lambda>sc_pool.
     bnd (allowed_node_ids (in_pv i)) (\<lambda>allowed.
     bnd (list_znodes ctx) (\<lambda>zns.
       Done (choose_target (taint_key ctx) i nodes evacs
         (fst (resolve_dest_poolname (es_target_pool (in_spec i)) sc_pool (in_source_pool i)))
         allowed zns))))))"

section \<open>The ledger, declaratively\<close>

text \<open>Another evacuation that holds a target node: it has picked one and is still on its way.\<close>

definition receives_on :: "string \<Rightarrow> zfs_evacuation \<Rightarrow> string \<Rightarrow> bool" where
  "receives_on me e nid \<longleftrightarrow> ev_name e \<noteq> me \<and> (\<exists>st t. ev_status e = Some st
     \<and> s_phase st \<noteq> Failed \<and> s_phase st \<noteq> Completed \<and> s_target st = Some t \<and> ti_node_id t = nid)"

definition holds :: "string \<Rightarrow> string set \<Rightarrow> string \<times> string \<Rightarrow> zfs_evacuation \<Rightarrow> u128" where
  "holds me pl k e = reserved_in (ledger_step me pl e \<lparr>lg_reserved = Map.empty, lg_busy = []\<rparr>) k"

lemma reserved_in_step: "reserved_in (ledger_step me pl e L) k = reserved_in L k + holds me pl k e"
  by (auto simp: ledger_step_def holds_def reserved_in_def Let_def split: option.split)

lemma busy_step: "set (lg_busy (ledger_step me pl e L)) = {nid. receives_on me e nid} \<union> set (lg_busy L)"
  by (auto simp: ledger_step_def receives_on_def Let_def split: option.split)

lemma reserved_in_fold:
  "reserved_in (fold (ledger_step me pl) es L) k = reserved_in L k + sum_list (map (holds me pl k) es)"
  by (induction es arbitrary: L) (simp_all add: reserved_in_step add.assoc)

lemma busy_fold:
  "set (lg_busy (fold (ledger_step me pl) es L)) = {nid. \<exists>e \<in> set es. receives_on me e nid} \<union> set (lg_busy L)"
  by (induction es arbitrary: L) (auto simp: busy_step)

lemma busy_build_ledger: "nid \<in> set (lg_busy (build_ledger me es)) \<longleftrightarrow> (\<exists>e \<in> set es. receives_on me e nid)"
  by (simp add: build_ledger_def busy_fold)

lemma reserved_build_ledger:
  "reserved_in (build_ledger me es) k = sum_list (map (holds me (placed es) k) es)"
  by (simp add: build_ledger_def reserved_in_fold) (simp add: reserved_in_def)

section \<open>Eligibility, declaratively\<close>

definition eligible :: "string \<Rightarrow> selection_input \<Rightarrow> node list \<Rightarrow> string list option \<Rightarrow> ledger
    \<Rightarrow> string \<Rightarrow> zfs_node list \<Rightarrow> candidate \<Rightarrow> bool" where
  "eligible tkey i nodes allowed L wanted zns c \<longleftrightarrow>
     (\<exists>zn \<in> set zns. \<exists>p \<in> set (zn_pools zn). \<exists>n.
        name_any (zn_meta zn) = cd_node_id c \<and> zp_name p = wanted
      \<and> \<not> skipped i nodes (cd_node_id c)
      \<and> eligible_node tkey i nodes allowed L (cd_node_id c) = Inr n
      \<and> consider_pool L (space_needed i) wanted n (cd_node_id c) p = Inr c)"

lemma set_rights: "set (rights xs) = {b. Inr b \<in> set xs}"
  by (induction xs) (auto simp: rights_def List.map_filter_simps split: sum.split)

lemma consider_pool_id: "consider_pool L need w n nid p = Inr c \<Longrightarrow> cd_node_id c = nid"
  by (auto simp: consider_pool_def Let_def split: if_splits)

lemma Inr_map_sum_iff: "(Inr c = map_sum f id x) = (x = Inr c)"
  by (cases x) auto

lemma Inr_consider_znode:
  "Inr c \<in> set (consider_znode tkey i nodes allowed L wanted zn) \<longleftrightarrow>
     (\<exists>p \<in> set (zn_pools zn). \<exists>n. name_any (zn_meta zn) = cd_node_id c \<and> zp_name p = wanted
      \<and> \<not> skipped i nodes (cd_node_id c)
      \<and> eligible_node tkey i nodes allowed L (cd_node_id c) = Inr n
      \<and> consider_pool L (space_needed i) wanted n (cd_node_id c) p = Inr c)"
    (is "?l \<longleftrightarrow> ?r")
proof -
  let ?nid = "name_any (zn_meta zn)"
  show ?thesis
  proof (cases "skipped i nodes ?nid")
    case True
    then show ?thesis by (auto simp: consider_znode_def Let_def)
  next
    case False
    show ?thesis
    proof (cases "eligible_node tkey i nodes allowed L ?nid")
      case (Inl why)
      with False show ?thesis by (auto simp: consider_znode_def Let_def)
    next
      case (Inr n)
      let ?ps = "filter (\<lambda>p. zp_name p = wanted) (zn_pools zn)"
      have "?l \<longleftrightarrow> (\<exists>p \<in> set ?ps. consider_pool L (space_needed i) wanted n ?nid p = Inr c)"
      proof (cases "?ps = []")
        case True
        then show ?thesis using False Inr by (simp add: consider_znode_def Let_def)
      next
        case False
        then show ?thesis using \<open>\<not> skipped i nodes ?nid\<close> Inr
          by (auto simp: consider_znode_def Let_def Inr_map_sum_iff image_iff)
      qed
      also have "\<dots> \<longleftrightarrow> ?r"
      proof (cases "cd_node_id c = ?nid")
        case True
        then show ?thesis using False Inr by auto
      next
        case neq: False
        then show ?thesis using consider_pool_id by force
      qed
      finally show ?thesis .
    qed
  qed
qed

lemma considered_eligible:
  "Inr c \<in> set (concat (map (consider_znode tkey i nodes allowed L wanted) zns)) \<longleftrightarrow>
     eligible tkey i nodes allowed L wanted zns c"
  by (simp add: eligible_def Inr_consider_znode)

lemma eligible_node_iff:
  "eligible_node tkey i nodes allowed L nid = Inr n \<longleftrightarrow>
     find (\<lambda>n. node_id_of n = nid) nodes = Some n
   \<and> (\<forall>ids. allowed = Some ids \<longrightarrow> nid \<in> set ids)
   \<and> node_is_ready n \<and> \<not> node_has_evacuate_taint n tkey \<and> nid \<notin> set (lg_busy L)
   \<and> (\<forall>p. in_placement i = Some p \<longrightarrow> admits p n)"
  by (auto simp: eligible_node_def is_some_and_iff split: option.split)

lemma most_free_first_hd:
  assumes "most_free_first cs = c # cs'"
  shows "c \<in> set cs \<and> (\<forall>c' \<in> set cs. cd_free c' \<le> cd_free c)"
proof -
  have "set (most_free_first cs) = set cs" by (simp add: most_free_first_def)
  moreover have "sorted (map (\<lambda>c. - int (unat (cd_free c))) (most_free_first cs))"
    by (simp add: most_free_first_def)
  ultimately show ?thesis using assms by (auto simp: word_le_def)
qed

lemma most_free_first_Nil: "most_free_first cs = [] \<longleftrightarrow> cs = []"
  by (metis length_0_conv length_sort most_free_first_def)

lemma choose_target_Inr:
  assumes "choose_target tkey i nodes evacs dest allowed zns = Inr t"
  obtains c where
    "eligible tkey i nodes allowed (build_ledger (in_evac_name i) evacs) (pool_component dest) zns c"
    "\<And>c'. eligible tkey i nodes allowed (build_ledger (in_evac_name i) evacs) (pool_component dest) zns c'
       \<Longrightarrow> cd_free c' \<le> cd_free c"
    "t = \<lparr>ti_node = cd_node c, ti_node_id = cd_node_id c, ti_pool = dest, ti_new_volume_handle = []\<rparr>"
proof -
  let ?L = "build_ledger (in_evac_name i) evacs"
  let ?cs = "rights (concat (map (consider_znode tkey i nodes allowed ?L (pool_component dest)) zns))"
  obtain c cs where c: "most_free_first ?cs = c # cs"
    using assms by (auto simp: choose_target_def Let_def split: list.splits)
  have el: "x \<in> set ?cs \<longleftrightarrow> eligible tkey i nodes allowed ?L (pool_component dest) zns x" for x
    by (simp only: set_rights considered_eligible mem_Collect_eq)
  have "c \<in> set ?cs" "\<forall>c' \<in> set ?cs. cd_free c' \<le> cd_free c" using most_free_first_hd [OF c] by auto
  then show thesis using assms c el
    by (intro that [of c]) (auto simp: choose_target_def Let_def)
qed

lemma choose_target_Inl:
  "(\<exists>e. choose_target tkey i nodes evacs dest allowed zns = Inl e) \<longleftrightarrow>
     (\<nexists>c. eligible tkey i nodes allowed (build_ledger (in_evac_name i) evacs) (pool_component dest) zns c)"
proof -
  let ?L = "build_ledger (in_evac_name i) evacs"
  let ?cs = "rights (concat (map (consider_znode tkey i nodes allowed ?L (pool_component dest)) zns))"
  have el: "x \<in> set ?cs \<longleftrightarrow> eligible tkey i nodes allowed ?L (pool_component dest) zns x" for x
    by (simp only: set_rights considered_eligible mem_Collect_eq)
  have "(\<exists>e. choose_target tkey i nodes evacs dest allowed zns = Inl e) \<longleftrightarrow> most_free_first ?cs = []"
    by (simp add: choose_target_def Let_def split: list.split)
  also have "\<dots> \<longleftrightarrow> ?cs = []" by (rule most_free_first_Nil)
  also have "\<dots> \<longleftrightarrow> (\<nexists>x. x \<in> set ?cs)" by (metis list.set_intros(1) list.exhaust empty_iff set_empty)
  finally show ?thesis by (simp only: el)
qed

text \<open>The recorded margin is the true one: nothing wraps when some space is needed at all.\<close>

lemma consider_pool_no_wrap:
  assumes "consider_pool L need w n nid p = Inr c" and "need \<noteq> 0"
  shows "unat need \<le> unat (pool_free p) - unat (reserved_in L (nid, zp_name p))"
    and "unat (cd_free c) = unat (pool_free p) - unat (reserved_in L (nid, zp_name p))"
proof -
  let ?f = "pool_free p" and ?r = "reserved_in L (nid, zp_name p)"
  have le: "need \<le> sat_sub ?f ?r" and c: "cd_free c = ?f - ?r"
    using assms(1) by (auto simp: consider_pool_def Let_def split: if_splits)
  show 1: "unat need \<le> unat ?f - unat ?r" using le by (simp add: word_le_nat_alt unat_sat_sub)
  have "0 < unat need" using assms(2) by (simp add: unat_gt_0)
  with 1 have "?r \<le> ?f" by (simp add: word_le_nat_alt)
  then show "unat (cd_free c) = unat ?f - unat ?r" by (simp add: c unat_sub)
qed

end
