(* ===== verification/Colocation.thy ===== *)
theory Colocation
  imports Kube_Calls Placement
begin

text \<open>
  WhenClaimed grouping (\<open>src/src/controller/colocation.rs\<close>): the never-scheduled consumer of the
  PVC defines the volumes that must land on one node, and the sibling that already has a node
  off the source is the anchor to follow.
\<close>

section \<open>Anchors\<close>

record anchor =
  an_node :: string
  an_pv_name :: string
  an_how :: string

record group =
  gr_pod :: string
  gr_placement :: placement
  gr_members :: "colocation_member list"
  gr_anchor :: "anchor option"

definition votes :: "anchor list \<Rightarrow> string \<Rightarrow> nat" where
  "votes as n = count_list (map an_node as) n"

text \<open>The comparison of \<open>max_by\<close>: more votes, then the smaller node string.\<close>

definition vote_le :: "anchor list \<Rightarrow> string \<Rightarrow> string \<Rightarrow> bool" where
  "vote_le as a b \<longleftrightarrow> votes as a < votes as b \<or> (votes as a = votes as b \<and> b \<le> a)"

text \<open>\<open>Iterator::max_by\<close>: the last of the greatest elements.\<close>

fun max_by :: "('a \<Rightarrow> 'a \<Rightarrow> bool) \<Rightarrow> 'a list \<Rightarrow> 'a option" where
  "max_by le [] = None"
| "max_by le (x # xs) = Some (fold (\<lambda>y m. if le m y then y else m) xs x)"

text \<open>
  The votes sit in a \<open>HashMap\<close>, whose iteration order is unspecified: \<open>order\<close> is the order in
  which the distinct nodes come out.
\<close>

definition pick_anchor :: "(string list \<Rightarrow> string list) \<Rightarrow> anchor list \<Rightarrow> anchor option" where
  "pick_anchor order as =
     (case max_by (vote_le as) (order (remdups (map an_node as))) of
        None \<Rightarrow> None
      | Some best \<Rightarrow> find (\<lambda>a. an_node a = best) as)"

section \<open>Resolving the group\<close>

datatype member_outcome = Skip | Member colocation_member | Anchored anchor

definition active_sibling :: "zfs_evacuation option \<Rightarrow> zfs_evacuation option" where
  "active_sibling o1 = (case o1 of None \<Rightarrow> None | Some e \<Rightarrow>
     if is_some_and (ev_status e) (\<lambda>s. s_phase s \<in> {Completed, Failed, Aborting}) then None else Some e)"

definition zv_capacity :: "zfs_volume \<Rightarrow> u64" where
  "zv_capacity zv = ucast (unwrap_or (Option.bind (vi_capacity (zv_spec zv)) parse_quantity_or_bytes) (0 :: u128))"

definition place_sibling :: "string \<Rightarrow> string \<Rightarrow> zfs_volume \<Rightarrow> zfs_evacuation option \<Rightarrow> member_outcome" where
  "place_sibling source_node_id member_pv zv sibling =
     (case Option.bind sibling (\<lambda>e. es_target_node (ev_spec e)) of
        Some n \<Rightarrow> Anchored \<lparr>an_node = n, an_pv_name = member_pv, an_how = ''spec.targetNode''\<rparr>
      | None \<Rightarrow>
         (case Option.bind sibling (\<lambda>e. Option.bind (ev_status e) s_target) of
            Some t \<Rightarrow> Anchored \<lparr>an_node = ti_node_id t, an_pv_name = member_pv, an_how = ''status.target''\<rparr>
          | None \<Rightarrow>
             if vi_owner_node_id (zv_spec zv) \<noteq> source_node_id
             then Anchored \<lparr>an_node = vi_owner_node_id (zv_spec zv), an_pv_name = member_pv,
                            an_how = ''ZFSVolume owner''\<rparr>
             else Member \<lparr>cm_pv_name = member_pv, cm_capacity_bytes = zv_capacity zv\<rparr>))"

definition resolve_member :: "ctx \<Rightarrow> string \<Rightarrow> pvc_ref \<Rightarrow> string \<Rightarrow> string \<Rightarrow> member_outcome prog" where
  "resolve_member ctx me pref source_node_id pvc_name =
     bnd (get_pvc (pr_namespace pref) pvc_name) (\<lambda>o1.
     (case Option.bind o1 (\<lambda>pvc. Option.bind (pvc_spec pvc) pcs_volume_name) of
        None \<Rightarrow> ret Skip
      | Some member_pv \<Rightarrow> bnd (get_pv member_pv) (\<lambda>o2.
     (case Option.bind o2 (\<lambda>pv. Option.bind (pv_spec pv) pvs_csi) of
        None \<Rightarrow> ret Skip
      | Some csi \<Rightarrow>
          if csi_driver csi \<noteq> ZFS_DRIVER then ret Skip
          else bnd (get_zv ctx (csi_volume_handle csi)) (\<lambda>o3.
     (case o3 of
        None \<Rightarrow> ret Skip
      | Some zv \<Rightarrow>
          if member_pv = me
          then ret (Member \<lparr>cm_pv_name = member_pv, cm_capacity_bytes = zv_capacity zv\<rparr>)
          else bnd (get_evac member_pv) (\<lambda>o4.
            ret (place_sibling source_node_id member_pv zv (active_sibling o4)))))))))"

fun resolve_members :: "ctx \<Rightarrow> string \<Rightarrow> pvc_ref \<Rightarrow> string \<Rightarrow> string list
    \<Rightarrow> (colocation_member list \<times> anchor list) prog" where
  "resolve_members ctx me pref src [] = ret ([], [])"
| "resolve_members ctx me pref src (n # ns) =
     bnd (resolve_member ctx me pref src n) (\<lambda>out1.
     bnd (resolve_members ctx me pref src ns) (\<lambda>(ms, as).
       ret (case out1 of Skip \<Rightarrow> (ms, as) | Member m \<Rightarrow> (m # ms, as) | Anchored a \<Rightarrow> (ms, a # as))))"

definition resolve_group :: "ctx \<Rightarrow> string \<Rightarrow> pvc_ref \<Rightarrow> string \<Rightarrow> pod list \<Rightarrow> group option prog" where
  "resolve_group ctx me pref source_node_id pods =
     (case unscheduled_pods pods of
        [] \<Rightarrow> ret None
      | p # _ \<Rightarrow>
          bnd (resolve_members ctx me pref source_node_id (pod_pvc_names p)) (\<lambda>(ms, as).
            ret (Some \<lparr>gr_pod = pr_namespace pref @ ''/'' @ pod_name p,
                       gr_placement = from_pod p,
                       gr_members = ms,
                       gr_anchor = pick_anchor (hash_order (c_libs ctx)) as\<rparr>)))"

section \<open>The majority\<close>

lemma vote_le_linear:
  "vote_le as a a" "vote_le as a b \<Longrightarrow> vote_le as b c \<Longrightarrow> vote_le as a c"
  "vote_le as a b \<or> vote_le as b a" "vote_le as a b \<Longrightarrow> vote_le as b a \<Longrightarrow> a = b"
  by (auto simp: vote_le_def)

text \<open>The greatest element of a list under a linear order, whatever the order of the list.\<close>

lemma fold_max:
  assumes lin: "\<And>a. le a a" "\<And>a b c. le a b \<Longrightarrow> le b c \<Longrightarrow> le a c" "\<And>a b. le a b \<or> le b a"
  shows "fold (\<lambda>y m. if le m y then y else m) xs x \<in> set (x # xs)
       \<and> (\<forall>y \<in> set (x # xs). le y (fold (\<lambda>y m. if le m y then y else m) xs x))"
proof (induction xs arbitrary: x)
  case Nil
  show ?case using lin(1) by simp
next
  case (Cons z xs)
  define m where "m = (if le x z then z else x)"
  define r where "r = fold (\<lambda>y m. if le m y then y else m) xs m"
  have m: "le x m" "le z m" "m \<in> {x, z}" using lin(1) [of x] lin(1) [of z] lin(3) [of x z] by (auto simp: m_def)
  have r: "r \<in> set (m # xs)" "\<forall>y \<in> set (m # xs). le y r" using Cons.IH [of m] by (simp_all add: r_def)
  have "le m r" using r(2) by simp
  then have "le x r" "le z r" using m lin(2) by blast+
  then have "r \<in> set (x # z # xs)" "\<forall>y \<in> set (x # z # xs). le y r" using r m by auto
  moreover have "fold (\<lambda>y m. if le m y then y else m) (z # xs) x = r" by (simp add: r_def m_def)
  ultimately show ?case by simp
qed

lemma max_by_Some:
  assumes "max_by (vote_le as) ns = Some b"
  shows "b \<in> set ns" and "\<And>n. n \<in> set ns \<Longrightarrow> vote_le as n b"
proof -
  obtain x xs where "ns = x # xs" using assms by (cases ns) auto
  then show "b \<in> set ns" and "\<And>n. n \<in> set ns \<Longrightarrow> vote_le as n b"
    using assms fold_max [of "vote_le as" xs x] vote_le_linear [of as] by auto
qed

lemma max_by_None: "max_by le ns = None \<longleftrightarrow> ns = []"
  by (cases ns) auto

lemma max_by_cong: "set ns = set ns' \<Longrightarrow> max_by (vote_le as) ns = max_by (vote_le as) ns'"
proof (cases "max_by (vote_le as) ns"; cases "max_by (vote_le as) ns'")
  fix a b
  assume "set ns = set ns'" "max_by (vote_le as) ns = Some a" "max_by (vote_le as) ns' = Some b"
  then have "a = b" by (intro vote_le_linear(4) [of as]) (auto dest: max_by_Some)
  then show ?thesis using \<open>max_by (vote_le as) ns = Some a\<close> \<open>max_by (vote_le as) ns' = Some b\<close> by simp
qed (auto simp: max_by_None)

lemma pick_anchor_order:
  assumes "\<And>xs. set (order xs) = set xs" and "\<And>xs. set (order' xs) = set xs"
  shows "pick_anchor order as = pick_anchor order' as"
  using max_by_cong [of "order (remdups (map an_node as))" "order' (remdups (map an_node as))" as] assms
  by (simp add: pick_anchor_def)

lemma pick_anchor_Some:
  assumes "\<And>xs. set (order xs) = set xs" and "pick_anchor order as = Some a"
  shows "a \<in> set as"
    and "\<And>b. b \<in> set as \<Longrightarrow> votes as (an_node b) < votes as (an_node a)
           \<or> votes as (an_node b) = votes as (an_node a) \<and> an_node a \<le> an_node b"
proof -
  let ?ns = "order (remdups (map an_node as))"
  obtain best where b: "max_by (vote_le as) ?ns = Some best" and f: "find (\<lambda>a. an_node a = best) as = Some a"
    using assms(2) by (auto simp: pick_anchor_def split: option.splits)
  from f have a: "a \<in> set as" "an_node a = best" by (auto simp: find_Some_iff)
  then show "a \<in> set as" by simp
  fix x assume "x \<in> set as"
  then have "an_node x \<in> set ?ns" using assms(1) by auto
  then have "vote_le as (an_node x) best" using max_by_Some [OF b] by blast
  then show "votes as (an_node x) < votes as (an_node a)
      \<or> votes as (an_node x) = votes as (an_node a) \<and> an_node a \<le> an_node x"
    using a by (auto simp: vote_le_def)
qed

lemma pick_anchor_None:
  assumes "\<And>xs. set (order xs) = set xs"
  shows "pick_anchor order as = None \<longleftrightarrow> as = []"
proof
  assume n: "pick_anchor order as = None"
  show "as = []"
  proof (rule ccontr)
    assume "as \<noteq> []"
    then have "set (order (remdups (map an_node as))) \<noteq> {}" unfolding assms by simp
    then have "order (remdups (map an_node as)) \<noteq> []" by (metis set_empty)
    then obtain best where b: "max_by (vote_le as) (order (remdups (map an_node as))) = Some best"
      unfolding max_by_None [of "vote_le as", symmetric] by blast
    have "best \<in> set (map an_node as)" using max_by_Some(1) [OF b] unfolding assms by simp
    then obtain a where "a \<in> set as" "an_node a = best" by fastforce
    then have "find (\<lambda>a. an_node a = best) as \<noteq> None" unfolding find_None_iff by blast
    with n b show False by (simp add: pick_anchor_def)
  qed
next
  assume "as = []"
  moreover have "order [] = []" using assms [of "[]"] by simp
  ultimately show "pick_anchor order as = None" by (simp add: pick_anchor_def)
qed

end
