(* ===== verification/Evac_Machine.thy ===== *)
theory Evac_Machine
  imports Pv_Swap Abort_Path Target_Select Colocation
begin

text \<open>
  The state machine (\<open>src/src/controller/state_machine.rs\<close>): one handler per phase, the cancel
  checks, and \<open>reconcile\<close>, which dispatches on the recorded phase.
\<close>

section \<open>Handles\<close>

definition handle_of :: "u128 \<Rightarrow> string" where
  "handle_of r = ''zevac-'' @ hex_fixed 32 (unat r)"

definition new_destination_handle :: "string prog" where
  "new_destination_handle = ask Rand_u128 (\<lambda>r. Inr (handle_of (case r of R_u128 x \<Rightarrow> x | _ \<Rightarrow> 0)))"

definition is_alnum :: "char \<Rightarrow> bool" where
  "is_alnum c \<longleftrightarrow> is_digit c
     \<or> (65 \<le> (of_char c :: nat) \<and> (of_char c :: nat) \<le> 90)
     \<or> (97 \<le> (of_char c :: nat) \<and> (of_char c :: nat) \<le> 122)"

definition source_handle_fits_snapshot_label :: "string \<Rightarrow> bool" where
  "source_handle_fits_snapshot_label h \<longleftrightarrow> length h \<le> 63
     \<and> (case h of [] \<Rightarrow> False | c # _ \<Rightarrow> is_alnum c)
     \<and> (h \<noteq> [] \<and> is_alnum (last h))
     \<and> list_all (\<lambda>c. is_alnum c \<or> c = CHR ''-'' \<or> c = CHR ''_'' \<or> c = CHR ''.'') h"

section \<open>The controller's own finalizer\<close>

definition ensure_evac_finalizer :: "zfs_evacuation \<Rightarrow> unit prog" where
  "ensure_evac_finalizer evac =
     (let fins = meta_finalizers (ev_meta evac) in
      if EVACUATION_FINALIZER \<in> set fins then ret ()
      else patch_obj K_Evacuation [] (name_any (ev_meta evac)) (P_finalizers (fins @ [EVACUATION_FINALIZER])))"

section \<open>Cancelling\<close>

definition trigger_withdrawn :: "ctx \<Rightarrow> zfs_evacuation \<Rightarrow> evac_status \<Rightarrow> persistent_volume \<Rightarrow> string option prog" where
  "trigger_withdrawn ctx evac st pv =
     (case es_trigger (ev_spec evac) of
        Annotation \<Rightarrow>
          ret (if meta_annotation (pv_meta pv) EVACUATE_ANNOTATION \<noteq> Some ''true''
               then Some ''evacuate annotation removed (cancelled)'' else None)
      | NodeTaint \<Rightarrow>
          (case s_source st of
             None \<Rightarrow> ret None
           | Some src \<Rightarrow> bnd (get_node (si_node src)) (\<lambda>o1.
               ret (if is_some_and o1 (\<lambda>n. \<not> node_has_evacuate_taint n (taint_key ctx))
                    then Some ''source node's evacuate taint removed (cancelled)'' else None))))"

definition pvc_gone_or_replaced :: "evac_status \<Rightarrow> string option prog" where
  "pvc_gone_or_replaced st =
     (case s_pvc_ref st of
        None \<Rightarrow> ret None
      | Some r \<Rightarrow> bnd (get_pvc (pr_namespace r) (pr_name r)) (\<lambda>o1. ret (case o1 of
          None \<Rightarrow> Some ''PVC deleted during evacuation''
        | Some pvc \<Rightarrow> if m_uid (pvc_meta pvc) \<noteq> Some (pr_uid r)
                      then Some ''PVC replaced (UID changed) during evacuation'' else None)))"

definition cancel_reason :: "ctx \<Rightarrow> zfs_evacuation \<Rightarrow> evac_status \<Rightarrow> string option prog" where
  "cancel_reason ctx evac st =
     (if s_phase st = Pending then ret None
      else bnd (get_pv (es_pv_name (ev_spec evac))) (\<lambda>pv_o. (case pv_o of
        None \<Rightarrow> ret (Some ''source PV disappeared before commit'')
      | Some pv \<Rightarrow> bnd (trigger_withdrawn ctx evac st pv) (\<lambda>w. (case w of
          Some reason \<Rightarrow> ret (Some reason)
        | None \<Rightarrow> pvc_gone_or_replaced st)))))"

section \<open>Pending\<close>

definition resizing :: "persistent_volume_claim \<Rightarrow> bool" where
  "resizing pvc = list_ex (\<lambda>c. (c_type c = ''Resizing'' \<or> c_type c = ''FileSystemResizePending'') \<and> c_status c = ''True'')
     (unwrap_or (Option.bind (pvc_status pvc) pct_conditions) [])"

definition pending_source :: "ctx \<Rightarrow> zfs_evacuation \<Rightarrow> evac_status \<Rightarrow> persistent_volume \<Rightarrow> persistent_volume_claim
    \<Rightarrow> string \<Rightarrow> string \<Rightarrow> string \<Rightarrow> action prog" where
  "pending_source ctx evac st pv pvc pvc_ns pvc_name handle =
     (let name = name_any (ev_meta evac) in
      bnd (get_zv ctx handle) (\<lambda>zv_o. (case zv_o of
        None \<Rightarrow> fail name st (''ZFSVolume '' @ handle @ '' not found'')
      | Some zv \<Rightarrow>
          if meta_annotation (zv_meta zv) MARKED_FOR_DELETION \<noteq> None
          then fail name st ''ZFSVolume is marked for deletion''
          else if unwrap_or (vi_snapname (zv_spec zv)) [] \<noteq> []
          then fail name st ''volume is a clone; clone migration is unsupported''
          else bnd (list_snaps ctx (ZFS_VOL_LABEL, handle)) (\<lambda>snaps.
            if snaps \<noteq> []
            then fail name st ''volume has ZFSSnapshots; delete them before evacuating (snapshot migration unsupported)''
            else
              (let nid = vi_owner_node_id (zv_spec zv) in
               bnd (node_by_id nid) (\<lambda>node_o. (case node_o of
                 None \<Rightarrow> fail name st (''source node with nodeid '' @ nid @ '' not found; data is unreachable'')
               | Some n \<Rightarrow>
                   (let capacity = zv_capacity zv in
                    if capacity = 0 then fail name st ''could not determine volume capacity''
                    else advance name (st\<lparr>
                      s_pvc_ref := Some \<lparr>pr_namespace = pvc_ns, pr_name = pvc_name, pr_uid = unwrap_or (m_uid (pvc_meta pvc)) []\<rparr>,
                      s_source := Some \<lparr>si_node = name_any (node_meta n), si_node_id = nid,
                        si_pool = vi_pool_name (zv_spec zv), si_volume_handle = handle,
                        si_pv_uid = unwrap_or (m_uid (pv_meta pv)) [], si_capacity_bytes = capacity\<rparr>,
                      s_original_reclaim_policy := Option.bind (pv_spec pv) pvs_reclaim_policy\<rparr>) Guarding))))))))"

definition pending :: "ctx \<Rightarrow> zfs_evacuation \<Rightarrow> evac_status \<Rightarrow> action prog" where
  "pending ctx evac st =
     (let name = name_any (ev_meta evac); pv_name = es_pv_name (ev_spec evac) in
      bnd (get_pv pv_name) (\<lambda>pv_o. (case pv_o of
        None \<Rightarrow> fail name st (''PV '' @ pv_name @ '' not found'')
      | Some pv \<Rightarrow> (case Option.bind (pv_spec pv) pvs_csi of
          None \<Rightarrow> fail name st ''PV is not a CSI volume''
        | Some csi \<Rightarrow>
            if csi_driver csi \<noteq> ZFS_DRIVER
            then fail name st (''PV driver '' @ csi_driver csi @ '' is not '' @ ZFS_DRIVER)
            else if \<not> source_handle_fits_snapshot_label (csi_volume_handle csi)
            then fail name st (''source volume handle '' @ csi_volume_handle csi @
                   '' cannot be used as a Kubernetes snapshot label value'')
            else (case Option.bind (pv_spec pv) pvs_claim_ref of
              None \<Rightarrow> fail name st ''PV has no claimRef (unbound PVs need no evacuation)''
            | Some claim \<Rightarrow> (case (or_namespace claim, or_name claim) of
                (Some pvc_ns, Some pvc_name) \<Rightarrow>
                  bnd (get_pvc pvc_ns pvc_name) (\<lambda>pvc_o. (case pvc_o of
                    None \<Rightarrow> fail name st (''bound PVC '' @ pvc_ns @ ''/'' @ pvc_name @ '' not found'')
                  | Some pvc \<Rightarrow>
                      if Option.bind (pvc_spec pvc) pcs_volume_name \<noteq> Some pv_name
                      then fail name st ''PVC does not reference this PV''
                      else if resizing pvc then fail name st ''PVC has a resize in progress''
                      else pending_source ctx evac st pv pvc pvc_ns pvc_name (csi_volume_handle csi)))
              | _ \<Rightarrow> fail name st ''PV claimRef missing namespace/name''))))))"

section \<open>Guarding, Retaining, Locking\<close>

definition guarding :: "ctx \<Rightarrow> zfs_evacuation \<Rightarrow> evac_status \<Rightarrow> action prog" where
  "guarding ctx evac st =
     bnd (need ''no source recorded'' (s_source st)) (\<lambda>source.
     bnd (with_context ''adding guard finalizer to source ZFSVolume''
            (set_finalizers K_ZFSVolume (openebs_ns ctx) (si_volume_handle source) (add_finalizer GUARD_FINALIZER))) (\<lambda>_.
       advance (name_any (ev_meta evac)) st Retaining))"

definition retaining :: "ctx \<Rightarrow> zfs_evacuation \<Rightarrow> evac_status \<Rightarrow> action prog" where
  "retaining ctx evac st =
     bnd (with_context ''patching PV reclaimPolicy to Retain''
            (patch_obj K_PV [] (es_pv_name (ev_spec evac)) (P_reclaim_policy ''Retain''))) (\<lambda>_.
       advance (name_any (ev_meta evac)) st Locking)"

definition locking :: "ctx \<Rightarrow> zfs_evacuation \<Rightarrow> evac_status \<Rightarrow> action prog" where
  "locking ctx evac st =
     bnd (need ''no pvcRef recorded'' (s_pvc_ref st)) (\<lambda>pref.
     bnd (with_context ''adding PVC to VAP params''
            (update_params (\<lambda>p. lock p (pvc_key pref) (es_mode (ev_spec evac))))) (\<lambda>_.
     bnd (with_context ''labeling PVC''
            (patch_obj K_PVC (pr_namespace pref) (pr_name pref) (P_label EVACUATING_LABEL (Some ''true'')))) (\<lambda>_.
     bnd (now_rfc3339 ctx) (\<lambda>t.
       advance (name_any (ev_meta evac)) (st\<lparr>s_locked_at := Some t\<rparr>) Quiescing))))"

section \<open>Quiescing\<close>

definition quiescing :: "ctx \<Rightarrow> zfs_evacuation \<Rightarrow> evac_status \<Rightarrow> action prog" where
  "quiescing ctx evac st =
     (let name = name_any (ev_meta evac) in
      bnd (need ''no pvcRef recorded'' (s_pvc_ref st)) (\<lambda>pref.
      bnd (opt_secs_since ctx (s_locked_at st)) (\<lambda>since_o.
      let since_lock = unwrap_or since_o (- 1) in
      if since_lock < LOCK_PROPAGATION_SECONDS
      then requeue_secs (LOCK_PROPAGATION_SECONDS - since_lock)
      else
        bnd (pods_referencing_pvc (pr_namespace pref) (pr_name pref)) (\<lambda>pods.
        bnd (blocking_reason ctx evac st pods) (\<lambda>blocked. (case blocked of
          Some msg \<Rightarrow> wait name (st\<lparr>s_quiesced_at := None\<rparr>) msg 15
        | None \<Rightarrow>
            (let settle = unwrap_or (es_settle_seconds (ev_spec evac)) DEFAULT_SETTLE_SECONDS in
             bnd (opt_secs_since ctx (s_quiesced_at st)) (\<lambda>elapsed_o. (case elapsed_o of
               None \<Rightarrow>
                 bnd (now_rfc3339 ctx) (\<lambda>t.
                 bnd (write_status name (st\<lparr>s_quiesced_at := Some t\<rparr>)) (\<lambda>_.
                   requeue_secs settle))
             | Some elapsed \<Rightarrow>
                 if elapsed < settle then requeue_secs (settle - elapsed)
                 else advance name st TargetSelecting)))))))))"

section \<open>TargetSelecting\<close>

text \<open>Another evacuation holds the source node's one outbound slot.\<close>

definition sends_from :: "string \<Rightarrow> zfs_evacuation \<Rightarrow> string \<Rightarrow> bool" where
  "sends_from me e nid \<longleftrightarrow> ev_name e \<noteq> me \<and> is_some_and (ev_status e) (\<lambda>s.
     s_phase s \<in> {Transferring, Adopting} \<and> is_some_and (s_source s) (\<lambda>src. si_node_id src = nid))"

definition follow :: "evac_spec \<Rightarrow> group \<Rightarrow> anchor option" where
  "follow spec g = (if es_target_node spec = None then gr_anchor g else None)"

definition colocation_of :: "evac_spec \<Rightarrow> group \<Rightarrow> colocation_status" where
  "colocation_of spec g = \<lparr>co_pod = gr_pod g, co_members = gr_members g,
     co_role = (if follow spec g \<noteq> None then Follower else Leader),
     co_followed = map_option an_pv_name (follow spec g)\<rparr>"

definition selection_for :: "zfs_evacuation \<Rightarrow> source_info \<Rightarrow> persistent_volume \<Rightarrow> group option \<Rightarrow> selection_input" where
  "selection_for evac source pv g = (let name = name_any (ev_meta evac) in
     \<lparr>in_evac_name = name, in_spec = ev_spec evac, in_source_node_id = si_node_id source,
      in_source_pool = si_pool source, in_capacity_bytes = ucast (si_capacity_bytes source), in_pv = pv,
      in_group_extra_bytes = (case g of None \<Rightarrow> 0
        | Some g \<Rightarrow> member_bytes (filter (\<lambda>m. cm_pv_name m \<noteq> name) (gr_members g))),
      in_anchor = map_option an_node (Option.bind g gr_anchor),
      in_placement = map_option gr_placement g\<rparr>)"

definition target_selecting :: "ctx \<Rightarrow> zfs_evacuation \<Rightarrow> evac_status \<Rightarrow> action prog" where
  "target_selecting ctx evac st =
     (let name = name_any (ev_meta evac) in
      bnd (need ''no source recorded'' (s_source st)) (\<lambda>source.
      bnd (need ''no pvcRef recorded'' (s_pvc_ref st)) (\<lambda>pref.
      with_selection_lock (
        bnd list_evacs (\<lambda>evacs.
        if list_ex (\<lambda>e. sends_from name e (si_node_id source)) evacs
        then wait name st ''another evacuation is transferring from this node'' 60
        else
          bnd (get_pv (es_pv_name (ev_spec evac))) (\<lambda>pv_o. (case pv_o of
            None \<Rightarrow> fail name st ''PV disappeared during target selection''
          | Some pv \<Rightarrow>
              bnd (if es_mode (ev_spec evac) = WhenClaimed
                   then bnd (pods_referencing_pvc (pr_namespace pref) (pr_name pref)) (\<lambda>pods.
                        resolve_group ctx name pref (si_node_id source) pods)
                   else ret None) (\<lambda>g.
              try_with (select_target ctx (selection_for evac source pv g)) (\<lambda>r. (case r of
                Inr t \<Rightarrow>
                  bnd new_destination_handle (\<lambda>handle.
                  advance name (st\<lparr>s_colocation := map_option (colocation_of (ev_spec evac)) g,
                                   s_target := Some (t\<lparr>ti_new_volume_handle := handle\<rparr>)\<rparr>) Transferring)
              | Inl e \<Rightarrow> wait name st (''no target yet: '' @ show_error ctx e) 60))))))))))"

section \<open>Adopting\<close>

definition zv_state :: "zfs_volume \<Rightarrow> string" where
  "zv_state zv = unwrap_or (Option.bind (zv_status zv) zs_state) []"

definition adopting :: "ctx \<Rightarrow> zfs_evacuation \<Rightarrow> evac_status \<Rightarrow> action prog" where
  "adopting ctx evac st =
     (let name = name_any (ev_meta evac) in
      bnd (need ''no source recorded'' (s_source st)) (\<lambda>source.
      bnd (need ''no target recorded'' (s_target st)) (\<lambda>target.
      bnd (get_zv ctx (ti_new_volume_handle target)) (\<lambda>zv_o. (case zv_o of
        None \<Rightarrow>
          bnd (get_zv ctx (si_volume_handle source)) (\<lambda>src_o.
          bnd (need ''source ZFSVolume disappeared'' src_o) (\<lambda>src.
          bnd (create_if_absent K_ZFSVolume (openebs_ns ctx) (O_zv (target_zfsvolume (zv_spec src) target))) (\<lambda>_.
            requeue_secs 3)))
      | Some zv \<Rightarrow>
          if zv_state zv = ZFS_STATUS_READY then advance name st Committing
          else if zv_state zv = ''Failed''
          then go_abort name st ''new ZFSVolume reported Failed during adoption''
          else wait name st ''waiting for target node agent to adopt dataset'' 5)))))"

section \<open>CleaningUp\<close>

definition untrigger :: "string \<Rightarrow> unit prog" where
  "untrigger pv_name = bnd (get_pv pv_name) (\<lambda>o1.
     if is_some_and o1 (\<lambda>pv. meta_annotation (pv_meta pv) EVACUATE_ANNOTATION \<noteq> None)
     then patch_obj K_PV [] pv_name (P_annotation EVACUATE_ANNOTATION None) else ret ())"

definition finish :: "zfs_evacuation \<Rightarrow> evac_status \<Rightarrow> action prog" where
  "finish evac st =
     (let name = name_any (ev_meta evac) in
      bnd (unlock_pvc (s_pvc_ref st)) (\<lambda>_.
      bnd (untrigger (es_pv_name (ev_spec evac))) (\<lambda>_.
      bnd (advance name (st\<lparr>s_message := Some ''evacuation complete''\<rparr>) Completed) (\<lambda>a.
      bnd (remove_evac_finalizer name) (\<lambda>_.
        ret a)))))"

definition destroy_source :: "ctx \<Rightarrow> string \<Rightarrow> source_info \<Rightarrow> bool \<Rightarrow> unit prog" where
  "destroy_source ctx name source deleted =
     (let ns = openebs_ns ctx; h = si_volume_handle source in
      bnd (if \<not> deleted then delete_obj K_ZFSVolume ns h else ret ()) (\<lambda>_.
      bnd (set_finalizers K_ZFSVolume ns h (remove_from [GUARD_FINALIZER])) (\<lambda>_.
        strip_zfs_finalizer_if_node_gone K_ZFSVolume ns h (si_node_id source))))"

definition cleaning_up :: "ctx \<Rightarrow> zfs_evacuation \<Rightarrow> evac_status \<Rightarrow> action prog" where
  "cleaning_up ctx evac st =
     (let name = name_any (ev_meta evac) in
      bnd (need ''no source recorded'' (s_source st)) (\<lambda>source.
      bnd (case s_transfer st of
             None \<Rightarrow> ret True
           | Some t \<Rightarrow> cleanup_transfer_crs ctx name (ts_attempt t) st) (\<lambda>gone.
      if \<not> gone then wait name st ''waiting for transfer CRs to clean up'' 10
      else
        bnd (destroy_target_snapshot ctx name st) (\<lambda>(msg_o, st'). (case msg_o of
          Some msg \<Rightarrow> wait name st' msg 5
        | None \<Rightarrow>
            bnd (get_zv ctx (si_volume_handle source)) (\<lambda>zv_o. (case zv_o of
              Some zv \<Rightarrow>
                bnd (destroy_source ctx name source (being_deleted (zv_meta zv))) (\<lambda>_.
                  wait name st' ''waiting for source dataset destruction'' 10)
            | None \<Rightarrow> finish evac st')))))))"

section \<open>Reconcile\<close>

definition handle_phase :: "ctx \<Rightarrow> zfs_evacuation \<Rightarrow> evac_status \<Rightarrow> action prog" where
  "handle_phase ctx evac st =
     (case s_phase st of
        Pending \<Rightarrow> pending ctx evac st
      | Guarding \<Rightarrow> guarding ctx evac st
      | Retaining \<Rightarrow> retaining ctx evac st
      | Locking \<Rightarrow> locking ctx evac st
      | Quiescing \<Rightarrow> quiescing ctx evac st
      | TargetSelecting \<Rightarrow> target_selecting ctx evac st
      | Transferring \<Rightarrow> transferring ctx evac st
      | Adopting \<Rightarrow> adopting ctx evac st
      | Committing \<Rightarrow> committing ctx evac st
      | Swapping \<Rightarrow> swapping ctx evac st
      | CleaningUp \<Rightarrow> cleaning_up ctx evac st
      | _ \<Rightarrow> throw (E_msg ''internal error: entered unreachable code''))"

definition reconcile :: "ctx \<Rightarrow> zfs_evacuation \<Rightarrow> action prog" where
  "reconcile ctx evac =
     (let name = name_any (ev_meta evac);
          st = unwrap_or (ev_status evac) default_status;
          deleted = being_deleted (ev_meta evac) in
      if s_phase st \<in> {Completed, Failed}
      then bnd (if deleted then remove_evac_finalizer name else ret ()) (\<lambda>_. ret Await_change)
      else if deleted \<and> \<not> s_committed st
      then abort_run ctx evac (st\<lparr>s_message := Some ''ZFSEvacuation deleted before commit; aborting''\<rparr>)
      else
        bnd (if deleted then ret () else ensure_evac_finalizer evac) (\<lambda>_.
        if s_phase st = Aborting then abort_run ctx evac st
        else
          bnd (if s_committed st then ret None else cancel_reason ctx evac st) (\<lambda>cancel. (case cancel of
            Some reason \<Rightarrow>
              bnd (write_status name (st\<lparr>s_phase := Aborting, s_cancelled := True, s_message := Some reason\<rparr>)) (\<lambda>_.
                requeue_secs 1)
          | None \<Rightarrow> handle_phase ctx evac st))))"

definition error_policy :: "error \<Rightarrow> action" where
  "error_policy e = Requeue (Secs 15)"

end
