(* ===== verification/Trace_Rules.thy ===== *)
theory Trace_Rules
  imports Evac_Machine
begin

text \<open>
  Rules for properties of the order of calls: \<open>safe G p h\<close> says that, started after the calls
  \<open>h\<close>, every call of \<open>p\<close> satisfies the guard \<open>G\<close> in every run. The rule of a read adds the
  request and its decoded answer to the history, so a guard can ask what was seen before.
\<close>

section \<open>Guarded programs\<close>

named_theorems safe_intros \<open>introduction rules for guarded programs\<close>

definition safe :: "(trace \<Rightarrow> req \<Rightarrow> bool) \<Rightarrow> 'a prog \<Rightarrow> trace \<Rightarrow> bool" where
  "safe G p h \<longleftrightarrow> vc G p (\<lambda>_ _. True) h"

lemma safe_runs: "safe G p [] \<Longrightarrow> runs p (xs @ (q, a) # ys) \<Longrightarrow> G xs q"
  unfolding safe_def using runs_guard [where h = "[]"] by fastforce

lemma safe_Done [safe_intros]: "safe G (Done r) h"
  by (simp add: safe_def)

lemma safe_CallI [safe_intros]: "G h q \<Longrightarrow> (\<And>a. safe G (k a) (h @ [(q, a)])) \<Longrightarrow> safe G (Call q k) h"
  by (simp add: safe_def)

lemma safe_MemI [safe_intros]: "(\<And>m. safe G (k m) h) \<Longrightarrow> safe G (Mem g k) h"
  by (simp add: safe_def)

lemma safe_ifI [safe_intros]: "(b \<Longrightarrow> safe G p h) \<Longrightarrow> (\<not> b \<Longrightarrow> safe G p' h) \<Longrightarrow> safe G (if b then p else p') h"
  by simp

lemma safe_optionI [safe_intros]:
  "(o1 = None \<Longrightarrow> safe G p h) \<Longrightarrow> (\<And>x. o1 = Some x \<Longrightarrow> safe G (f x) h)
     \<Longrightarrow> safe G (case o1 of None \<Rightarrow> p | Some x \<Rightarrow> f x) h"
  by (cases o1) simp_all

lemma safe_listI [safe_intros]:
  "(xs = [] \<Longrightarrow> safe G p h) \<Longrightarrow> (\<And>y ys. xs = y # ys \<Longrightarrow> safe G (f y ys) h)
     \<Longrightarrow> safe G (case xs of [] \<Rightarrow> p | y # ys \<Rightarrow> f y ys) h"
  by (cases xs) simp_all

lemma safe_prodI [safe_intros]:
  "(\<And>x y. z = (x, y) \<Longrightarrow> safe G (f x y) h) \<Longrightarrow> safe G (case z of (x, y) \<Rightarrow> f x y) h"
  by (cases z) simp

lemma safe_sumI [safe_intros]:
  "(\<And>x. s = Inl x \<Longrightarrow> safe G (f x) h) \<Longrightarrow> (\<And>y. s = Inr y \<Longrightarrow> safe G (g y) h)
     \<Longrightarrow> safe G (case s of Inl x \<Rightarrow> f x | Inr y \<Rightarrow> g y) h"
  by (cases s) simp_all

lemma safe_LetI [safe_intros]: "(\<And>x. x = t \<Longrightarrow> safe G (f x) h) \<Longrightarrow> safe G (Let t f) h"
  by simp

text \<open>A part of a program of which only its requests are known.\<close>

lemma safe_calls:
  "calls P p (\<lambda>_. True) \<Longrightarrow> (\<And>q t. P q \<Longrightarrow> G (h @ t) q) \<Longrightarrow> safe G p h"
  unfolding safe_def by (erule vc_frame) simp_all

lemma safe_bnd_calls:
  assumes "calls P p S" and "\<And>q t. P q \<Longrightarrow> G (h @ t) q"
    and "\<And>x t. S (Inr x) \<Longrightarrow> safe G (f x) (h @ t)"
  shows "safe G (bnd p f) h"
proof -
  have "vc G p (\<lambda>r h'. S r \<and> (\<exists>t. h' = h @ t)) h"
    by (rule vc_frame [OF assms(1)]) (use assms(2) in auto)
  then show ?thesis
    unfolding safe_def by (rule vc_bnd_using) (use assms(3) in \<open>auto simp: safe_def\<close>)
qed

lemma calls_any: "calls (\<lambda>_. True) p (\<lambda>_. True)"
  by (induction p) simp_all

text \<open>Sequencing when the first part is guarded as well.\<close>

lemma safe_bnd_vc:
  assumes "vc G p S h" and "\<And>x h'. S (Inr x) h' \<Longrightarrow> safe G (f x) h'"
  shows "safe G (bnd p f) h"
  using assms unfolding safe_def by (auto intro: vc_bnd_using)

lemma safe_bnd:
  assumes "safe G p h" and "\<And>x t. safe G (f x) (h @ t)"
  shows "safe G (bnd p f) h"
proof -
  have "vc (\<lambda>h q. G h q \<and> True) p (\<lambda>r h'. True \<and> (\<exists>t. h' = h @ t)) h"
    by (rule vc_conj [OF assms(1) [unfolded safe_def] vc_extends])
  then have "vc G p (\<lambda>r h'. \<exists>t. h' = h @ t) h" by (rule vc_mono) auto
  then show ?thesis by (rule safe_bnd_vc) (use assms(2) in auto)
qed

lemma safe_bnd_Done: "(\<And>x. r = Inr x \<Longrightarrow> safe G (f x) h) \<Longrightarrow> safe G (bnd (Done r) f) h"
  by (cases r) (simp_all add: safe_def)

lemma safe_bnd_need: "(\<And>x. o1 = Some x \<Longrightarrow> safe G (f x) h) \<Longrightarrow> safe G (bnd (need m o1) f) h"
  by (cases o1) (simp_all add: need_def safe_def)

lemma safe_mono: "safe G p h \<Longrightarrow> (\<And>h q. G h q \<Longrightarrow> G' h q) \<Longrightarrow> safe G' p h"
  unfolding safe_def by (erule vc_mono)

section \<open>Reads\<close>

lemma safe_bnd_ask:
  "G h q \<Longrightarrow> (\<And>a x. d a = Inr x \<Longrightarrow> safe G (f x) (h @ [(q, a)])) \<Longrightarrow> safe G (bnd (ask q d) f) h"
  by (auto simp: safe_def ask_def split: sum.split)

lemma as_opt_Inr:
  "as_opt f a = Inr o1 \<longleftrightarrow> (case o1 of None \<Rightarrow> a = R_none | Some y \<Rightarrow> (\<exists>x. a = R_obj x \<and> f x = Some y))"
  by (auto simp: as_opt_def split: resp.splits option.splits)

lemma as_list_Inr: "as_list f a = Inr ys \<longleftrightarrow> (\<exists>xs. a = R_objs xs \<and> those (map f xs) = Some ys)"
  by (auto simp: as_list_def split: resp.splits option.splits)

lemma as_unit_Inr: "as_unit a = Inr u \<longleftrightarrow> (\<forall>e. a \<noteq> R_err e)"
  by (auto simp: as_unit_def split: resp.splits)

lemma un_Some [simp]:
  "un_pv x = Some a1 \<longleftrightarrow> x = O_pv a1" "un_node x = Some a2 \<longleftrightarrow> x = O_node a2" "un_pvc x = Some a3 \<longleftrightarrow> x = O_pvc a3"
  "un_pod x = Some a4 \<longleftrightarrow> x = O_pod a4" "un_sc x = Some a5 \<longleftrightarrow> x = O_sc a5" "un_zv x = Some a6 \<longleftrightarrow> x = O_zv a6"
  "un_snap x = Some a7 \<longleftrightarrow> x = O_snap a7" "un_bkp x = Some a8 \<longleftrightarrow> x = O_bkp a8" "un_rst x = Some a9 \<longleftrightarrow> x = O_rst a9"
  "un_znode x = Some a10 \<longleftrightarrow> x = O_znode a10" "un_evac x = Some a11 \<longleftrightarrow> x = O_evac a11"
  "un_params x = Some a12 \<longleftrightarrow> x = O_params a12" "un_lease x = Some a13 \<longleftrightarrow> x = O_lease a13"
  by (auto simp: un_defs split: obj.splits)

lemma those_Some: "those (map f xs) = Some ys \<longleftrightarrow> map f xs = map Some ys"
proof (induction xs arbitrary: ys)
  case (Cons x xs)
  show ?case by (cases ys) (auto simp: Cons.IH split: option.splits)
qed auto

definition opt_obj :: "('a \<Rightarrow> obj) \<Rightarrow> 'a option \<Rightarrow> resp" where
  "opt_obj c o1 = (case o1 of None \<Rightarrow> R_none | Some x \<Rightarrow> R_obj (c x))"

lemma opt_obj_simps [simp]: "opt_obj c None = R_none" "opt_obj c (Some x) = R_obj (c x)"
  by (simp_all add: opt_obj_def)

lemma safe_bnd_ask_opt:
  assumes "G h q" and "\<And>y z. un y = Some z \<longleftrightarrow> y = c z"
    and "\<And>x. safe G (f x) (h @ [(q, opt_obj c x)])"
  shows "safe G (bnd (ask q (as_opt un)) f) h"
proof (rule safe_bnd_ask)
  show "G h q" by fact
  fix a x assume "as_opt un a = Inr x"
  then have "a = opt_obj c x" using assms(2) by (cases x) (auto simp: as_opt_Inr)
  with assms(3) show "safe G (f x) (h @ [(q, a)])" by simp
qed

lemma safe_bnd_get:
  "G h (Get K_PV [] n) \<Longrightarrow> (\<And>x. safe G (f1 x) (h @ [(Get K_PV [] n, opt_obj O_pv x)])) \<Longrightarrow> safe G (bnd (get_pv n) f1) h"
  "G h (Get K_Node [] n) \<Longrightarrow> (\<And>x. safe G (f2 x) (h @ [(Get K_Node [] n, opt_obj O_node x)])) \<Longrightarrow> safe G (bnd (get_node n) f2) h"
  "G h (Get K_PVC ns n) \<Longrightarrow> (\<And>x. safe G (f3 x) (h @ [(Get K_PVC ns n, opt_obj O_pvc x)])) \<Longrightarrow> safe G (bnd (get_pvc ns n) f3) h"
  "G h (Get K_ZFSVolume (openebs_ns ctx) n) \<Longrightarrow> (\<And>x. safe G (f4 x) (h @ [(Get K_ZFSVolume (openebs_ns ctx) n, opt_obj O_zv x)])) \<Longrightarrow> safe G (bnd (get_zv ctx n) f4) h"
  "G h (Get K_ZFSSnapshot (openebs_ns ctx) n) \<Longrightarrow> (\<And>x. safe G (f5 x) (h @ [(Get K_ZFSSnapshot (openebs_ns ctx) n, opt_obj O_snap x)])) \<Longrightarrow> safe G (bnd (get_snap ctx n) f5) h"
  "G h (Get K_ZFSBackup (openebs_ns ctx) n) \<Longrightarrow> (\<And>x. safe G (f6 x) (h @ [(Get K_ZFSBackup (openebs_ns ctx) n, opt_obj O_bkp x)])) \<Longrightarrow> safe G (bnd (get_bkp ctx n) f6) h"
  "G h (Get K_ZFSRestore (openebs_ns ctx) n) \<Longrightarrow> (\<And>x. safe G (f7 x) (h @ [(Get K_ZFSRestore (openebs_ns ctx) n, opt_obj O_rst x)])) \<Longrightarrow> safe G (bnd (get_rst ctx n) f7) h"
  "G h (Get K_Evacuation [] n) \<Longrightarrow> (\<And>x. safe G (f8 x) (h @ [(Get K_Evacuation [] n, opt_obj O_evac x)])) \<Longrightarrow> safe G (bnd (get_evac n) f8) h"
  unfolding call_defs by (rule safe_bnd_ask_opt, assumption, rule un_Some, blast)+

lemma safe_bnd_list:
  "G h (List_all K_Pod ns None) \<Longrightarrow> (\<And>xs. safe G (f1 xs) (h @ [(List_all K_Pod ns None, R_objs (map O_pod xs))])) \<Longrightarrow> safe G (bnd (list_pods ns) f1) h"
  "G h (List_all K_Evacuation [] None) \<Longrightarrow> (\<And>xs. safe G (f2 xs) (h @ [(List_all K_Evacuation [] None, R_objs (map O_evac xs))])) \<Longrightarrow> safe G (bnd list_evacs f2) h"
  "G h (List_all K_Node [] None) \<Longrightarrow> (\<And>xs. safe G (f3 xs) (h @ [(List_all K_Node [] None, R_objs (map O_node xs))])) \<Longrightarrow> safe G (bnd list_nodes f3) h"
proof -
  have eq: "map un xs = map Some ys \<Longrightarrow> (\<And>x y. un x = Some y \<longleftrightarrow> x = c y) \<Longrightarrow> xs = map c ys"
    for un :: "obj \<Rightarrow> 'x option" and xs ys c
    by (induction xs arbitrary: ys) (auto simp: map_eq_Cons_conv Cons_eq_map_conv)
  show "G h (List_all K_Pod ns None) \<Longrightarrow> (\<And>xs. safe G (f1 xs) (h @ [(List_all K_Pod ns None, R_objs (map O_pod xs))])) \<Longrightarrow> safe G (bnd (list_pods ns) f1) h"
    unfolding call_defs by (rule safe_bnd_ask) (auto simp: as_list_Inr those_Some dest!: eq [OF _ un_Some(4)])
  show "G h (List_all K_Evacuation [] None) \<Longrightarrow> (\<And>xs. safe G (f2 xs) (h @ [(List_all K_Evacuation [] None, R_objs (map O_evac xs))])) \<Longrightarrow> safe G (bnd list_evacs f2) h"
    unfolding call_defs by (rule safe_bnd_ask) (auto simp: as_list_Inr those_Some dest!: eq [OF _ un_Some(11)])
  show "G h (List_all K_Node [] None) \<Longrightarrow> (\<And>xs. safe G (f3 xs) (h @ [(List_all K_Node [] None, R_objs (map O_node xs))])) \<Longrightarrow> safe G (bnd list_nodes f3) h"
    unfolding call_defs by (rule safe_bnd_ask) (auto simp: as_list_Inr those_Some dest!: eq [OF _ un_Some(2)])
qed

lemma safe_bnd_pods:
  "G h (List_all K_Pod ns None)
     \<Longrightarrow> (\<And>all. safe G (f (filter (\<lambda>p. pod_references_pvc p pvc) all)) (h @ [(List_all K_Pod ns None, R_objs (map O_pod all))]))
     \<Longrightarrow> safe G (bnd (pods_referencing_pvc ns pvc) f) h"
proof -
  assume G: "G h (List_all K_Pod ns None)"
    and f: "\<And>all. safe G (f (filter (\<lambda>p. pod_references_pvc p pvc) all)) (h @ [(List_all K_Pod ns None, R_objs (map O_pod all))])"
  have assoc: "bnd (bnd p k) f = bnd p (\<lambda>x. bnd (k x) f)" for p :: "pod list prog" and k
    by (induction p) (auto split: sum.split)
  show ?thesis unfolding pods_referencing_pvc_def assoc
    by (rule safe_bnd_list(1)) (use G f in \<open>simp_all add: safe_def\<close>)
qed

end
