(* ===== verification/Status_Invariant.thy ===== *)
theory Status_Invariant
  imports Evac_Machine
begin

text \<open>
  The status as an abstract state machine: the documented phase graph, the step a single status
  write may make, and the invariant of every status the controller ever records. The detailed
  handlers refine the abstract step; the invariant is then a property of the abstract machine.
\<close>

section \<open>The phase graph\<close>

inductive phase_edge :: "phase \<Rightarrow> phase \<Rightarrow> bool" where
  "phase_edge Pending Guarding"
| "phase_edge Pending Failed"
| "phase_edge Guarding Retaining"
| "phase_edge Retaining Locking"
| "phase_edge Locking Quiescing"
| "phase_edge Quiescing TargetSelecting"
| "phase_edge TargetSelecting Transferring"
| "phase_edge TargetSelecting Failed"
| "phase_edge Transferring Adopting"
| "phase_edge Adopting Committing"
| "phase_edge Committing Swapping"
| "phase_edge Committing Failed"
| "phase_edge Swapping CleaningUp"
| "phase_edge CleaningUp Completed"
| "p < Swapping \<Longrightarrow> phase_edge p Aborting"
| "phase_edge Aborting Failed"

inductive_simps phase_edge_from:
  "phase_edge Pending q" "phase_edge Guarding q" "phase_edge Retaining q" "phase_edge Locking q"
  "phase_edge Quiescing q" "phase_edge TargetSelecting q" "phase_edge Transferring q"
  "phase_edge Adopting q" "phase_edge Committing q" "phase_edge Swapping q"
  "phase_edge CleaningUp q" "phase_edge Completed q" "phase_edge Aborting q" "phase_edge Failed q"

declare phase_edge.intros [simp, intro]

code_pred phase_edge .

definition stays_or_edge :: "phase \<Rightarrow> phase \<Rightarrow> bool" where
  "stays_or_edge p q \<longleftrightarrow> q = p \<or> phase_edge p q"

lemma stays_or_edgeI [simp, intro]: "stays_or_edge p p" "phase_edge p q \<Longrightarrow> stays_or_edge p q"
  by (simp_all add: stays_or_edge_def)

lemma phase_edge_increases: "phase_edge p q \<Longrightarrow> p < q"
  by (induction rule: phase_edge.induct) (auto simp: less_phase_def)

lemma precommit_phases: "p < Swapping \<longleftrightarrow> p \<in> {Pending, Guarding, Retaining, Locking, Quiescing,
   TargetSelecting, Transferring, Adopting, Committing}"
  by (cases p) (simp_all add: less_phase_def)

lemmas phase_less = less_phase_def less_eq_phase_def

section \<open>One status write\<close>

text \<open>The attempt record: unchanged identity, or a fresh one with the next number.\<close>

definition same_attempt :: "transfer_status option \<Rightarrow> transfer_status option \<Rightarrow> bool" where
  "same_attempt o1 o2 \<longleftrightarrow> (case (o1, o2) of
     (None, None) \<Rightarrow> True
   | (Some t, Some t') \<Rightarrow> ts_attempt t' = ts_attempt t \<and> ts_snap_name t' = ts_snap_name t
       \<and> ts_ports t' = ts_ports t \<and> ts_started_at t' = ts_started_at t
       \<and> (ts_target_snap_delete_issued t \<longrightarrow> ts_target_snap_delete_issued t')
   | _ \<Rightarrow> False)"

definition next_attempt :: "u32 \<Rightarrow> transfer_status option \<Rightarrow> transfer_status option \<Rightarrow> bool" where
  "next_attempt mx o1 o2 \<longleftrightarrow> (case (o1, o2) of
     (None, Some t') \<Rightarrow> ts_attempt t' = 1
   | (Some t, Some t') \<Rightarrow> ts_attempt t < mx \<and> ts_attempt t' = ts_attempt t + 1
   | _ \<Rightarrow> False)"

definition transfer_step :: "u32 \<Rightarrow> phase \<Rightarrow> transfer_status option \<Rightarrow> transfer_status option \<Rightarrow> bool" where
  "transfer_step mx p o1 o2 \<longleftrightarrow> same_attempt o1 o2 \<or> (p = Transferring \<and> next_attempt mx o1 o2)"

definition source_step :: "evac_status \<Rightarrow> evac_status \<Rightarrow> bool" where
  "source_step st st' \<longleftrightarrow>
     (s_pvc_ref st' = s_pvc_ref st \<and> s_source st' = s_source st
        \<and> s_original_reclaim_policy st' = s_original_reclaim_policy st
        \<and> \<not> (s_phase st = Pending \<and> s_phase st' = Guarding))
   \<or> (s_phase st = Pending \<and> s_phase st' = Guarding \<and> s_pvc_ref st' \<noteq> None \<and> s_source st' \<noteq> None)"

definition good_target :: "evac_status \<Rightarrow> bool" where
  "good_target st \<longleftrightarrow> (\<exists>src t r. s_source st = Some src \<and> s_target st = Some t
     \<and> ti_node_id t \<noteq> si_node_id src \<and> ti_new_volume_handle t = handle_of r)"

definition target_step :: "evac_status \<Rightarrow> evac_status \<Rightarrow> bool" where
  "target_step st st' \<longleftrightarrow>
     (s_target st' = s_target st \<and> s_colocation st' = s_colocation st
        \<and> \<not> (s_phase st = TargetSelecting \<and> s_phase st' = Transferring))
   \<or> (s_phase st = TargetSelecting \<and> s_phase st' = Transferring \<and> good_target st')"

definition commit_step :: "evac_status \<Rightarrow> evac_status \<Rightarrow> bool" where
  "commit_step st st' \<longleftrightarrow>
     (s_committed st' = s_committed st \<and> s_old_pv_manifest st' = s_old_pv_manifest st
        \<and> s_new_pv_manifest st' = s_new_pv_manifest st
        \<and> \<not> (s_phase st = Committing \<and> s_phase st' = Swapping))
   \<or> (s_phase st = Committing \<and> s_phase st' = Swapping \<and> s_committed st'
        \<and> s_old_pv_manifest st' \<noteq> None \<and> s_new_pv_manifest st' \<noteq> None)"

definition status_step :: "u32 \<Rightarrow> evac_status \<Rightarrow> evac_status \<Rightarrow> bool" where
  "status_step mx st st' \<longleftrightarrow>
     stays_or_edge (s_phase st) (s_phase st')
   \<and> source_step st st' \<and> target_step st st' \<and> commit_step st st'
   \<and> transfer_step mx (s_phase st) (s_transfer st) (s_transfer st')
   \<and> (s_phase st = Transferring \<and> s_phase st' = Adopting \<longrightarrow> s_transfer st' \<noteq> None)
   \<and> (s_cancelled st' \<longrightarrow> s_cancelled st \<or> s_phase st' = Aborting)
   \<and> (s_phase st' = Completed \<longrightarrow> s_message st' = None)"

lemma same_attempt_refl [simp]: "same_attempt o1 o1"
  by (simp add: same_attempt_def split: option.split)

lemma same_attempt_edits [simp]:
  "same_attempt (s_transfer st) (s_transfer (note_failure r st))"
  "same_attempt (s_transfer st) (s_transfer (set_bytes b st))"
  "same_attempt (s_transfer st) (s_transfer (note_delete_issued st))"
  by (simp_all add: note_failure_def set_bytes_def note_delete_issued_def same_attempt_def split: option.split)

lemma same_attempt_edits_Some [simp]:
  "s_transfer st = Some t \<Longrightarrow> same_attempt (Some t) (s_transfer (note_failure r st))"
  "s_transfer st = Some t \<Longrightarrow> same_attempt (Some t) (s_transfer (set_bytes b st))"
  "s_transfer st = Some t \<Longrightarrow> same_attempt (Some t) (s_transfer (note_delete_issued st))"
  by (metis same_attempt_edits)+

text \<open>The three edits of the attempt record leave everything else alone.\<close>

lemma transfer_edits [simp]:
  "s_phase (note_failure r st) = s_phase st" "s_phase (set_bytes b st) = s_phase st" "s_phase (note_delete_issued st) = s_phase st"
  "s_pvc_ref (note_failure r st) = s_pvc_ref st" "s_pvc_ref (set_bytes b st) = s_pvc_ref st" "s_pvc_ref (note_delete_issued st) = s_pvc_ref st"
  "s_source (note_failure r st) = s_source st" "s_source (set_bytes b st) = s_source st" "s_source (note_delete_issued st) = s_source st"
  "s_target (note_failure r st) = s_target st" "s_target (set_bytes b st) = s_target st" "s_target (note_delete_issued st) = s_target st"
  "s_colocation (note_failure r st) = s_colocation st" "s_colocation (set_bytes b st) = s_colocation st" "s_colocation (note_delete_issued st) = s_colocation st"
  "s_original_reclaim_policy (note_failure r st) = s_original_reclaim_policy st"
  "s_original_reclaim_policy (set_bytes b st) = s_original_reclaim_policy st"
  "s_original_reclaim_policy (note_delete_issued st) = s_original_reclaim_policy st"
  "s_old_pv_manifest (note_failure r st) = s_old_pv_manifest st" "s_old_pv_manifest (set_bytes b st) = s_old_pv_manifest st"
  "s_old_pv_manifest (note_delete_issued st) = s_old_pv_manifest st"
  "s_new_pv_manifest (note_failure r st) = s_new_pv_manifest st" "s_new_pv_manifest (set_bytes b st) = s_new_pv_manifest st"
  "s_new_pv_manifest (note_delete_issued st) = s_new_pv_manifest st"
  "s_committed (note_failure r st) = s_committed st" "s_committed (set_bytes b st) = s_committed st" "s_committed (note_delete_issued st) = s_committed st"
  "s_cancelled (note_failure r st) = s_cancelled st" "s_cancelled (set_bytes b st) = s_cancelled st" "s_cancelled (note_delete_issued st) = s_cancelled st"
  "s_message (note_failure r st) = s_message st" "s_message (set_bytes b st) = s_message st" "s_message (note_delete_issued st) = s_message st"
  by (simp_all add: note_failure_def set_bytes_def note_delete_issued_def split: option.split)

lemma transfer_edits_None [simp]:
  "s_transfer (note_failure r st) = None \<longleftrightarrow> s_transfer st = None"
  "s_transfer (set_bytes b st) = None \<longleftrightarrow> s_transfer st = None"
  "s_transfer (note_delete_issued st) = None \<longleftrightarrow> s_transfer st = None"
  by (simp_all add: note_failure_def set_bytes_def note_delete_issued_def split: option.split)

section \<open>Status writes of a program\<close>

definition status_req :: "(evac_status \<Rightarrow> bool) \<Rightarrow> req \<Rightarrow> bool" where
  "status_req W q = (case q of Patch_status n st \<Rightarrow> W st | _ \<Rightarrow> True)"

lemma status_req_simps [simp]:
  "status_req W (Patch_status n st) \<longleftrightarrow> W st"
  "status_req W (Get k ns n)" "status_req W (List_all k ns sel)" "status_req W (Create k ns x)"
  "status_req W (Replace k ns n x)" "status_req W (Delete k ns n)" "status_req W (Patch_merge k ns n p)"
  "status_req W Now" "status_req W Rand_u128" "status_req W Rand_u16" "status_req W (Spawn_relay bs rs)"
  "status_req W (Relay_load t)" "status_req W (Abort_task t)" "status_req W Selection_lock"
  "status_req W Selection_unlock"
  by (simp_all add: status_req_def)

lemma status_req_params [simp]: "params_req q \<Longrightarrow> status_req W q"
  by (cases q) (simp_all add: params_req_def)

definition writes :: "(evac_status \<Rightarrow> bool) \<Rightarrow> 'a prog \<Rightarrow> bool" where
  "writes W p \<longleftrightarrow> calls (status_req W) p (\<lambda>_. True)"

lemma writes_mono: "writes W p \<Longrightarrow> (\<And>st. W st \<Longrightarrow> W' st) \<Longrightarrow> writes W' p"
  unfolding writes_def
  by (elim calls_mono) (auto simp: status_req_def split: req.splits)

lemmas step_defs = status_step_def source_step_def target_step_def commit_step_def transfer_step_def

section \<open>Every handler writes a legal successor\<close>

lemma writes_pending:
  "s_phase st = Pending \<Longrightarrow> writes (status_step mx st) (pending ctx evac st)"
  unfolding writes_def pending_def pending_source_def
  by (intro call_intros) (simp_all add: step_defs)

lemma writes_guarding:
  "s_phase st = Guarding \<Longrightarrow> writes (status_step mx st) (guarding ctx evac st)"
  unfolding writes_def guarding_def by (intro call_intros) (simp_all add: step_defs)

lemma writes_retaining:
  "s_phase st = Retaining \<Longrightarrow> writes (status_step mx st) (retaining ctx evac st)"
  unfolding writes_def retaining_def by (intro call_intros) (simp_all add: step_defs)

lemma writes_locking:
  "s_phase st = Locking \<Longrightarrow> writes (status_step mx st) (locking ctx evac st)"
  unfolding writes_def locking_def by (intro call_intros) (simp_all add: step_defs)

lemma calls_blocking_reason [call_intros]:
  "(\<And>n. P (Get K_Node [] n)) \<Longrightarrow> (\<And>r. R r) \<Longrightarrow> calls P (blocking_reason ctx evac st pods) R"
  unfolding blocking_reason_def source_repels_pods_def by (intro call_intros) simp_all

lemma writes_quiescing:
  "s_phase st = Quiescing \<Longrightarrow> writes (status_step mx st) (quiescing ctx evac st)"
  unfolding writes_def quiescing_def by (intro call_intros) (simp_all add: step_defs)

text \<open>Selecting a target only reads, and never answers with the source node.\<close>

lemma calls_select_reads [call_intros]:
  "(\<And>n. P (Get K_StorageClass [] n)) \<Longrightarrow> (\<And>r. R1 r) \<Longrightarrow> calls P (sc_poolname pv) R1"
  "(\<And>n. P (Get K_StorageClass [] n)) \<Longrightarrow> (\<And>r. R2 r) \<Longrightarrow> calls P (allowed_node_ids pv) R2"
  unfolding sc_poolname_def allowed_node_ids_def by (intro call_intros; simp)+

lemma choose_target_not_source:
  "choose_target tkey i nodes evacs dest allowed zns = Inr t \<Longrightarrow> ti_node_id t \<noteq> in_source_node_id i"
  by (elim choose_target_Inr) (auto simp: eligible_def skipped_def)

lemma calls_select_target:
  assumes "P (List_all K_Node [] None)" and "P (List_all K_Evacuation [] None)"
    and "\<And>n. P (Get K_StorageClass [] n)" and "P (List_all K_ZFSNode (openebs_ns ctx) None)"
  shows "calls P (select_target ctx i) (\<lambda>r. \<forall>t. r = Inr t \<longrightarrow> ti_node_id t \<noteq> in_source_node_id i)"
  unfolding select_target_def
  by (intro call_intros) (use assms in \<open>auto dest: choose_target_not_source\<close>)

lemma calls_resolve_members [call_intros]:
  assumes "\<And>k ns n. P (Get k ns n)" and "\<And>r. R r"
  shows "calls P (resolve_members ctx me pref src ns) R"
  using assms(2)
proof (induction ns arbitrary: R)
  case (Cons n ns)
  have "calls P (resolve_member ctx me pref src n) (\<lambda>_. True)"
    unfolding resolve_member_def by (intro call_intros) (simp_all add: assms(1))
  then show ?case unfolding resolve_members.simps
    by (intro call_intros Cons.IH) (simp_all add: Cons.prems)
qed simp

lemma calls_resolve_group [call_intros]:
  assumes "\<And>k ns n. P (Get k ns n)" and "\<And>r. R r"
  shows "calls P (resolve_group ctx me pref src pods) R"
  unfolding resolve_group_def by (intro call_intros) (simp_all add: assms)

lemma calls_handle:
  "P Rand_u128 \<Longrightarrow> calls P new_destination_handle (\<lambda>r. \<forall>h. r = Inr h \<longrightarrow> (\<exists>x. h = handle_of x))"
  by (auto simp: new_destination_handle_def ask_def)

lemma calls_try_with_using:
  "calls P p S \<Longrightarrow> (\<And>r. S r \<Longrightarrow> calls P (f r) R) \<Longrightarrow> calls P (try_with p f) R"
  unfolding calls_try_with by (erule calls_mono) simp_all

lemma writes_selected:
  assumes "s_phase st = TargetSelecting" and "s_source st = Some src" and "ti_node_id t \<noteq> si_node_id src"
  shows "calls (status_req (status_step mx st))
     (bnd new_destination_handle (\<lambda>handle. advance n (st\<lparr>s_colocation := c, s_target := Some (t\<lparr>ti_new_volume_handle := handle\<rparr>)\<rparr>) Transferring))
     (\<lambda>_. True)"
  by (rule calls_bnd_using [OF calls_handle])
    (use assms in \<open>auto simp: step_defs good_target_def intro!: call_intros\<close>)

lemma writes_target_selecting:
  assumes "s_phase st = TargetSelecting"
  shows "writes (status_step mx st) (target_selecting ctx evac st)"
proof -
  have sel: "calls (status_req (status_step mx st))
      (try_with (select_target ctx (selection_for evac source pv g)) (\<lambda>r. (case r of
        Inr t \<Rightarrow> bnd new_destination_handle (\<lambda>handle.
          advance n (st\<lparr>s_colocation := c, s_target := Some (t\<lparr>ti_new_volume_handle := handle\<rparr>)\<rparr>) Transferring)
      | Inl e \<Rightarrow> wait n st (m e) 60))) (\<lambda>_. True)"
    if "s_source st = Some source" for source pv g n c m
    by (rule calls_try_with_using [OF calls_select_target])
      (use assms that in \<open>auto simp: selection_for_def Let_def step_defs
        intro!: call_intros writes_selected split: sum.split\<close>)
  show ?thesis
    unfolding writes_def target_selecting_def
    by (intro call_intros calls_bnd_need sel) (simp_all add: assms step_defs)
qed

abbreviation max_attempts :: "zfs_evacuation \<Rightarrow> u32" where
  "max_attempts evac \<equiv> unwrap_or (es_max_attempts (ev_spec evac)) DEFAULT_MAX_ATTEMPTS"

lemma calls_relay_table [call_intros]:
  "(\<And>t. P (Relay_load t)) \<Longrightarrow> (\<And>r. R1 r) \<Longrightarrow> calls P (observe_relay n) R1"
  "(\<And>t. P (Abort_task t)) \<Longrightarrow> (\<And>r. R2 r) \<Longrightarrow> calls P (drop_relay n) R2"
  "(\<And>t. P (Abort_task t)) \<Longrightarrow> (\<And>r. R3 r) \<Longrightarrow> calls P (register_relay n a) R3"
  "(\<And>r. R4 r) \<Longrightarrow> calls P (relay_ports n) R4"
  "(\<And>bs rs. P (Spawn_relay bs rs)) \<Longrightarrow> (\<And>r. R5 r) \<Longrightarrow> calls P (spawn_relay b1 b2) R5"
  "P Rand_u16 \<Longrightarrow> (\<And>r. R6 r) \<Longrightarrow> calls P rand_u16 R6"
  "(\<And>r. R7 r) \<Longrightarrow> calls P (peers_of nd) R7"
  unfolding observe_relay_def drop_relay_def register_relay_def relay_ports_def spawn_relay_def
    rand_u16_def peers_of_def
  by (intro call_intros; simp)+

lemma writes_start_attempt:
  assumes "s_phase st = Transferring" and "next_attempt mx (s_transfer st0) (Some (new_attempt a [] (0, 0) []))"
    and "st = note_failure r st0 \<or> st = st0"
  shows "calls (status_req (status_step mx st0)) (start_attempt ctx evac st a) (\<lambda>_. True)"
proof -
  have n: "next_attempt mx (s_transfer st0) (Some (new_attempt a s p b))" for s p b
    using assms(2) by (simp add: next_attempt_def new_attempt_def split: option.splits)
  have ph: "s_phase st0 = Transferring" using assms(1,3) by auto
  show ?thesis
    unfolding start_attempt_def
    by (intro call_intros) (use n ph assms(3) in \<open>auto simp: step_defs\<close>)
qed

lemma calls_cleanup_cr [call_intros]:
  assumes "P (Delete k ns n)" and "\<And>nid. P (Get K_Node [] nid)" and "P (List_all K_Node [] None)"
    and "P (Get k ns n)" and "\<And>cur. P (Patch_merge k ns n (P_finalizers (remove_from [ZFS_FINALIZER] cur)))" and "\<And>r. R r"
  shows "calls P (cleanup_cr k ns n o1 nid) R"
  unfolding cleanup_cr_def by (intro call_intros) (simp_all add: assms)

text \<open>The two requests that tear an attempt down: a delete, or the removal of a dead node's finalizer.\<close>

definition strips_zfs :: "kind \<Rightarrow> string \<Rightarrow> string \<Rightarrow> req \<Rightarrow> bool" where
  "strips_zfs k ns n q \<longleftrightarrow> (\<exists>cur. q = Patch_merge k ns n (P_finalizers (remove_from [ZFS_FINALIZER] cur)))"

definition attempt_cleanup :: "ctx \<Rightarrow> string \<Rightarrow> u32 \<Rightarrow> req \<Rightarrow> bool" where
  "attempt_cleanup ctx name a q \<longleftrightarrow>
     q = Delete K_ZFSBackup (openebs_ns ctx) (bkp_name name a)
   \<or> q = Delete K_ZFSRestore (openebs_ns ctx) (rst_name name a)
   \<or> strips_zfs K_ZFSBackup (openebs_ns ctx) (bkp_name name a) q
   \<or> strips_zfs K_ZFSRestore (openebs_ns ctx) (rst_name name a) q"

lemma attempt_cleanupI [simp]:
  "attempt_cleanup ctx name a (Delete K_ZFSBackup (openebs_ns ctx) (bkp_name name a))"
  "attempt_cleanup ctx name a (Delete K_ZFSRestore (openebs_ns ctx) (rst_name name a))"
  "attempt_cleanup ctx name a (Patch_merge K_ZFSBackup (openebs_ns ctx) (bkp_name name a) (P_finalizers (remove_from [ZFS_FINALIZER] cur)))"
  "attempt_cleanup ctx name a (Patch_merge K_ZFSRestore (openebs_ns ctx) (rst_name name a) (P_finalizers (remove_from [ZFS_FINALIZER] cur)))"
  by (auto simp: attempt_cleanup_def strips_zfs_def)

lemma status_req_cleanup [simp]: "attempt_cleanup ctx name a q \<Longrightarrow> status_req W q"
  by (auto simp: attempt_cleanup_def strips_zfs_def)

lemma calls_cleanup_transfer_crs [call_intros]:
  assumes "\<And>k ns n. P (Get k ns n)" and "P (List_all K_Node [] None)"
    and "\<And>q. attempt_cleanup ctx name a q \<Longrightarrow> P q" and "\<And>r. R r"
  shows "calls P (cleanup_transfer_crs ctx name a st) R"
  unfolding cleanup_transfer_crs_def by (intro call_intros) (simp_all add: assms)

lemma writes_retry_or_fail:
  assumes "s_phase st = Transferring" and "s_transfer st = Some t"
  shows "calls (status_req (status_step (max_attempts evac) st)) (retry_or_fail ctx evac st t (max_attempts evac) r) (\<lambda>_. True)"
  unfolding retry_or_fail_def
  by (intro call_intros writes_start_attempt [where r = r])
    (use assms in \<open>auto simp: step_defs precommit_phases next_attempt_def new_attempt_def\<close>)

lemma calls_create_restore [call_intros]:
  assumes "\<And>n. P (Get K_ZFSVolume (openebs_ns ctx) n)"
    and "\<And>x. rs_meta x = named_meta (rst_name n a) \<Longrightarrow> P (Create K_ZFSRestore (openebs_ns ctx) (O_rst x))"
    and "\<And>r. R r"
  shows "calls P (create_restore ctx st n a p) R"
  unfolding create_restore_def by (intro call_intros) (simp_all add: assms ZFSRestore_new_def)

lemma writes_transferring:
  assumes "s_phase st = Transferring"
  shows "writes (status_step (max_attempts evac) st) (transferring ctx evac st)"
proof (cases "s_transfer st")
  case None
  have "calls (status_req (status_step (max_attempts evac) st)) (start_attempt ctx evac st 1) (\<lambda>_. True)"
    by (rule writes_start_attempt [where r = "[]"])
      (use assms None in \<open>simp_all add: next_attempt_def new_attempt_def\<close>)
  then show ?thesis by (simp add: writes_def transferring_def None Let_def)
next
  case (Some t)
  have "calls (status_req (status_step (max_attempts evac) st)) (act_on_verdict ctx evac st t v) (\<lambda>_. True)" for v
    unfolding act_on_verdict_def Let_def
    by (cases v; simp only: attempt_verdict.simps; intro call_intros writes_retry_or_fail)
      (use assms Some in \<open>auto simp: step_defs set_bytes_def same_attempt_def split: option.split\<close>)
  then show ?thesis
    unfolding writes_def transferring_def Some
    by (simp only: option.simps) (intro call_intros, simp_all)
qed

lemma writes_adopting:
  "s_phase st = Adopting \<Longrightarrow> writes (status_step mx st) (adopting ctx evac st)"
  unfolding writes_def adopting_def by (intro call_intros) (simp_all add: step_defs precommit_phases)

lemma writes_committing:
  "s_phase st = Committing \<Longrightarrow> writes (status_step mx st) (committing ctx evac st)"
  unfolding writes_def committing_def
  by (intro call_intros) (simp_all add: step_defs precommit_phases commit_record_def)

lemma writes_swapping:
  "s_phase st = Swapping \<Longrightarrow> writes (status_step mx st) (swapping ctx evac st)"
  unfolding writes_def swapping_def by (intro call_intros) (simp_all add: step_defs)

text \<open>CleaningUp edits the attempt record on the way; what it hands on is the edited status.\<close>

lemma calls_mark [call_intros]:
  "P (Patch_status n (note_delete_issued st)) \<Longrightarrow> (\<And>e. R (Inl e)) \<Longrightarrow> R (Inr (note_delete_issued st))
     \<Longrightarrow> calls P (mark_target_snap_delete_issued n st) R"
  unfolding mark_target_snap_delete_issued_def by (intro call_intros) simp_all

lemma calls_destroy_target_snapshot:
  assumes "\<And>k ns n. P (Get k ns n)" and "P (List_all K_Node [] None)"
    and "\<And>t tg i. s_transfer st = Some t \<Longrightarrow> P (Create K_ZFSSnapshot (openebs_ns ctx) (O_snap (target_snapshot_cr tg (ts_snap_name t) i)))"
    and "\<And>t. s_transfer st = Some t \<Longrightarrow> P (Delete K_ZFSSnapshot (openebs_ns ctx) (ts_snap_name t))"
    and "\<And>t cur. s_transfer st = Some t \<Longrightarrow> P (Patch_merge K_ZFSSnapshot (openebs_ns ctx) (ts_snap_name t) (P_finalizers (remove_from [ZFS_FINALIZER] cur)))"
    and "P (Patch_status name (note_delete_issued st))"
  shows "calls P (destroy_target_snapshot ctx name st)
           (\<lambda>r. \<forall>m st'. r = Inr (m, st') \<longrightarrow> st' = st \<or> st' = note_delete_issued st)"
proof -
  let ?R = "\<lambda>st'. st' = st \<or> st' = note_delete_issued st"
  have mark: "calls P (bnd (mark_target_snap_delete_issued name st) (\<lambda>st'. ret (m, st')))
      (\<lambda>r. \<forall>m st'. r = Inr (m, st') \<longrightarrow> ?R st')" for m :: "string option"
    by (rule calls_bnd_using [where S = "\<lambda>r. \<forall>x. r = Inr x \<longrightarrow> ?R x"])
      (auto intro!: call_intros assms(6))
  have drop: "calls P (bnd (if g then bnd (delete_obj K_ZFSSnapshot (openebs_ns ctx) (ts_snap_name t)) (\<lambda>_. mark_target_snap_delete_issued name st) else ret st)
      (\<lambda>st'. ret (m, st'))) (\<lambda>r. \<forall>m st'. r = Inr (m, st') \<longrightarrow> ?R st')" if "s_transfer st = Some t" for m :: "string option" and g t
    by (rule calls_bnd_using [where S = "\<lambda>r. \<forall>x. r = Inr x \<longrightarrow> ?R x"])
      (auto intro!: call_intros assms simp: that)
  show ?thesis
  proof (cases "s_transfer st"; cases "s_target st")
    fix t tg assume "s_transfer st = Some t" "s_target st = Some tg"
    then show ?thesis
      unfolding destroy_target_snapshot_def
      by (simp only: option.simps prod.simps) (intro mark drop [of t] call_intros; simp add: assms)
  qed (auto simp: destroy_target_snapshot_def)
qed

lemma calls_unlock_pvc [call_intros]:
  assumes "\<And>q r. o1 = Some r \<Longrightarrow> params_req q \<Longrightarrow> P q" and "\<And>r. o1 = Some r \<Longrightarrow> P (Patch_merge K_PVC (pr_namespace r) (pr_name r) (P_label EVACUATING_LABEL None))"
    and "\<And>r. R r"
  shows "calls P (unlock_pvc o1) R"
  unfolding unlock_pvc_def by (intro call_intros) (simp_all add: assms)

lemma calls_own_finalizer [call_intros]:
  "P (Get K_Evacuation [] name) \<Longrightarrow> (\<And>fs. P (Patch_merge K_Evacuation [] name (P_finalizers fs))) \<Longrightarrow> (\<And>r. R1 r)
     \<Longrightarrow> calls P (remove_evac_finalizer name) R1"
  "(\<And>fs. P (Patch_merge K_Evacuation [] (name_any (ev_meta evac)) (P_finalizers fs))) \<Longrightarrow> (\<And>r. R2 r)
     \<Longrightarrow> calls P (ensure_evac_finalizer evac) R2"
  unfolding remove_evac_finalizer_def ensure_evac_finalizer_def by (intro call_intros; simp)+

lemma writes_finish:
  assumes "s_phase st = CleaningUp" and "st' = st \<or> st' = note_delete_issued st"
  shows "calls (status_req (status_step mx st)) (finish evac st') (\<lambda>_. True)"
  unfolding finish_def untrigger_def
  by (intro call_intros) (use assms in \<open>auto simp: step_defs\<close>)

lemma writes_cleaning_up:
  assumes "s_phase st = CleaningUp"
  shows "writes (status_step mx st) (cleaning_up ctx evac st)"
proof -
  let ?P = "status_req (status_step mx st)"
  have rest: "calls ?P (case msg_o of
          Some msg \<Rightarrow> wait name st' msg 5
        | None \<Rightarrow> bnd (get_zv ctx h) (\<lambda>zv_o. (case zv_o of
              Some zv \<Rightarrow> bnd (destroy_source ctx name source (being_deleted (zv_meta zv))) (\<lambda>_. wait name st' m 10)
            | None \<Rightarrow> finish evac st'))) (\<lambda>_. True)"
    if "st' = st \<or> st' = note_delete_issued st" for msg_o name st' h source m
    unfolding destroy_source_def
    by (intro call_intros writes_finish) (use assms that in \<open>auto simp: step_defs\<close>)
  have snap: "calls ?P (bnd (destroy_target_snapshot ctx name st) (\<lambda>(msg_o, st'). (case msg_o of
          Some msg \<Rightarrow> wait name st' msg 5
        | None \<Rightarrow> bnd (get_zv ctx h) (\<lambda>zv_o. (case zv_o of
              Some zv \<Rightarrow> bnd (destroy_source ctx name source (being_deleted (zv_meta zv))) (\<lambda>_. wait name st' m 10)
            | None \<Rightarrow> finish evac st'))))) (\<lambda>_. True)" for name h source m
    by (rule calls_bnd_using [OF calls_destroy_target_snapshot])
      (use assms rest in \<open>auto simp: step_defs\<close>)
  show ?thesis
    unfolding writes_def cleaning_up_def
    by (intro call_intros snap) (simp_all add: step_defs assms)
qed

text \<open>The abort path: a step to Aborting where it is not there yet, then steps from Aborting.\<close>

lemma calls_requeue_msg [call_intros]:
  "(s_message st \<noteq> Some m \<Longrightarrow> P (Patch_status n (st\<lparr>s_message := Some m\<rparr>))) \<Longrightarrow> (\<And>r. R r)
     \<Longrightarrow> calls P (requeue_msg n st m) R"
  unfolding requeue_msg_def by (intro call_intros) simp_all

lemma calls_abort_target [call_intros]:
  assumes "\<And>k ns n. P (Get k ns n)" and "P (List_all K_Node [] None)"
    and "\<And>t q. s_transfer st = Some t \<Longrightarrow> attempt_cleanup ctx name (ts_attempt t) q \<Longrightarrow> P q"
    and "\<And>t. s_target st = Some t \<Longrightarrow> P (Delete K_ZFSVolume (openebs_ns ctx) (ti_new_volume_handle t))"
    and "\<And>t cur. s_target st = Some t \<Longrightarrow> P (Patch_merge K_ZFSVolume (openebs_ns ctx) (ti_new_volume_handle t) (P_finalizers (remove_from [ZFS_FINALIZER] cur)))"
    and "\<And>t i. s_target st = Some t \<Longrightarrow> P (Create K_ZFSVolume (openebs_ns ctx) (O_zv (target_zfsvolume i t)))"
    and "\<And>m. P (Patch_status name (st\<lparr>s_message := Some m\<rparr>))" and "\<And>r. R r"
  shows "calls P (abort_target ctx name st) R"
proof (cases "s_target st"; cases "s_transfer st")
  fix tg t assume "s_target st = Some tg" "s_transfer st = Some t"
  then show ?thesis
    unfolding abort_target_def abort_transfer_crs_def
    by (simp only: option.simps prod.simps) (intro call_intros; simp add: assms)
qed (simp_all add: abort_target_def assms)

lemma calls_restore_policy [call_intros]:
  assumes "\<And>n. P (Get K_PV [] n)" and "\<And>p. s_original_reclaim_policy st = Some p \<Longrightarrow> P (Patch_merge K_PV [] pv_name (P_reclaim_policy p))" and "\<And>r. R r"
  shows "calls P (restore_policy pv_name st) R"
proof (cases "s_source st"; cases "s_original_reclaim_policy st")
  fix src p assume "s_source st = Some src" "s_original_reclaim_policy st = Some p"
  then show ?thesis unfolding restore_policy_def
    by (simp only: option.simps prod.simps) (intro call_intros; simp add: assms)
qed (simp_all add: restore_policy_def assms)

lemma calls_release_source [call_intros]:
  assumes "\<And>k ns n. P (Get k ns n)" and "P (List_all K_Node [] None)"
    and "\<And>src. s_source st = Some src \<Longrightarrow> P (Delete K_ZFSVolume (openebs_ns ctx) (si_volume_handle src))"
    and "\<And>src cur fin. s_source st = Some src \<Longrightarrow> fin = GUARD_FINALIZER \<or> fin = ZFS_FINALIZER
       \<Longrightarrow> P (Patch_merge K_ZFSVolume (openebs_ns ctx) (si_volume_handle src) (P_finalizers (remove_from [fin] cur)))" and "\<And>r. R r"
  shows "calls P (release_source ctx pv_name st) R"
  unfolding release_source_def by (intro call_intros; simp add: assms)

lemma status_step_message [simp]:
  "status_step mx (st\<lparr>s_message := m\<rparr>) st' \<longleftrightarrow> status_step mx st st'"
  "s_phase st' \<noteq> Completed \<Longrightarrow> status_step mx st (st'\<lparr>s_message := m\<rparr>) \<longleftrightarrow> status_step mx st st'"
  by (auto simp: step_defs good_target_def)

lemma status_step_refl: "s_phase st \<noteq> Completed \<Longrightarrow> status_step mx st st"
  by (auto simp: step_defs)

lemma writes_abort_run:
  assumes "s_phase st < Swapping \<or> s_phase st = Aborting"
  shows "writes ((status_step mx)\<^sup>*\<^sup>* st) (abort_run ctx evac st)"
proof -
  let ?st1 = "st\<lparr>s_phase := Aborting\<rparr>"
  have "status_step mx st ?st1" using assms by (auto simp: step_defs)
  then have 1: "(status_step mx)\<^sup>*\<^sup>* st ?st1" by blast
  have trans: "(status_step mx)\<^sup>*\<^sup>* st x" if "status_step mx ?st1 x" for x
    using 1 that by (rule rtranclp.rtrancl_into_rtrancl)
  have "status_step mx ?st1 (?st1\<lparr>s_phase := Failed, s_message := Some m\<rparr>)" for m
    by (simp add: step_defs)
  moreover have "status_step mx ?st1 (?st1\<lparr>s_message := Some m\<rparr>)" for m by (simp add: step_defs)
  ultimately have w: "(status_step mx)\<^sup>*\<^sup>* st (?st1\<lparr>s_phase := Failed, s_message := Some m\<rparr>)"
      "(status_step mx)\<^sup>*\<^sup>* st (?st1\<lparr>s_message := Some m\<rparr>)" for m
    using trans by blast+
  show ?thesis
    unfolding writes_def abort_run_def Let_def
    by (intro call_intros) (simp_all only: status_req_simps status_req_params status_req_cleanup w 1)
qed

section \<open>The invariant\<close>

definition status_inv :: "u32 \<Rightarrow> evac_status \<Rightarrow> bool" where
  "status_inv mx st \<longleftrightarrow>
     (s_committed st \<longleftrightarrow> s_phase st \<in> {Swapping, CleaningUp, Completed})
   \<and> (s_committed st \<longrightarrow> s_old_pv_manifest st \<noteq> None \<and> s_new_pv_manifest st \<noteq> None)
   \<and> (s_phase st \<notin> {Pending, Aborting, Failed} \<longrightarrow> s_source st \<noteq> None \<and> s_pvc_ref st \<noteq> None)
   \<and> (s_phase st \<in> {Transferring, Adopting, Committing, Swapping, CleaningUp, Completed} \<longrightarrow> good_target st)
   \<and> (s_target st \<noteq> None \<longrightarrow> good_target st \<and> s_phase st > TargetSelecting)
   \<and> (s_phase st \<in> {Adopting, Committing, Swapping, CleaningUp, Completed} \<longrightarrow> s_transfer st \<noteq> None)
   \<and> (\<forall>t. s_transfer st = Some t \<longrightarrow> 1 \<le> ts_attempt t \<and> ts_attempt t \<le> max 1 mx \<and> s_phase st > TargetSelecting)
   \<and> (s_cancelled st \<longrightarrow> s_phase st \<in> {Aborting, Failed})
   \<and> (s_phase st = Completed \<longrightarrow> s_message st = None)"

lemma status_inv_default: "status_inv mx default_status"
  by (simp add: status_inv_def default_status_def less_phase_def)

lemma stepD:
  assumes "status_step mx st st'"
  shows "stays_or_edge (s_phase st) (s_phase st')" "source_step st st'" "target_step st st'"
    "commit_step st st'" "transfer_step mx (s_phase st) (s_transfer st) (s_transfer st')"
    "s_phase st = Transferring \<and> s_phase st' = Adopting \<longrightarrow> s_transfer st' \<noteq> None"
    "s_cancelled st' \<longrightarrow> s_cancelled st \<or> s_phase st' = Aborting"
    "s_phase st' = Completed \<longrightarrow> s_message st' = None"
  using assms by (simp_all add: status_step_def)

lemma edge_cases:
  assumes "stays_or_edge p q"
  obtains "q = p" | "q = Aborting" "p < Swapping" | "q = Failed" "p \<in> {Pending, TargetSelecting, Committing, Aborting}"
    | "(p, q) \<in> {(Pending, Guarding), (Guarding, Retaining), (Retaining, Locking), (Locking, Quiescing),
        (Quiescing, TargetSelecting), (TargetSelecting, Transferring), (Transferring, Adopting),
        (Adopting, Committing), (Committing, Swapping), (Swapping, CleaningUp), (CleaningUp, Completed)}"
  using assms unfolding stays_or_edge_def by (elim disjE phase_edge.cases) auto

lemma stays_or_edge_mono: "stays_or_edge p q \<Longrightarrow> p \<le> q"
  unfolding stays_or_edge_def using phase_edge_increases by fastforce

lemma edge_into:
  "stays_or_edge p q \<Longrightarrow> q \<in> {Transferring, Adopting, Committing, Swapping, CleaningUp, Completed}
     \<Longrightarrow> p = TargetSelecting \<and> q = Transferring
       \<or> p \<in> {Transferring, Adopting, Committing, Swapping, CleaningUp, Completed}"
  "stays_or_edge p q \<Longrightarrow> q \<in> {Adopting, Committing, Swapping, CleaningUp, Completed}
     \<Longrightarrow> p = Transferring \<and> q = Adopting \<or> p \<in> {Adopting, Committing, Swapping, CleaningUp, Completed}"
  by (cases p; auto simp: stays_or_edge_def phase_edge_from)+

lemma inv_committed:
  assumes "status_inv mx st" and "status_step mx st st'"
  shows "s_committed st' \<longleftrightarrow> s_phase st' \<in> {Swapping, CleaningUp, Completed}"
    and "s_committed st' \<longrightarrow> s_old_pv_manifest st' \<noteq> None \<and> s_new_pv_manifest st' \<noteq> None"
proof -
  have i: "s_committed st \<longleftrightarrow> s_phase st \<in> {Swapping, CleaningUp, Completed}"
    "s_committed st \<longrightarrow> s_old_pv_manifest st \<noteq> None \<and> s_new_pv_manifest st \<noteq> None"
    using assms(1) by (simp_all add: status_inv_def)
  note c = stepD(4) [OF assms(2), unfolded commit_step_def]
  show "s_committed st' \<longleftrightarrow> s_phase st' \<in> {Swapping, CleaningUp, Completed}"
    by (rule edge_cases [OF stepD(1) [OF assms(2)]]) (use i(1) c in \<open>auto simp: less_phase_def\<close>)
  show "s_committed st' \<longrightarrow> s_old_pv_manifest st' \<noteq> None \<and> s_new_pv_manifest st' \<noteq> None"
    using i(2) c by auto
qed

lemma inv_source:
  assumes "status_inv mx st" and "status_step mx st st'"
  shows "s_phase st' \<notin> {Pending, Aborting, Failed} \<longrightarrow> s_source st' \<noteq> None \<and> s_pvc_ref st' \<noteq> None"
proof -
  have i: "s_phase st \<notin> {Pending, Aborting, Failed} \<longrightarrow> s_source st \<noteq> None \<and> s_pvc_ref st \<noteq> None"
    using assms(1) by (simp add: status_inv_def)
  note c = stepD(2) [OF assms(2), unfolded source_step_def]
  show ?thesis
    by (rule edge_cases [OF stepD(1) [OF assms(2)]]) (use i c in auto)
qed

lemma good_target_cong: "s_source st' = s_source st \<Longrightarrow> s_target st' = s_target st \<Longrightarrow> good_target st' = good_target st"
  by (simp add: good_target_def)

lemma inv_target:
  assumes "status_inv mx st" and "status_step mx st st'"
  shows "s_phase st' \<in> {Transferring, Adopting, Committing, Swapping, CleaningUp, Completed} \<longrightarrow> good_target st'"
    and "s_target st' \<noteq> None \<longrightarrow> good_target st' \<and> s_phase st' > TargetSelecting"
proof -
  have i: "s_phase st \<in> {Transferring, Adopting, Committing, Swapping, CleaningUp, Completed} \<longrightarrow> good_target st"
    "s_target st \<noteq> None \<longrightarrow> good_target st \<and> s_phase st > TargetSelecting"
    using assms(1) by (simp_all add: status_inv_def)
  note c = stepD(3) [OF assms(2), unfolded target_step_def] and d = stepD(2) [OF assms(2), unfolded source_step_def]
  have keep: "good_target st' = good_target st" if "s_phase st \<noteq> Pending" "s_phase st \<noteq> TargetSelecting"
    using c d that by (intro good_target_cong) auto
  have "good_target st'" if "s_phase st' \<in> {Transferring, Adopting, Committing, Swapping, CleaningUp, Completed}"
    using edge_into(1) [OF stepD(1) [OF assms(2)] that] i(1) c keep by auto
  then show "s_phase st' \<in> {Transferring, Adopting, Committing, Swapping, CleaningUp, Completed} \<longrightarrow> good_target st'" ..
  have "good_target st' \<and> s_phase st' > TargetSelecting" if "s_target st' \<noteq> None"
  proof (cases "s_phase st = TargetSelecting \<and> s_phase st' = Transferring")
    case True
    with c show ?thesis by (auto simp: less_phase_def)
  next
    case False
    with c that have "s_target st \<noteq> None" by auto
    then have p: "good_target st" "TargetSelecting < s_phase st" using i(2) by auto
    then have "s_phase st \<noteq> Pending" "s_phase st \<noteq> TargetSelecting" by (auto simp: less_phase_def)
    with p stays_or_edge_mono [OF stepD(1) [OF assms(2)]] show ?thesis by (simp add: keep)
  qed
  then show "s_target st' \<noteq> None \<longrightarrow> good_target st' \<and> s_phase st' > TargetSelecting" ..
qed

lemma inv_transfer:
  assumes "status_inv mx st" and "status_step mx st st'"
  shows "s_phase st' \<in> {Adopting, Committing, Swapping, CleaningUp, Completed} \<longrightarrow> s_transfer st' \<noteq> None"
    and "\<forall>t. s_transfer st' = Some t \<longrightarrow> 1 \<le> ts_attempt t \<and> ts_attempt t \<le> max 1 mx \<and> s_phase st' > TargetSelecting"
proof -
  have i: "s_phase st \<in> {Adopting, Committing, Swapping, CleaningUp, Completed} \<longrightarrow> s_transfer st \<noteq> None"
    "\<forall>t. s_transfer st = Some t \<longrightarrow> 1 \<le> ts_attempt t \<and> ts_attempt t \<le> max 1 mx \<and> s_phase st > TargetSelecting"
    using assms(1) by (simp_all add: status_inv_def)
  note c = stepD(5) [OF assms(2), unfolded transfer_step_def]
  have some: "s_transfer st = None \<longleftrightarrow> s_transfer st' = None" if "s_phase st \<noteq> Transferring"
    using c that by (auto simp: same_attempt_def split: option.splits)
  have "s_transfer st' \<noteq> None" if "s_phase st' \<in> {Adopting, Committing, Swapping, CleaningUp, Completed}"
    using edge_into(2) [OF stepD(1) [OF assms(2)] that] i(1) some stepD(6) [OF assms(2)] by auto
  then show "s_phase st' \<in> {Adopting, Committing, Swapping, CleaningUp, Completed} \<longrightarrow> s_transfer st' \<noteq> None" ..
  have bound: "1 \<le> ts_attempt t' \<and> ts_attempt t' \<le> max 1 mx" if t': "s_transfer st' = Some t'" for t'
  proof (cases "same_attempt (s_transfer st) (s_transfer st')")
    case True
    with t' i(2) show ?thesis by (auto simp: same_attempt_def split: option.splits)
  next
    case False
    with c have n: "next_attempt mx (s_transfer st) (Some t')" using t' by auto
    show ?thesis
    proof (cases "s_transfer st")
      case None
      with n show ?thesis by (simp add: next_attempt_def)
    next
      case (Some t)
      with n have "ts_attempt t < mx" "ts_attempt t' = ts_attempt t + 1" by (auto simp: next_attempt_def)
      then have "ts_attempt t < ts_attempt t'" "ts_attempt t' \<le> mx" by unat_arith+
      moreover have "1 \<le> ts_attempt t" using i(2) Some by simp
      ultimately show ?thesis by (meson le_max_iff_disj less_imp_le order_trans)
    qed
  qed
  have "s_phase st' > TargetSelecting" if "s_transfer st' = Some t'" for t'
  proof -
    have "s_phase st > TargetSelecting"
      using i(2) some that by (cases "s_phase st = Transferring") (auto simp: less_phase_def)
    then show ?thesis using stays_or_edge_mono [OF stepD(1) [OF assms(2)]] by simp
  qed
  with bound show "\<forall>t. s_transfer st' = Some t \<longrightarrow> 1 \<le> ts_attempt t \<and> ts_attempt t \<le> max 1 mx \<and> s_phase st' > TargetSelecting"
    by blast
qed

lemma inv_cancelled:
  assumes "status_inv mx st" and "status_step mx st st'"
  shows "s_cancelled st' \<longrightarrow> s_phase st' \<in> {Aborting, Failed}"
proof -
  have i: "s_cancelled st \<longrightarrow> s_phase st \<in> {Aborting, Failed}" using assms(1) by (simp add: status_inv_def)
  have "q \<in> {Aborting, Failed}" if "stays_or_edge p q" "p \<in> {Aborting, Failed}" for p q
    using that by (auto simp: stays_or_edge_def phase_edge_from less_phase_def)
  then show ?thesis using i stepD(1,7) [OF assms(2)] by blast
qed

lemma status_inv_step: "status_inv mx st \<Longrightarrow> status_step mx st st' \<Longrightarrow> status_inv mx st'"
  using inv_committed [of mx st st'] inv_source [of mx st st'] inv_target [of mx st st']
    inv_transfer [of mx st st'] inv_cancelled [of mx st st'] stepD(8) [of mx st st']
  unfolding status_inv_def [of mx st'] by blast

lemma status_inv_steps: "(status_step mx)\<^sup>*\<^sup>* st st' \<Longrightarrow> status_inv mx st \<Longrightarrow> status_inv mx st'"
  by (induction rule: rtranclp_induct) (auto intro: status_inv_step)

lemma status_steps_advance: "(status_step mx)\<^sup>*\<^sup>* st st' \<Longrightarrow> s_phase st \<le> s_phase st'"
proof (induction rule: rtranclp_induct)
  case (step st1 st2)
  then show ?case using stays_or_edge_mono [OF stepD(1)] by (meson order_trans)
qed simp

text \<open>The commit flag is never taken back.\<close>

lemma status_steps_committed: "(status_step mx)\<^sup>*\<^sup>* st st' \<Longrightarrow> status_inv mx st \<Longrightarrow> s_committed st \<Longrightarrow> s_committed st'"
proof (induction rule: rtranclp_induct)
  case (step st1 st2)
  then show ?case using stepD(4) [OF step.hyps(2)] by (auto simp: commit_step_def)
qed

section \<open>Reconcile\<close>

lemma writes_handle_phase:
  "writes (status_step (max_attempts evac) st) (handle_phase ctx evac st)"
proof (cases "s_phase st")
  case Completed
  then show ?thesis by (simp add: handle_phase_def writes_def)
next
  case Aborting
  then show ?thesis by (simp add: handle_phase_def writes_def)
next
  case Failed
  then show ?thesis by (simp add: handle_phase_def writes_def)
qed (simp_all add: handle_phase_def writes_pending writes_guarding writes_retaining writes_locking
  writes_quiescing writes_target_selecting writes_transferring writes_adopting writes_committing
  writes_swapping writes_cleaning_up)

lemma calls_cancel_reason [call_intros]:
  "(\<And>k ns n. P (Get k ns n)) \<Longrightarrow> (\<And>r. R r) \<Longrightarrow> calls P (cancel_reason ctx evac st) R"
  unfolding cancel_reason_def trigger_withdrawn_def pvc_gone_or_replaced_def
  by (intro call_intros) (auto split: evacuation_trigger.split intro!: call_intros)

abbreviation recorded_status :: "zfs_evacuation \<Rightarrow> evac_status" where
  "recorded_status evac \<equiv> unwrap_or (ev_status evac) default_status"

lemma active_precommit:
  "status_inv mx st \<Longrightarrow> s_phase st \<notin> {Completed, Failed} \<Longrightarrow> \<not> s_committed st
     \<Longrightarrow> s_phase st < Swapping \<or> s_phase st = Aborting"
  by (cases "s_phase st") (simp_all add: status_inv_def less_phase_def)

lemma bnd_if_ret: "bnd (if b then ret x else p) f = (if b then f x else bnd p f)"
  by simp

lemma writes_reconcile:
  assumes "status_inv mx (recorded_status evac)"
  shows "writes ((status_step (max_attempts evac))\<^sup>*\<^sup>* (recorded_status evac)) (reconcile ctx evac)"
proof -
  let ?st = "recorded_status evac" and ?W = "(status_step (max_attempts evac))\<^sup>*\<^sup>* (recorded_status evac)"
  have abort: "calls (status_req ?W) (abort_run ctx evac ?st) (\<lambda>_. True)"
    if "s_phase ?st < Swapping \<or> s_phase ?st = Aborting"
    using writes_abort_run [OF that] by (simp add: writes_def)
  have del: "calls (status_req ?W) (abort_run ctx evac (?st\<lparr>s_message := m\<rparr>)) (\<lambda>_. True)"
    if "s_phase ?st < Swapping \<or> s_phase ?st = Aborting" for m
  proof -
    have "(status_step (max_attempts evac))\<^sup>*\<^sup>* ?st st'" if "(status_step (max_attempts evac))\<^sup>*\<^sup>* (?st\<lparr>s_message := m\<rparr>) st'"
      "st' \<noteq> ?st\<lparr>s_message := m\<rparr>" for st'
      using that by (metis converse_rtranclpE converse_rtranclp_into_rtranclp status_step_message(1))
    moreover have "s_phase ?st \<noteq> Completed" using that by (auto simp: less_phase_def)
    then have "(status_step (max_attempts evac))\<^sup>*\<^sup>* ?st (?st\<lparr>s_message := m\<rparr>)"
      by (intro r_into_rtranclp) (simp add: status_step_refl)
    ultimately have "?W st'" if "(status_step (max_attempts evac))\<^sup>*\<^sup>* (?st\<lparr>s_message := m\<rparr>) st'" for st'
      using that by blast
    moreover have "writes ((status_step (max_attempts evac))\<^sup>*\<^sup>* (?st\<lparr>s_message := m\<rparr>)) (abort_run ctx evac (?st\<lparr>s_message := m\<rparr>))"
      by (rule writes_abort_run) (use that in simp)
    ultimately have "writes ?W (abort_run ctx evac (?st\<lparr>s_message := m\<rparr>))" by (rule writes_mono [rotated])
    then show ?thesis by (simp add: writes_def)
  qed
  have phase: "calls (status_req ?W) (handle_phase ctx evac ?st) (\<lambda>_. True)"
    using writes_mono [OF writes_handle_phase r_into_rtranclp] by (simp add: writes_def)
  have cancel: "?W (?st\<lparr>s_phase := Aborting, s_cancelled := True, s_message := Some m\<rparr>)"
    if "s_phase ?st < Swapping \<or> s_phase ?st = Aborting" for m
    by (rule r_into_rtranclp) (use that in \<open>auto simp: step_defs\<close>)
  note pre = active_precommit [OF assms]
  show ?thesis
    unfolding writes_def reconcile_def Let_def bnd_if_ret
    by (intro call_intros del abort phase)
      (use pre cancel in \<open>auto simp del: rtranclp.rtrancl_refl\<close>)
qed

section \<open>Every status ever recorded\<close>

text \<open>
  \<open>recorded ctx S st\<close>: \<open>st\<close> may be the status of an evacuation whose spec was always in \<open>S\<close>. A
  reconcile may start from any status recorded so far (its cached view may be stale), the rest
  of the object is arbitrary, it meets arbitrary answers and may stop anywhere; every status
  it sent before that counts, even when the write was reported as failed.
\<close>

inductive recorded :: "ctx \<Rightarrow> evac_spec set \<Rightarrow> evac_status \<Rightarrow> bool" for ctx S where
  new: "recorded ctx S default_status"
| sent: "recorded ctx S (recorded_status evac) \<Longrightarrow> ev_spec evac \<in> S \<Longrightarrow> runs (reconcile ctx evac) tr
    \<Longrightarrow> (Patch_status n st, a) \<in> set tr \<Longrightarrow> recorded ctx S st"

lemma writes_run: "writes W p \<Longrightarrow> runs p tr \<Longrightarrow> (Patch_status n st, a) \<in> set tr \<Longrightarrow> W st"
  unfolding writes_def using calls_sound [of "status_req W"] by fastforce

lemma recorded_inv:
  assumes "recorded ctx S st" and "\<And>s. s \<in> S \<Longrightarrow> unwrap_or (es_max_attempts s) DEFAULT_MAX_ATTEMPTS = mx"
  shows "status_inv mx st"
  using assms(1)
proof induction
  case new
  show ?case by (rule status_inv_default)
next
  case (sent evac tr n st a)
  have "max_attempts evac = mx" using assms(2) sent.hyps by blast
  then have "(status_step mx)\<^sup>*\<^sup>* (recorded_status evac) st"
    using writes_run [OF writes_reconcile [OF sent.IH]] sent.hyps by metis
  then show ?case using sent.IH by (rule status_inv_steps)
qed

end
