(* ===== verification/Phase_Frame.thy ===== *)
theory Phase_Frame
  imports Status_Invariant
begin

text \<open>
  The frame of every phase: which requests the handler of a phase can send at all, whatever the
  API answers. Everything else in the cluster is left alone in that phase.
\<close>

section \<open>The requests of a phase\<close>

definition harmless :: "string \<Rightarrow> req \<Rightarrow> bool" where
  "harmless name q \<longleftrightarrow> (case q of
     Get _ _ _ \<Rightarrow> True | List_all _ _ _ \<Rightarrow> True | Now \<Rightarrow> True | Rand_u128 \<Rightarrow> True | Rand_u16 \<Rightarrow> True
   | Relay_load _ \<Rightarrow> True | Selection_lock \<Rightarrow> True | Selection_unlock \<Rightarrow> True
   | Patch_status n _ \<Rightarrow> n = name | _ \<Rightarrow> False)"

definition edits :: "(string list \<Rightarrow> string list) \<Rightarrow> kind \<Rightarrow> string \<Rightarrow> string \<Rightarrow> req \<Rightarrow> bool" where
  "edits f k ns n q \<longleftrightarrow> (\<exists>cur. q = Patch_merge k ns n (P_finalizers (f cur)))"

definition unlocks :: "pvc_ref \<Rightarrow> req \<Rightarrow> bool" where
  "unlocks r q \<longleftrightarrow> params_req q \<or> q = Patch_merge K_PVC (pr_namespace r) (pr_name r) (P_label EVACUATING_LABEL None)"

definition on_source :: "ctx \<Rightarrow> source_info \<Rightarrow> req \<Rightarrow> bool" where
  "on_source ctx src q \<longleftrightarrow>
     q = Delete K_ZFSVolume (openebs_ns ctx) (si_volume_handle src)
   \<or> edits (remove_from [GUARD_FINALIZER]) K_ZFSVolume (openebs_ns ctx) (si_volume_handle src) q
   \<or> strips_zfs K_ZFSVolume (openebs_ns ctx) (si_volume_handle src) q"

definition on_target :: "ctx \<Rightarrow> target_info \<Rightarrow> req \<Rightarrow> bool" where
  "on_target ctx t q \<longleftrightarrow>
     q = Delete K_ZFSVolume (openebs_ns ctx) (ti_new_volume_handle t)
   \<or> strips_zfs K_ZFSVolume (openebs_ns ctx) (ti_new_volume_handle t) q
   \<or> (\<exists>i. q = Create K_ZFSVolume (openebs_ns ctx) (O_zv (target_zfsvolume i t)))"

definition on_snapshot :: "ctx \<Rightarrow> string \<Rightarrow> req \<Rightarrow> bool" where
  "on_snapshot ctx snap q \<longleftrightarrow>
     q = Delete K_ZFSSnapshot (openebs_ns ctx) snap \<or> strips_zfs K_ZFSSnapshot (openebs_ns ctx) snap q
   \<or> (\<exists>t i. q = Create K_ZFSSnapshot (openebs_ns ctx) (O_snap (target_snapshot_cr t snap i)))"

definition attempt_objects :: "ctx \<Rightarrow> string \<Rightarrow> req \<Rightarrow> bool" where
  "attempt_objects ctx name q \<longleftrightarrow>
     (\<exists>a x. q = Create K_ZFSBackup (openebs_ns ctx) (O_bkp x) \<and> bk_meta x = named_meta (bkp_name name a))
   \<or> (\<exists>a x. q = Create K_ZFSRestore (openebs_ns ctx) (O_rst x) \<and> rs_meta x = named_meta (rst_name name a))
   \<or> (\<exists>a. attempt_cleanup ctx name a q)
   \<or> (\<exists>bs rs. q = Spawn_relay bs rs) \<or> (\<exists>t. q = Abort_task t)"

definition phase_may :: "ctx \<Rightarrow> zfs_evacuation \<Rightarrow> evac_status \<Rightarrow> req \<Rightarrow> bool" where
  "phase_may ctx evac st q \<longleftrightarrow> (let name = name_any (ev_meta evac); pv = es_pv_name (ev_spec evac) in
     case s_phase st of
       Guarding \<Rightarrow> (\<exists>src. s_source st = Some src
         \<and> edits (add_finalizer GUARD_FINALIZER) K_ZFSVolume (openebs_ns ctx) (si_volume_handle src) q)
     | Retaining \<Rightarrow> q = Patch_merge K_PV [] pv (P_reclaim_policy ''Retain'')
     | Locking \<Rightarrow> params_req q \<or> (\<exists>r. s_pvc_ref st = Some r
         \<and> q = Patch_merge K_PVC (pr_namespace r) (pr_name r) (P_label EVACUATING_LABEL (Some ''true'')))
     | Transferring \<Rightarrow> attempt_objects ctx name q
     | Adopting \<Rightarrow> (\<exists>t. s_target st = Some t \<and> on_target ctx t q)
     | Swapping \<Rightarrow> q = Delete K_PV [] pv
         \<or> edits (remove_from [PV_PROTECTION, PROVISIONER_FINALIZER]) K_PV [] pv q
         \<or> (\<exists>x. q = Create K_PV [] (O_pv x))
         \<or> (\<exists>p. s_original_reclaim_policy st = Some p \<and> q = Patch_merge K_PV [] pv (P_reclaim_policy p))
     | CleaningUp \<Rightarrow>
           (\<exists>t. s_transfer st = Some t \<and> (attempt_cleanup ctx name (ts_attempt t) q \<or> on_snapshot ctx (ts_snap_name t) q))
         \<or> (\<exists>src. s_source st = Some src \<and> on_source ctx src q)
         \<or> (\<exists>r. s_pvc_ref st = Some r \<and> unlocks r q)
         \<or> q = Patch_merge K_PV [] pv (P_annotation EVACUATE_ANNOTATION None)
         \<or> (\<exists>fs. q = Patch_merge K_Evacuation [] name (P_finalizers fs))
     | _ \<Rightarrow> False)"

definition abort_may :: "ctx \<Rightarrow> zfs_evacuation \<Rightarrow> evac_status \<Rightarrow> req \<Rightarrow> bool" where
  "abort_may ctx evac st q \<longleftrightarrow> (let name = name_any (ev_meta evac); pv = es_pv_name (ev_spec evac) in
     (\<exists>t. q = Abort_task t)
   \<or> (\<exists>t. s_transfer st = Some t \<and> attempt_cleanup ctx name (ts_attempt t) q)
   \<or> (\<exists>t. s_target st = Some t \<and> on_target ctx t q)
   \<or> (\<exists>src. s_source st = Some src \<and> on_source ctx src q)
   \<or> (\<exists>p. s_original_reclaim_policy st = Some p \<and> q = Patch_merge K_PV [] pv (P_reclaim_policy p))
   \<or> (\<exists>r. s_pvc_ref st = Some r \<and> unlocks r q)
   \<or> (\<exists>fs. q = Patch_merge K_Evacuation [] name (P_finalizers fs)))"

lemma harmless_simps [simp]:
  "harmless name (Get k ns n)" "harmless name (List_all k ns sel)" "harmless name Now" "harmless name Rand_u128"
  "harmless name Rand_u16" "harmless name (Relay_load t)" "harmless name Selection_lock" "harmless name Selection_unlock"
  "harmless name (Patch_status n st) \<longleftrightarrow> n = name"
  "\<not> harmless name (Create k ns x)" "\<not> harmless name (Delete k ns n)" "\<not> harmless name (Patch_merge k ns n p)"
  "\<not> harmless name (Replace k ns n x)" "\<not> harmless name (Spawn_relay bs rs)" "\<not> harmless name (Abort_task t)"
  by (simp_all add: harmless_def)

lemma editsI [simp]: "edits f k ns n (Patch_merge k ns n (P_finalizers (f cur)))"
  by (auto simp: edits_def)

lemma strips_zfsI [simp]: "strips_zfs k ns n (Patch_merge k ns n (P_finalizers (remove_from [ZFS_FINALIZER] cur)))"
  by (auto simp: strips_zfs_def)

lemma frame_membersI [simp]:
  "params_req q \<Longrightarrow> unlocks r q"
  "unlocks r (Patch_merge K_PVC (pr_namespace r) (pr_name r) (P_label EVACUATING_LABEL None))"
  "on_source ctx src (Delete K_ZFSVolume (openebs_ns ctx) (si_volume_handle src))"
  "on_source ctx src (Patch_merge K_ZFSVolume (openebs_ns ctx) (si_volume_handle src) (P_finalizers (remove_from [GUARD_FINALIZER] cur)))"
  "on_source ctx src (Patch_merge K_ZFSVolume (openebs_ns ctx) (si_volume_handle src) (P_finalizers (remove_from [ZFS_FINALIZER] cur)))"
  "on_target ctx t (Delete K_ZFSVolume (openebs_ns ctx) (ti_new_volume_handle t))"
  "on_target ctx t (Patch_merge K_ZFSVolume (openebs_ns ctx) (ti_new_volume_handle t) (P_finalizers (remove_from [ZFS_FINALIZER] cur)))"
  "on_target ctx t (Create K_ZFSVolume (openebs_ns ctx) (O_zv (target_zfsvolume i t)))"
  "on_snapshot ctx snap (Delete K_ZFSSnapshot (openebs_ns ctx) snap)"
  "on_snapshot ctx snap (Patch_merge K_ZFSSnapshot (openebs_ns ctx) snap (P_finalizers (remove_from [ZFS_FINALIZER] cur)))"
  "on_snapshot ctx snap (Create K_ZFSSnapshot (openebs_ns ctx) (O_snap (target_snapshot_cr tg snap i)))"
  by (auto simp: unlocks_def on_source_def on_target_def on_snapshot_def)

lemma attempt_objectsI [simp]:
  "bk_meta x = named_meta (bkp_name name a) \<Longrightarrow> attempt_objects ctx name (Create K_ZFSBackup (openebs_ns ctx) (O_bkp x))"
  "rs_meta y = named_meta (rst_name name a) \<Longrightarrow> attempt_objects ctx name (Create K_ZFSRestore (openebs_ns ctx) (O_rst y))"
  "attempt_cleanup ctx name a q \<Longrightarrow> attempt_objects ctx name q"
  "attempt_objects ctx name (Spawn_relay bs rs)" "attempt_objects ctx name (Abort_task t)"
  by (auto simp: attempt_objects_def)

section \<open>Every handler stays in its frame\<close>

abbreviation frame :: "ctx \<Rightarrow> zfs_evacuation \<Rightarrow> evac_status \<Rightarrow> req \<Rightarrow> bool" where
  "frame ctx evac st q \<equiv> harmless (name_any (ev_meta evac)) q \<or> phase_may ctx evac st q"

lemma frame_pending: "s_phase st = Pending \<Longrightarrow> calls (frame ctx evac st) (pending ctx evac st) (\<lambda>_. True)"
  unfolding pending_def pending_source_def by (intro call_intros; simp)

lemma frame_guarding: "s_phase st = Guarding \<Longrightarrow> calls (frame ctx evac st) (guarding ctx evac st) (\<lambda>_. True)"
  unfolding guarding_def
  by (rule calls_bnd_need, simp, intro call_intros) (simp_all add: phase_may_def)

lemma frame_retaining: "s_phase st = Retaining \<Longrightarrow> calls (frame ctx evac st) (retaining ctx evac st) (\<lambda>_. True)"
  unfolding retaining_def by (intro call_intros; simp add: phase_may_def)

lemma frame_locking: "s_phase st = Locking \<Longrightarrow> calls (frame ctx evac st) (locking ctx evac st) (\<lambda>_. True)"
  unfolding locking_def
  by (rule calls_bnd_need, simp, intro call_intros) (simp_all add: phase_may_def)

lemma frame_quiescing: "s_phase st = Quiescing \<Longrightarrow> calls (frame ctx evac st) (quiescing ctx evac st) (\<lambda>_. True)"
  unfolding quiescing_def by (intro call_intros; simp)

lemma calls_select_target_reads [call_intros]:
  "(\<And>k ns n. P (Get k ns n)) \<Longrightarrow> (\<And>k ns. P (List_all k ns None)) \<Longrightarrow> (\<And>r. R r) \<Longrightarrow> calls P (select_target ctx i) R"
  unfolding select_target_def by (intro call_intros; simp)

lemma calls_new_handle [call_intros]: "P Rand_u128 \<Longrightarrow> (\<And>r. R r) \<Longrightarrow> calls P new_destination_handle R"
  unfolding new_destination_handle_def by (intro call_intros)

lemma frame_target_selecting:
  "s_phase st = TargetSelecting \<Longrightarrow> calls (frame ctx evac st) (target_selecting ctx evac st) (\<lambda>_. True)"
  unfolding target_selecting_def by (intro call_intros; simp)

lemma frame_start_attempt:
  "s_phase st = Transferring \<Longrightarrow> calls (frame ctx evac st) (start_attempt ctx evac st' a) (\<lambda>_. True)"
  unfolding start_attempt_def
  by (intro call_intros; simp add: phase_may_def attempt_backup_def)

lemma frame_transferring:
  "s_phase st = Transferring \<Longrightarrow> calls (frame ctx evac st) (transferring ctx evac st) (\<lambda>_. True)"
proof -
  assume st: "s_phase st = Transferring"
  have "calls (frame ctx evac st) (act_on_verdict ctx evac st t v) (\<lambda>_. True)" for t v
    unfolding act_on_verdict_def retry_or_fail_def Let_def
    by (cases v; simp only: attempt_verdict.simps; intro call_intros frame_start_attempt)
      (simp_all add: st phase_may_def)
  then show ?thesis
    unfolding transferring_def by (intro call_intros frame_start_attempt) (simp_all add: st)
qed

lemma frame_adopting: "s_phase st = Adopting \<Longrightarrow> calls (frame ctx evac st) (adopting ctx evac st) (\<lambda>_. True)"
  unfolding adopting_def Let_def
  by (rule calls_bnd_need, simp, rule calls_bnd_need, simp, intro call_intros) (simp_all add: phase_may_def)

lemma frame_committing: "s_phase st = Committing \<Longrightarrow> calls (frame ctx evac st) (committing ctx evac st) (\<lambda>_. True)"
  unfolding committing_def by (intro call_intros; simp)

lemma frame_swapping: "s_phase st = Swapping \<Longrightarrow> calls (frame ctx evac st) (swapping ctx evac st) (\<lambda>_. True)"
  unfolding swapping_def by (intro call_intros; simp add: phase_may_def)

lemma calls_destroy_target_snapshot_any [call_intros]:
  assumes "\<And>k ns n. P (Get k ns n)" and "P (List_all K_Node [] None)"
    and "\<And>t q. s_transfer st = Some t \<Longrightarrow> on_snapshot ctx (ts_snap_name t) q \<Longrightarrow> P q"
    and "P (Patch_status name (note_delete_issued st))"
  shows "calls P (destroy_target_snapshot ctx name st) (\<lambda>_. True)"
proof -
  have "calls P (destroy_target_snapshot ctx name st)
      (\<lambda>r. \<forall>m st'. r = Inr (m, st') \<longrightarrow> st' = st \<or> st' = note_delete_issued st)"
    by (rule calls_destroy_target_snapshot) (use assms in auto)
  then show ?thesis by (rule calls_mono) simp_all
qed

lemma frame_cleaning_up: "s_phase st = CleaningUp \<Longrightarrow> calls (frame ctx evac st) (cleaning_up ctx evac st) (\<lambda>_. True)"
proof -
  assume st: "s_phase st = CleaningUp"
  let ?name = "name_any (ev_meta evac)"
  have snap: "calls (frame ctx evac st) (destroy_target_snapshot ctx ?name st)
      (\<lambda>r. \<forall>m st'. r = Inr (m, st') \<longrightarrow> st' = st \<or> st' = note_delete_issued st)"
    by (rule calls_destroy_target_snapshot) (simp_all add: st phase_may_def)
  have fin: "calls (frame ctx evac st) (finish evac st') (\<lambda>_. True)" if "st' = st \<or> st' = note_delete_issued st" for st'
    unfolding finish_def untrigger_def
    by (intro call_intros) (use that in \<open>auto simp: st phase_may_def Let_def\<close>)
  have rest: "calls (frame ctx evac st) (case msg_o of
          Some msg \<Rightarrow> wait ?name st' msg 5
        | None \<Rightarrow> bnd (get_zv ctx h) (\<lambda>zv_o. (case zv_o of
              Some zv \<Rightarrow> bnd (destroy_source ctx ?name src (being_deleted (zv_meta zv))) (\<lambda>_. wait ?name st' m 10)
            | None \<Rightarrow> finish evac st'))) (\<lambda>_. True)"
    if "s_source st = Some src" "st' = st \<or> st' = note_delete_issued st" for msg_o st' h src m
    unfolding destroy_source_def
    by (intro call_intros fin) (use that in \<open>auto simp: st phase_may_def Let_def\<close>)
  have crs: "calls (frame ctx evac st) (case s_transfer st of None \<Rightarrow> ret True
      | Some t \<Rightarrow> cleanup_transfer_crs ctx ?name (ts_attempt t) st) (\<lambda>_. True)"
    by (intro call_intros) (auto simp: st phase_may_def Let_def)
  have wait: "calls (frame ctx evac st) (wait ?name st m 10) (\<lambda>_. True)" for m
    by (intro call_intros) simp_all
  show ?thesis
    unfolding cleaning_up_def Let_def
    by (rule calls_bnd_need, simp, rule calls_bndI [OF crs], simp, rule calls_ifI, rule wait,
        rule calls_bnd_using [OF snap], simp, rule calls_prodI, rule rest) auto
qed

lemma frame_handle_phase: "calls (frame ctx evac st) (handle_phase ctx evac st) (\<lambda>_. True)"
  by (cases "s_phase st")
    (simp_all add: handle_phase_def frame_pending frame_guarding frame_retaining frame_locking
      frame_quiescing frame_target_selecting frame_transferring frame_adopting frame_committing
      frame_swapping frame_cleaning_up)

text \<open>The abort path and the cancel write leave only Aborting and Failed behind.\<close>

definition leaves :: "string \<Rightarrow> req \<Rightarrow> bool" where
  "leaves name q \<longleftrightarrow> harmless name q \<and> (\<forall>n st. q = Patch_status n st \<longrightarrow> s_phase st \<in> {Aborting, Failed})"

lemma leaves_simps [simp]:
  "leaves name (Get k ns n)" "leaves name (List_all k ns sel)" "leaves name Now" "leaves name (Relay_load t)"
  "leaves name (Patch_status n st) \<longleftrightarrow> n = name \<and> s_phase st \<in> {Aborting, Failed}"
  by (auto simp: leaves_def)

lemma frame_abort_run:
  "calls (\<lambda>q. leaves (name_any (ev_meta evac)) q \<or> abort_may ctx evac st q) (abort_run ctx evac st) (\<lambda>_. True)"
  unfolding abort_run_def Let_def
  by (intro call_intros) (auto simp: abort_may_def Let_def)

lemma abort_may_message [simp]: "abort_may ctx evac (st\<lparr>s_message := m\<rparr>) q = abort_may ctx evac st q"
  by (simp add: abort_may_def)

lemma abort_may_finalizers [simp]: "abort_may ctx evac st (Patch_merge K_Evacuation [] (name_any (ev_meta evac)) (P_finalizers fs))"
  by (auto simp: abort_may_def Let_def)

text \<open>What a reconcile may send in all: the phase's frame, or the abort path's, or edits of itself.\<close>

lemma frame_reconcile:
  "calls (\<lambda>q. harmless (name_any (ev_meta evac)) q
        \<or> (\<not> s_committed (recorded_status evac) \<or> s_phase (recorded_status evac) = Aborting)
            \<and> abort_may ctx evac (recorded_status evac) q
        \<or> phase_may ctx evac (recorded_status evac) q
        \<or> (\<exists>fs. q = Patch_merge K_Evacuation [] (name_any (ev_meta evac)) (P_finalizers fs)))
     (reconcile ctx evac) (\<lambda>_. True)" (is "calls ?P _ _")
proof -
  let ?st = "recorded_status evac"
  have ab: "calls ?P (abort_run ctx evac st) (\<lambda>_. True)"
    if "\<not> s_committed ?st \<or> s_phase ?st = Aborting" "\<And>q. abort_may ctx evac st q = abort_may ctx evac ?st q" for st
    by (rule calls_mono [OF frame_abort_run]) (use that in \<open>auto simp: leaves_def\<close>)
  have ph: "calls ?P (handle_phase ctx evac ?st) (\<lambda>_. True)"
    by (rule calls_mono [OF frame_handle_phase]) auto
  show ?thesis
    unfolding reconcile_def Let_def bnd_if_ret
    by (intro call_intros ph ab) auto
qed

lemma phase_may_no_status: "phase_may ctx evac st q \<Longrightarrow> q \<noteq> Patch_status n st'"
  by (cases "s_phase st") (auto simp: phase_may_def Let_def attempt_objects_def attempt_cleanup_def strips_zfs_def
      on_target_def on_source_def on_snapshot_def edits_def unlocks_def params_req_def)

end
