(* ===== verification/Swap_Safety.thy ===== *)
theory Swap_Safety
  imports Trace_Rules Phase_Frame
begin

text \<open>
  What was seen before the irreversible calls of the commit and the swap: the quiescence check,
  the commit record, the deletion of the old PV, and the end of the swap.
\<close>

section \<open>Quiescence\<close>

definition may_proceed :: "ctx \<Rightarrow> zfs_evacuation \<Rightarrow> source_info \<Rightarrow> pod list \<Rightarrow> trace \<Rightarrow> bool" where
  "may_proceed ctx evac src pods h \<longleftrightarrow>
     (case es_mode (ev_spec evac) of
        WhenIdle \<Rightarrow> pods = []
      | WhenClaimed \<Rightarrow> (\<forall>p \<in> set pods. \<not> pod_is_scheduled p)
          \<and> (\<exists>x. (Get K_Node [] (si_node src), opt_obj O_node x) \<in> set h
               \<and> (\<forall>n. x = Some n \<longrightarrow> node_repels_pods n (taint_key ctx))))"

text \<open>
  The calls \<open>h\<close> show the PVC quiet: the pods of its namespace were listed, and those that
  reference it let the copy go ahead.
\<close>

definition seen_quiet :: "ctx \<Rightarrow> zfs_evacuation \<Rightarrow> evac_status \<Rightarrow> trace \<Rightarrow> bool" where
  "seen_quiet ctx evac st h \<longleftrightarrow> (\<exists>src pref all. s_source st = Some src \<and> s_pvc_ref st = Some pref
     \<and> (List_all K_Pod (pr_namespace pref) None, R_objs (map O_pod all)) \<in> set h
     \<and> may_proceed ctx evac src (filter (\<lambda>p. pod_references_pvc p (pr_name pref)) all) h)"

lemma may_proceed_mono: "may_proceed ctx evac src pods h \<Longrightarrow> may_proceed ctx evac src pods (h @ t)"
  by (auto simp: may_proceed_def split: evacuation_mode.splits)

lemma seen_quiet_mono: "seen_quiet ctx evac st h \<Longrightarrow> seen_quiet ctx evac st (h @ t)"
  unfolding seen_quiet_def using may_proceed_mono by fastforce

lemma safe_bnd_blocking:
  assumes "s_source st = Some src" and "\<And>t. G (h @ t) (Get K_Node [] (si_node src))"
    and "\<And>msg t. safe G (f (Some msg)) (h @ t)"
    and "\<And>t. may_proceed ctx evac src pods (h @ t) \<Longrightarrow> safe G (f None) (h @ t)"
  shows "safe G (bnd (blocking_reason ctx evac st pods) f) h"
proof (cases "es_mode (ev_spec evac)")
  case WhenIdle
  then show ?thesis using assms(3) [of _ "[]"] assms(4) [of "[]"]
    by (simp add: blocking_reason_def may_proceed_def)
next
  case WhenClaimed
  show ?thesis
  proof (cases "filter pod_is_scheduled pods = []")
    case False
    then show ?thesis using WhenClaimed assms(3) [of _ "[]"] by (simp add: blocking_reason_def Let_def)
  next
    case True
    then have ns: "\<forall>p \<in> set pods. \<not> pod_is_scheduled p" by (simp add: filter_empty_conv)
    have go: "safe G (f (if r then None else Some m)) (h @ [(Get K_Node [] (si_node src), opt_obj O_node x)])"
      if "r = (case x of Some n \<Rightarrow> node_repels_pods n (taint_key ctx) | None \<Rightarrow> True)" for r m x
    proof (cases r)
      case True
      with that have "\<forall>n. x = Some n \<longrightarrow> node_repels_pods n (taint_key ctx)" by (auto split: option.splits)
      then have "may_proceed ctx evac src pods (h @ [(Get K_Node [] (si_node src), opt_obj O_node x)])"
        using WhenClaimed ns by (auto simp: may_proceed_def)
      with True assms(4) show ?thesis by simp
    qed (simp add: assms(3))
    have "bnd (blocking_reason ctx evac st pods) f =
        bnd (get_node (si_node src)) (\<lambda>o1. f (if (case o1 of Some n \<Rightarrow> node_repels_pods n (taint_key ctx) | None \<Rightarrow> True)
           then None else Some (uncordoned_message pods)))"
      using True WhenClaimed
      by (simp add: blocking_reason_def source_repels_pods_def assms(1) need_def get_node_def ask_def fun_eq_iff
          split: sum.split)
    also have "safe G \<dots> h"
      by (rule safe_bnd_get(2)) (use assms(2) [of "[]"] go in simp_all)
    finally show ?thesis .
  qed
qed

section \<open>Deleting the old PV\<close>

definition old_pv_delete_ok :: "ctx \<Rightarrow> zfs_evacuation \<Rightarrow> evac_status \<Rightarrow> trace \<Rightarrow> req \<Rightarrow> bool" where
  "old_pv_delete_ok ctx evac st h q \<longleftrightarrow> (\<forall>ns n. q = Delete K_PV ns n \<longrightarrow>
     n = es_pv_name (ev_spec evac) \<and> s_phase st = Swapping \<and> seen_quiet ctx evac st h
   \<and> (\<exists>src pv. s_source st = Some src \<and> (Get K_PV [] n, R_obj (O_pv pv)) \<in> set h
        \<and> m_uid (pv_meta pv) = Some (si_pv_uid src) \<and> \<not> being_deleted (pv_meta pv)))"

definition not_pv_delete :: "req \<Rightarrow> bool" where
  "not_pv_delete q \<longleftrightarrow> (\<forall>ns n. q \<noteq> Delete K_PV ns n)"

lemma not_pv_delete_simps [simp]:
  "not_pv_delete (Get k ns n)" "not_pv_delete (List_all k ns sel)" "not_pv_delete (Create k ns x)"
  "not_pv_delete (Replace k ns n x)" "not_pv_delete (Delete k ns n) \<longleftrightarrow> k \<noteq> K_PV"
  "not_pv_delete (Patch_merge k ns n p)" "not_pv_delete (Patch_status n st)"
  "not_pv_delete Now" "not_pv_delete Rand_u128" "not_pv_delete Rand_u16" "not_pv_delete (Spawn_relay bs rs)"
  "not_pv_delete (Relay_load t)" "not_pv_delete (Abort_task t)" "not_pv_delete Selection_lock"
  "not_pv_delete Selection_unlock"
  by (simp_all add: not_pv_delete_def)

lemma old_pv_delete_ok_other: "not_pv_delete q \<Longrightarrow> old_pv_delete_ok ctx evac st h q"
  by (auto simp: old_pv_delete_ok_def not_pv_delete_def)

lemma safe_swapping_delete:
  assumes "s_phase st = Swapping"
  shows "safe (old_pv_delete_ok ctx evac st) (swapping ctx evac st) h"
proof -
  let ?G = "old_pv_delete_ok ctx evac st" and ?pv = "es_pv_name (ev_spec evac)"
  have other: "safe ?G p h'" if "calls not_pv_delete p (\<lambda>_. True)" for p :: "'b prog" and h'
    by (rule safe_calls [OF that]) (rule old_pv_delete_ok_other)
  have del: "safe ?G (bnd (blocking_reason ctx evac st (filter (\<lambda>p. pod_references_pvc p (pr_name pref)) all)) (\<lambda>blocked. (case blocked of
        Some msg \<Rightarrow> bnd (wait name st msg 10) (\<lambda>a. ret (Some a))
      | None \<Rightarrow> bnd (delete_obj K_PV [] ?pv) (\<lambda>_. ret None)))) h'"
    if st: "s_source st = Some src" "s_pvc_ref st = Some pref"
      and pv: "(Get K_PV [] ?pv, R_obj (O_pv pv)) \<in> set h'" "m_uid (pv_meta pv) = Some (si_pv_uid src)" "\<not> being_deleted (pv_meta pv)"
      and pods: "(List_all K_Pod (pr_namespace pref) None, R_objs (map O_pod all)) \<in> set h'"
    for src pref pv all name h'
  proof (rule safe_bnd_blocking [OF st(1)])
    fix t assume m: "may_proceed ctx evac src (filter (\<lambda>p. pod_references_pvc p (pr_name pref)) all) (h' @ t)"
    have "?G (h' @ t) (Delete K_PV [] ?pv)"
      unfolding old_pv_delete_ok_def seen_quiet_def using assms st pv pods m by auto
    then show "safe ?G (case None of Some msg \<Rightarrow> bnd (wait name st msg 10) (\<lambda>a. ret (Some a))
      | None \<Rightarrow> bnd (delete_obj K_PV [] ?pv) (\<lambda>_. ret None)) (h' @ t)"
      by (simp add: delete_obj_def) (rule safe_bnd_ask, simp_all add: safe_Done)
  next
    show "safe ?G (case Some msg of Some msg \<Rightarrow> bnd (wait name st msg 10) (\<lambda>a. ret (Some a))
      | None \<Rightarrow> bnd (delete_obj K_PV [] ?pv) (\<lambda>_. ret None)) (h' @ t)" for msg t
      unfolding option.simps by (rule other) (intro call_intros, simp_all)
  qed (simp add: old_pv_delete_ok_other)
  show ?thesis
    unfolding swapping_def Let_def
    apply (rule safe_bnd_need)+
    apply (rule safe_bnd_get(1))
     apply (simp add: old_pv_delete_ok_other)
    apply (rule safe_optionI)
     apply (rule other, intro call_intros; simp)
    apply (rule safe_ifI)
     apply (rule safe_bnd)
      apply (rule safe_ifI)
       apply (rule safe_bnd_pods)
        apply (simp add: old_pv_delete_ok_other)
       apply (rule del; simp)
      apply (rule safe_Done)
     apply (rule other, intro call_intros; simp)
    apply (rule other, intro call_intros; simp)
    done
qed

section \<open>From a phase to the reconcile\<close>

text \<open>
  A guard of the reconcile follows from the guard of the phase handler, when it allows
  everything the cancel checks, the abort path and the finalizer edits do.
\<close>

lemma safe_reconcile:
  assumes "\<And>h q. leaves (name_any (ev_meta evac)) q \<Longrightarrow> G h q"
    and "\<And>h q. abort_may ctx evac (recorded_status evac) q \<Longrightarrow> G h q"
    and "\<And>h. safe G (handle_phase ctx evac (recorded_status evac)) h"
  shows "safe G (reconcile ctx evac) h"
proof -
  let ?P = "\<lambda>q. leaves (name_any (ev_meta evac)) q \<or> abort_may ctx evac (recorded_status evac) q"
  have other: "safe G p h'" if "calls ?P p (\<lambda>_. True)" for p :: "'b prog" and h'
    by (rule safe_calls [OF that]) (use assms(1,2) in blast)
  have ab: "safe G (abort_run ctx evac (recorded_status evac)) h'"
    "safe G (abort_run ctx evac ((recorded_status evac)\<lparr>s_message := m\<rparr>)) h'" for h' m
    by (rule other, rule calls_mono [OF frame_abort_run], simp_all)+
  have fin: "safe G (if d then remove_evac_finalizer (name_any (ev_meta evac)) else ret ()) h'"
    "safe G (ensure_evac_finalizer evac) h'" for d h'
    by (rule other, intro call_intros; simp)+
  have can: "safe G (cancel_reason ctx evac st) h'" for st h'
    by (rule other, intro call_intros; simp)
  have abw: "safe G (bnd (write_status (name_any (ev_meta evac)) (st\<lparr>s_phase := Aborting, s_cancelled := True, s_message := m\<rparr>)) (\<lambda>_. requeue_secs 1)) h'" for st m h'
    by (rule other, intro call_intros; simp)
  show ?thesis
    unfolding reconcile_def Let_def bnd_if_ret
    by (intro safe_ifI safe_bnd [OF fin(1)] safe_bnd [OF fin(2)] safe_bnd [OF can] safe_optionI ab abw safe_Done assms(3))
qed

lemma pv_delete_only_swapping:
  "phase_may ctx evac st q \<Longrightarrow> s_phase st \<noteq> Swapping \<Longrightarrow> not_pv_delete q"
  "abort_may ctx evac st q \<Longrightarrow> not_pv_delete q" "harmless name q \<Longrightarrow> not_pv_delete q"
  by (cases q; auto simp: phase_may_def abort_may_def Let_def edits_def attempt_objects_def attempt_cleanup_def
      strips_zfs_def on_target_def on_source_def on_snapshot_def unlocks_def params_req_def not_pv_delete_def
      split: phase.splits)+

lemma safe_handle_phase_delete: "safe (old_pv_delete_ok ctx evac st) (handle_phase ctx evac st) h"
proof (cases "s_phase st = Swapping")
  case True
  then show ?thesis by (simp add: handle_phase_def safe_swapping_delete)
next
  case False
  show ?thesis
    by (rule safe_calls [OF frame_handle_phase], rule old_pv_delete_ok_other)
      (use pv_delete_only_swapping False in blast)
qed

lemma safe_reconcile_delete: "safe (old_pv_delete_ok ctx evac (recorded_status evac)) (reconcile ctx evac) h"
  by (rule safe_reconcile)
    (auto intro: old_pv_delete_ok_other pv_delete_only_swapping safe_handle_phase_delete simp: leaves_def)

section \<open>The commit record and the end of the swap\<close>

definition status_guard :: "(trace \<Rightarrow> evac_status \<Rightarrow> bool) \<Rightarrow> trace \<Rightarrow> req \<Rightarrow> bool" where
  "status_guard W h q \<longleftrightarrow> (\<forall>n st. q = Patch_status n st \<longrightarrow> W h st)"

lemma status_guard_simps [simp]:
  "status_guard W h (Patch_status n st) \<longleftrightarrow> W h st"
  "status_guard W h (Get k ns n)" "status_guard W h (List_all k ns sel)" "status_guard W h (Create k ns x)"
  "status_guard W h (Delete k ns n)" "status_guard W h (Patch_merge k ns n p)"
  by (simp_all add: status_guard_def)

lemma abort_may_no_status: "abort_may ctx evac st q \<Longrightarrow> q \<noteq> Patch_status n st'"
  by (auto simp: abort_may_def Let_def attempt_cleanup_def strips_zfs_def on_target_def on_source_def
      edits_def unlocks_def params_req_def)

lemma safe_advance: "G h (Patch_status n (st\<lparr>s_phase := p, s_message := None\<rparr>)) \<Longrightarrow> safe G (advance n st p) h"
  by (simp add: advance_def write_status_def with_context_def ask_def safe_def split: sum.split)

text \<open>The commit record: what was seen, and what is stored.\<close>

definition commit_seen :: "ctx \<Rightarrow> zfs_evacuation \<Rightarrow> evac_status \<Rightarrow> trace \<Rightarrow> evac_status \<Rightarrow> bool" where
  "commit_seen ctx evac st h st' \<longleftrightarrow> (s_phase st = Committing \<and> s_phase st' = Swapping \<longrightarrow>
     seen_quiet ctx evac st h \<and> (\<exists>src pref tg pvc pv new_pv.
       s_source st = Some src \<and> s_pvc_ref st = Some pref \<and> s_target st = Some tg
     \<and> (Get K_PVC (pr_namespace pref) (pr_name pref), R_obj (O_pvc pvc)) \<in> set h \<and> m_uid (pvc_meta pvc) = Some (pr_uid pref)
     \<and> (Get K_PV [] (es_pv_name (ev_spec evac)), R_obj (O_pv pv)) \<in> set h \<and> m_uid (pv_meta pv) = Some (si_pv_uid src)
     \<and> render_new_pv pv pref tg = Inr new_pv
     \<and> (\<exists>oj nj. pv_to_json (c_libs ctx) pv = Inr oj \<and> pv_to_json (c_libs ctx) new_pv = Inr nj
          \<and> st' = (commit_record st oj nj)\<lparr>s_phase := Swapping, s_message := None\<rparr>)))"

lemma safe_committing:
  "safe (status_guard (commit_seen ctx evac st)) (committing ctx evac st) h"
proof -
  let ?G = "status_guard (commit_seen ctx evac st)"
  have other: "safe ?G p h'" if "calls (\<lambda>q. \<forall>n s. q = Patch_status n s \<longrightarrow> s_phase s \<noteq> Swapping \<or> s_phase s = s_phase st) p (\<lambda>_. True)"
    for p :: "'b prog" and h'
    by (rule safe_calls [OF that]) (auto simp: status_guard_def commit_seen_def)
  have out: "safe ?G (go_abort n st m) h'" "safe ?G (fail n st m) h'" "safe ?G (wait n st m k) h'" for n m k h'
    by (rule other, intro call_intros; simp)+
  have adv: "safe ?G (advance n (commit_record st oj nj) Swapping) h'"
    if "commit_seen ctx evac st h' ((commit_record st oj nj)\<lparr>s_phase := Swapping, s_message := None\<rparr>)" for n oj nj h'
    using that by (intro safe_advance) simp
  have blk: "safe ?G (bnd (blocking_reason ctx evac st (filter (\<lambda>p. pod_references_pvc p (pr_name pref)) all)) (\<lambda>blocked. (case blocked of
        Some msg \<Rightarrow> wait (name_any (ev_meta evac)) st msg 15
      | None \<Rightarrow> bnd (get_pv (es_pv_name (ev_spec evac))) (\<lambda>pv_o.
          bnd (need ''old PV vanished at commit'' pv_o) (\<lambda>old_pv.
          if m_uid (pv_meta old_pv) \<noteq> Some (si_pv_uid src) then fail (name_any (ev_meta evac)) st ''old PV UID changed at commit''
          else bnd (Done (render_new_pv old_pv pref tg)) (\<lambda>new_pv.
               bnd (Done (pv_to_json (c_libs ctx) old_pv)) (\<lambda>old_json.
               bnd (Done (pv_to_json (c_libs ctx) new_pv)) (\<lambda>new_json.
                 advance (name_any (ev_meta evac)) (commit_record st old_json new_json) Swapping)))))))) h'"
    if st: "s_source st = Some src" "s_pvc_ref st = Some pref" "s_target st = Some tg"
      and seen: "(Get K_PVC (pr_namespace pref) (pr_name pref), R_obj (O_pvc pvc)) \<in> set h'" "m_uid (pvc_meta pvc) = Some (pr_uid pref)"
        "(List_all K_Pod (pr_namespace pref) None, R_objs (map O_pod all)) \<in> set h'"
    for src pref tg pvc all h'
  proof (rule safe_bnd_blocking [OF st(1)])
    fix t assume m: "may_proceed ctx evac src (filter (\<lambda>p. pod_references_pvc p (pr_name pref)) all) (h' @ t)"
    then have q: "seen_quiet ctx evac st (h' @ t)" using st seen unfolding seen_quiet_def by auto
    show "safe ?G (case None of Some msg \<Rightarrow> wait (name_any (ev_meta evac)) st msg 15
      | None \<Rightarrow> bnd (get_pv (es_pv_name (ev_spec evac))) (\<lambda>pv_o.
          bnd (need ''old PV vanished at commit'' pv_o) (\<lambda>old_pv.
          if m_uid (pv_meta old_pv) \<noteq> Some (si_pv_uid src) then fail (name_any (ev_meta evac)) st ''old PV UID changed at commit''
          else bnd (Done (render_new_pv old_pv pref tg)) (\<lambda>new_pv.
               bnd (Done (pv_to_json (c_libs ctx) old_pv)) (\<lambda>old_json.
               bnd (Done (pv_to_json (c_libs ctx) new_pv)) (\<lambda>new_json.
                 advance (name_any (ev_meta evac)) (commit_record st old_json new_json) Swapping)))))) (h' @ t)"
      unfolding option.simps
    proof (rule safe_bnd_get(1), simp, rule safe_bnd_need, rule safe_ifI, rule out(2), (rule safe_bnd_Done)+, rule adv)
      fix pv_o old_pv new_pv oj nj
      assume A: "pv_o = Some old_pv" "\<not> m_uid (pv_meta old_pv) \<noteq> Some (si_pv_uid src)"
        "render_new_pv old_pv pref tg = Inr new_pv" "pv_to_json (c_libs ctx) old_pv = Inr oj" "pv_to_json (c_libs ctx) new_pv = Inr nj"
      show "commit_seen ctx evac st ((h' @ t) @ [(Get K_PV [] (es_pv_name (ev_spec evac)), opt_obj O_pv pv_o)])
          ((commit_record st oj nj)\<lparr>s_phase := Swapping, s_message := None\<rparr>)"
        unfolding commit_seen_def
        by (intro impI conjI, rule seen_quiet_mono [OF q], rule exI [of _ src], rule exI [of _ pref],
            rule exI [of _ tg], rule exI [of _ pvc], rule exI [of _ old_pv], rule exI [of _ new_pv])
          (use A st seen in auto)
    qed
  next
    show "safe ?G (case Some msg of Some msg \<Rightarrow> wait (name_any (ev_meta evac)) st msg 15 | None \<Rightarrow> p) (h' @ t)" for msg t p
      by (simp add: out)
  qed simp
  show ?thesis
    unfolding committing_def Let_def unexpected_pods_def
    by ((rule safe_bnd_need)+, rule safe_bnd_get(3), simp, rule safe_bnd_need, rule safe_ifI, rule out(1),
        rule safe_bnd_pods, simp, rule safe_ifI, rule out(1), rule blk) auto
qed

definition swap_seen :: "zfs_evacuation \<Rightarrow> evac_status \<Rightarrow> trace \<Rightarrow> evac_status \<Rightarrow> bool" where
  "swap_seen evac st h st' \<longleftrightarrow> (s_phase st = Swapping \<and> s_phase st' = CleaningUp \<longrightarrow>
     (\<exists>src pref pv. s_source st = Some src \<and> s_pvc_ref st = Some pref
        \<and> (Get K_PV [] (es_pv_name (ev_spec evac)), R_obj (O_pv pv)) \<in> set h
        \<and> m_uid (pv_meta pv) \<noteq> Some (si_pv_uid src) \<and> pv_phase pv = ''Bound'' \<and> pv_claim_uid pv = pr_uid pref)
   \<and> (\<forall>p. s_original_reclaim_policy st = Some p \<longrightarrow>
        (\<exists>a. (Patch_merge K_PV [] (es_pv_name (ev_spec evac)) (P_reclaim_policy p), a) \<in> set h \<and> (\<forall>e. a \<noteq> R_err e))))"

lemma swap_seen_stay: "s_phase st' = s_phase st \<Longrightarrow> swap_seen evac st h st'"
  by (cases "s_phase st") (simp_all add: swap_seen_def)

lemma safe_swapping_done:
  "safe (status_guard (swap_seen evac st)) (swapping ctx evac st) h"
proof -
  let ?G = "status_guard (swap_seen evac st)" and ?pv = "es_pv_name (ev_spec evac)"
  have other: "safe ?G p h'" if "calls (\<lambda>q. \<forall>n s. q = Patch_status n s \<longrightarrow> s_phase s = s_phase st) p (\<lambda>_. True)"
    for p :: "'b prog" and h'
    by (rule safe_calls [OF that]) (unfold status_guard_def, blast intro: swap_seen_stay)
  have adv: "safe ?G (advance n st CleaningUp) h'" if "swap_seen evac st h' (st\<lparr>s_phase := CleaningUp, s_message := None\<rparr>)" for n h'
    using that by (intro safe_advance) simp
  have done1: "safe ?G (bnd (case s_original_reclaim_policy st of Some orig \<Rightarrow> patch_obj K_PV [] ?pv (P_reclaim_policy orig) | None \<Rightarrow> ret ()) (\<lambda>_.
       advance (name_any (ev_meta evac)) st CleaningUp)) h'"
    if "s_source st = Some src" "s_pvc_ref st = Some pref" "(Get K_PV [] ?pv, R_obj (O_pv pv)) \<in> set h'"
      "m_uid (pv_meta pv) \<noteq> Some (si_pv_uid src)" "pv_phase pv = ''Bound''" "pv_claim_uid pv = pr_uid pref" for src pref pv h'
  proof (cases "s_original_reclaim_policy st")
    case None
    have "swap_seen evac st h' (st\<lparr>s_phase := CleaningUp, s_message := None\<rparr>)"
      unfolding swap_seen_def
      by (intro impI conjI allI, rule exI [of _ src], rule exI [of _ pref], rule exI [of _ pv]) (simp_all add: that None)
    then show ?thesis unfolding None option.simps bnd.simps sum.simps by (rule adv)
  next
    case (Some orig)
    note that' = that
    have "safe ?G (advance (name_any (ev_meta evac)) st CleaningUp) (h' @ [(Patch_merge K_PV [] ?pv (P_reclaim_policy orig), a)])"
      if a: "as_unit a = Inr u" for a u
    proof (rule adv, unfold swap_seen_def, intro impI conjI allI)
      show "\<exists>src pref pv'. s_source st = Some src \<and> s_pvc_ref st = Some pref
          \<and> (Get K_PV [] ?pv, R_obj (O_pv pv')) \<in> set (h' @ [(Patch_merge K_PV [] ?pv (P_reclaim_policy orig), a)])
          \<and> m_uid (pv_meta pv') \<noteq> Some (si_pv_uid src) \<and> pv_phase pv' = ''Bound'' \<and> pv_claim_uid pv' = pr_uid pref"
        by (rule exI [of _ src], rule exI [of _ pref], rule exI [of _ pv]) (simp add: that')
      fix p assume "s_original_reclaim_policy st = Some p"
      then show "\<exists>a'. (Patch_merge K_PV [] ?pv (P_reclaim_policy p), a') \<in> set (h' @ [(Patch_merge K_PV [] ?pv (P_reclaim_policy orig), a)])
          \<and> (\<forall>e. a' \<noteq> R_err e)"
        using a Some by (auto simp: as_unit_Inr)
    qed
    then show ?thesis unfolding patch_obj_def Some option.simps by (intro safe_bnd_ask) simp_all
  qed
  show ?thesis
    unfolding swapping_def Let_def
    apply ((rule safe_bnd_need)+, rule safe_bnd_get(1), simp, rule safe_optionI)
     apply (rule other, intro call_intros; simp)
    apply (rule safe_ifI)
     apply (rule other, intro call_intros; simp)
    apply (rule safe_ifI, rule done1 [rotated 3], assumption, simp, simp, assumption, assumption, simp)
    apply (rule other, intro call_intros; simp)
    done
qed

lemma safe_trivial: "(\<And>h q. G h q) \<Longrightarrow> safe G p h"
  unfolding safe_def by (rule vc_frame [where P = "\<lambda>_. True" and R = "\<lambda>_. True"]) (auto intro: calls_any)

lemma safe_reconcile_status:
  assumes "\<And>h st'. s_phase st' \<in> {Aborting, Failed} \<Longrightarrow> W h st'"
    and "\<And>h. safe (status_guard W) (handle_phase ctx evac (recorded_status evac)) h"
  shows "safe (status_guard W) (reconcile ctx evac) h"
  by (rule safe_reconcile)
    (use assms abort_may_no_status in \<open>auto simp: status_guard_def leaves_def\<close>)

lemma safe_reconcile_commit:
  "safe (status_guard (commit_seen ctx evac (recorded_status evac))) (reconcile ctx evac) h"
proof (rule safe_reconcile_status)
  show "safe (status_guard (commit_seen ctx evac (recorded_status evac))) (handle_phase ctx evac (recorded_status evac)) h" for h
  proof (cases "s_phase (recorded_status evac) = Committing")
    case True
    then show ?thesis by (simp add: handle_phase_def safe_committing)
  next
    case False
    then show ?thesis by (intro safe_trivial) (simp add: status_guard_def commit_seen_def)
  qed
qed (auto simp: commit_seen_def)

lemma safe_reconcile_swapped:
  "safe (status_guard (swap_seen evac (recorded_status evac))) (reconcile ctx evac) h"
proof (rule safe_reconcile_status)
  show "safe (status_guard (swap_seen evac (recorded_status evac))) (handle_phase ctx evac (recorded_status evac)) h" for h
  proof (cases "s_phase (recorded_status evac) = Swapping")
    case True
    then show ?thesis by (simp add: handle_phase_def safe_swapping_done)
  next
    case False
    then show ?thesis by (intro safe_trivial) (simp add: status_guard_def swap_seen_def)
  qed
qed (auto simp: swap_seen_def)

end
