(* ===== verification/Order_Safety.thy ===== *)
theory Order_Safety
  imports Swap_Safety
begin

text \<open>
  The order of calls in the other phases: the lock is in place before Quiescing, quiescence is
  observed and settled before a target is picked, the attempt record is durable before its
  objects exist, the restore follows a connected source, the source volume is deleted last,
  and an abort gives up the guard only after unlocking.
\<close>

section \<open>The parameter object\<close>

text \<open>
  The state of the parameter object that a call shows: read, or written without an error. An
  absent object is one with empty lists.
\<close>

definition shows_params :: "req \<Rightarrow> resp \<Rightarrow> evacuation_params_spec option" where
  "shows_params q a = (case q of
     Get k _ n \<Rightarrow> if k = K_Params \<and> n = PARAMS_NAME
       then (case a of R_none \<Rightarrow> Some default_params | R_obj x \<Rightarrow> map_option ep_spec (un_params x) | _ \<Rightarrow> None)
       else None
   | Create _ _ x \<Rightarrow> (case a of R_err e \<Rightarrow> None | _ \<Rightarrow> map_option ep_spec (un_params x))
   | Replace _ _ _ x \<Rightarrow> (case a of R_err e \<Rightarrow> None | _ \<Rightarrow> map_option ep_spec (un_params x))
   | _ \<Rightarrow> None)"

definition params_seen :: "trace \<Rightarrow> evacuation_params_spec \<Rightarrow> bool" where
  "params_seen h sp \<longleftrightarrow> (\<exists>(q, a) \<in> set h. shows_params q a = Some sp)"

lemma params_seen_mono: "params_seen h sp \<Longrightarrow> params_seen (h @ t) sp"
  by (auto simp: params_seen_def)

lemma params_seen_last: "shows_params q a = Some sp \<Longrightarrow> params_seen (h @ [(q, a)]) sp"
  by (auto simp: params_seen_def)

lemma shows_params_simps [simp]:
  "shows_params (Get K_Params ns PARAMS_NAME) R_none = Some default_params"
  "shows_params (Get K_Params ns PARAMS_NAME) (R_obj (O_params x)) = Some (ep_spec x)"
  "\<forall>e. a \<noteq> R_err e \<Longrightarrow> shows_params (Create k ns (O_params x)) a = Some (ep_spec x)"
  "\<forall>e. a \<noteq> R_err e \<Longrightarrow> shows_params (Replace k ns n (O_params x)) a = Some (ep_spec x)"
  by (simp_all add: shows_params_def un_params_def split: resp.split)

text \<open>An update that returns has seen or written a state in which its change holds.\<close>

definition params_updated :: "(evacuation_params_spec \<Rightarrow> bool \<times> evacuation_params_spec) \<Rightarrow> trace \<Rightarrow> bool" where
  "params_updated f h \<longleftrightarrow> (\<exists>sp0 sp. params_seen h sp \<and> (sp = snd (f sp0) \<or> (\<not> fst (f sp0) \<and> sp = sp0)))"

lemma update_params_n_post:
  "vc (\<lambda>_ _. True) (update_params_n n f) (\<lambda>r h'. r = Inr () \<longrightarrow> params_updated f h') h"
proof (induction n arbitrary: h)
  case 0
  show ?case by simp
next
  case (Suc n)
  have wr: "vc (\<lambda>_ _. True) (case a of R_err e \<Rightarrow> if is_conflict e then update_params_n n f else throw (E_kube e) | _ \<Rightarrow> ret ())
      (\<lambda>r h'. r = Inr () \<longrightarrow> params_updated f h') h'"
    if "(\<forall>e. a \<noteq> R_err e) \<Longrightarrow> params_updated f h'" for a h'
    using Suc.IH that by (cases a) simp_all
  have c: "params_updated f (h @ [(Create K_Params [] (O_params (params_object sp)), a)])"
    if "f s = (b, sp)" "\<forall>e. a \<noteq> R_err e" for s b sp a h
    using that unfolding params_updated_def
    by (intro exI [of _ s] exI [of _ sp]) (auto intro!: params_seen_last simp: params_object_def)
  have r: "params_updated f (h @ [(Replace K_Params [] n (O_params (x\<lparr>ep_spec := sp\<rparr>)), a)])"
    if "f s = (b, sp)" "\<forall>e. a \<noteq> R_err e" for s b sp a h n x
    using that unfolding params_updated_def
    by (intro exI [of _ s] exI [of _ sp]) (auto intro!: params_seen_last)
  have g0: "params_updated f (h @ [(Get K_Params [] PARAMS_NAME, R_none)])" if "\<not> fst (f default_params)" for h
    using that unfolding params_updated_def
    by (intro exI [of _ default_params]) (auto intro!: params_seen_last)
  have g1: "params_updated f (h @ [(Get K_Params [] PARAMS_NAME, R_obj (O_params x))])" if "\<not> fst (f (ep_spec x))" for h x
    using that unfolding params_updated_def
    by (intro exI [of _ "ep_spec x"]) (auto intro!: params_seen_last)
  show ?case
    unfolding update_params_n.simps get_params_def
  proof (rule vc_bnd_using [where S = "\<lambda>r h'. \<forall>o1. r = Inr o1 \<longrightarrow> h' = h @ [(Get K_Params [] PARAMS_NAME, opt_obj O_params o1)]"])
    show "vc (\<lambda>_ _. True) (ask (Get K_Params [] PARAMS_NAME) (as_opt un_params))
        (\<lambda>r h'. \<forall>o1. r = Inr o1 \<longrightarrow> h' = h @ [(Get K_Params [] PARAMS_NAME, opt_obj O_params o1)]) h"
      by (auto simp: vc_ask as_opt_Inr split: option.splits)
  next
    fix o1 h' assume "\<forall>o2. (Inr o1 :: error + evacuation_params option) = Inr o2 \<longrightarrow> h' = h @ [(Get K_Params [] PARAMS_NAME, opt_obj O_params o2)]"
    then have h': "h' = h @ [(Get K_Params [] PARAMS_NAME, opt_obj O_params o1)]" by simp
    show "vc (\<lambda>_ _. True) (case o1 of
        None \<Rightarrow> (case f default_params of (changed, spec) \<Rightarrow> if \<not> changed then ret ()
             else Call (Create K_Params [] (O_params (params_object spec))) (\<lambda>a.
               case a of R_err e \<Rightarrow> if is_conflict e then update_params_n n f else throw (E_kube e) | _ \<Rightarrow> ret ()))
      | Some params \<Rightarrow> (case f (ep_spec params) of (changed, spec) \<Rightarrow> if \<not> changed then ret ()
             else Call (Replace K_Params [] (name_any (ep_meta params)) (O_params (params\<lparr>ep_spec := spec\<rparr>))) (\<lambda>a.
               case a of R_err e \<Rightarrow> if is_conflict e then update_params_n n f else throw (E_kube e) | _ \<Rightarrow> ret ())))
        (\<lambda>r h'. r = Inr () \<longrightarrow> params_updated f h') h'"
    proof (cases o1)
      case None
      obtain b sp where f: "f default_params = (b, sp)" by fastforce
      have "params_updated f h'" if "\<not> b" using g0 [of h] that f None h' by simp
      then show ?thesis using c [OF f] wr by (simp add: None f)
    next
      case (Some x)
      obtain b sp where f: "f (ep_spec x) = (b, sp)" by fastforce
      have "params_updated f h'" if "\<not> b" using g1 [of x h] that f Some h' by simp
      then show ?thesis using r [OF f] wr by (simp add: Some f)
    qed
  qed simp
qed

lemma update_params_post:
  "vc (\<lambda>_ _. True) (update_params f) (\<lambda>r h'. r = Inr () \<longrightarrow> params_updated f h') h"
  unfolding update_params_def by (rule update_params_n_post)

text \<open>With the laws of the lock table: the key is locked, respectively unlocked, in that state.\<close>

lemma locked_after_update:
  assumes "params_updated (\<lambda>p. lock p k m) h"
  shows "\<exists>sp. params_seen h sp \<and> locked_mode sp k = Some m"
proof -
  obtain s0 s where s: "params_seen h s" "s = snd (lock s0 k m) \<or> (\<not> fst (lock s0 k m) \<and> s = s0)"
    using assms unfolding params_updated_def by blast
  then have "s = snd (lock s0 k m)" using params.lock_changed [of s0 k m] by auto
  then have "locked_mode s k = Some m" by (simp add: params.view_lock)
  with s show ?thesis by blast
qed

lemma unlocked_after_update:
  assumes "params_updated (\<lambda>p. unlock p k) h"
  shows "\<exists>sp. params_seen h sp \<and> locked_mode sp k = None"
proof -
  obtain s0 s where s: "params_seen h s" "s = snd (unlock s0 k) \<or> (\<not> fst (unlock s0 k) \<and> s = s0)"
    using assms unfolding params_updated_def by blast
  then have "s = snd (unlock s0 k)" using params.unlock_changed [of s0 k] by auto
  then have "locked_mode s k = None" by (simp add: params.view_unlock)
  with s show ?thesis by blast
qed

text \<open>A helper with a known postcondition, inside a guarded program.\<close>

lemma safe_bnd_post:
  assumes "calls P p (\<lambda>_. True)" and "\<And>q t. P q \<Longrightarrow> G (h @ t) q" and "vc (\<lambda>_ _. True) p S h"
    and "\<And>x t. S (Inr x) (h @ t) \<Longrightarrow> safe G (f x) (h @ t)"
  shows "safe G (bnd p f) h"
proof -
  have "safe G p h" by (rule safe_calls [OF assms(1)]) (rule assms(2))
  then have "vc (\<lambda>h q. (G h q \<and> True) \<and> True) p (\<lambda>r h'. (True \<and> (\<exists>t. h' = h @ t)) \<and> S r h') h"
    unfolding safe_def by (intro vc_conj vc_extends assms(3))
  then have "vc G p (\<lambda>r h'. (\<exists>t. h' = h @ t) \<and> S r h') h" by (rule vc_mono) auto
  then show ?thesis by (rule safe_bnd_vc) (use assms(4) in auto)
qed

section \<open>Locking\<close>

definition lock_seen :: "zfs_evacuation \<Rightarrow> evac_status \<Rightarrow> trace \<Rightarrow> evac_status \<Rightarrow> bool" where
  "lock_seen evac st h st' \<longleftrightarrow> (s_phase st = Locking \<and> s_phase st' = Quiescing \<longrightarrow>
     s_locked_at st' \<noteq> None
   \<and> (\<exists>r sp. s_pvc_ref st = Some r \<and> params_seen h sp \<and> locked_mode sp (pvc_key r) = Some (es_mode (ev_spec evac))))"

lemma lock_seen_other: "s_phase st \<noteq> Locking \<or> s_phase st' \<noteq> Quiescing \<Longrightarrow> lock_seen evac st h st'"
  by (auto simp: lock_seen_def)

lemma vc_with_context_post:
  "vc (\<lambda>_ _. True) p (\<lambda>r h'. r = Inr () \<longrightarrow> S h') h \<Longrightarrow> vc (\<lambda>_ _. True) (with_context c p) (\<lambda>r h'. r = Inr () \<longrightarrow> S h') h"
  unfolding vc_with_context by (erule vc_conseq) (auto simp: on_ok_def split: sum.split)

lemma safe_locking: "safe (status_guard (lock_seen evac st)) (locking ctx evac st) h"
proof -
  let ?G = "status_guard (lock_seen evac st)"
  have np: "params_req q \<Longrightarrow> ?G h' q" for q h'
    by (cases q) (auto simp: params_req_def status_guard_def)
  have rest: "safe ?G (bnd (with_context m (patch_obj K_PVC ns n p)) (\<lambda>_. bnd (now_rfc3339 ctx) (\<lambda>t.
       advance (name_any (ev_meta evac)) (st\<lparr>s_locked_at := Some t\<rparr>) Quiescing))) h'"
    if "s_pvc_ref st = Some r" "params_seen h' sp" "locked_mode sp (pvc_key r) = Some (es_mode (ev_spec evac))" for m ns n p r sp h'
  proof (rule safe_bnd)
    show "safe ?G (with_context m (patch_obj K_PVC ns n p)) h'"
      by (rule safe_calls [where P = "\<lambda>q. q = Patch_merge K_PVC ns n p"]) (intro call_intros, auto)
    fix t
    show "safe ?G (bnd (now_rfc3339 ctx) (\<lambda>t. advance (name_any (ev_meta evac)) (st\<lparr>s_locked_at := Some t\<rparr>) Quiescing)) (h' @ t)"
    proof (rule safe_bnd)
      show "safe ?G (now_rfc3339 ctx) (h' @ t)"
        by (rule safe_calls [where P = "\<lambda>q. q = Now"]) (intro call_intros, auto simp: status_guard_def)
      fix x t'
      have "params_seen ((h' @ t) @ t') sp" using params_seen_mono [OF params_seen_mono [OF that(2)]] .
      then show "safe ?G (advance (name_any (ev_meta evac)) (st\<lparr>s_locked_at := Some x\<rparr>) Quiescing) ((h' @ t) @ t')"
        by (intro safe_advance) (auto simp: lock_seen_def that(1,3))
    qed
  qed
  show ?thesis
    unfolding locking_def
  proof (rule safe_bnd_need, rule safe_bnd_post [where P = params_req])
    fix r
    show "calls params_req (with_context ''adding PVC to VAP params'' (update_params (\<lambda>p. lock p (pvc_key r) (es_mode (ev_spec evac))))) (\<lambda>_. True)"
      by (intro call_intros) simp_all
    show "vc (\<lambda>_ _. True) (with_context ''adding PVC to VAP params'' (update_params (\<lambda>p. lock p (pvc_key r) (es_mode (ev_spec evac)))))
        (\<lambda>x h'. x = Inr () \<longrightarrow> params_updated (\<lambda>p. lock p (pvc_key r) (es_mode (ev_spec evac))) h') h"
      by (rule vc_with_context_post) (rule update_params_post)
  next
    fix r u t
    assume r: "s_pvc_ref st = Some r"
      and "(Inr u :: error + unit) = Inr () \<longrightarrow> params_updated (\<lambda>p. lock p (pvc_key r) (es_mode (ev_spec evac))) (h @ t)"
    then have "params_updated (\<lambda>p. lock p (pvc_key r) (es_mode (ev_spec evac))) (h @ t)" by simp
    then obtain sp where "params_seen (h @ t) sp" "locked_mode sp (pvc_key r) = Some (es_mode (ev_spec evac))"
      using locked_after_update by blast
    with r show "safe ?G (bnd (with_context ''labeling PVC''
            (patch_obj K_PVC (pr_namespace r) (pr_name r) (P_label EVACUATING_LABEL (Some ''true'')))) (\<lambda>_.
         bnd (now_rfc3339 ctx) (\<lambda>t. advance (name_any (ev_meta evac)) (st\<lparr>s_locked_at := Some t\<rparr>) Quiescing))) (h @ t)"
      by (rule rest)
  qed (rule np)
qed

lemma safe_reconcile_locked:
  "safe (status_guard (lock_seen evac (recorded_status evac))) (reconcile ctx evac) h"
proof (rule safe_reconcile_status)
  show "safe (status_guard (lock_seen evac (recorded_status evac))) (handle_phase ctx evac (recorded_status evac)) h" for h
  proof (cases "s_phase (recorded_status evac) = Locking")
    case True
    then show ?thesis by (simp add: handle_phase_def safe_locking)
  next
    case False
    then show ?thesis by (intro safe_trivial) (simp add: status_guard_def lock_seen_other)
  qed
qed (auto simp: lock_seen_def)

end
