(* ===== verification/Transfer_Safety.thy ===== *)
theory Transfer_Safety
  imports Order_Safety
begin

text \<open>
  The order of calls around an attempt: quiescence is settled before a target is picked, the
  attempt record is durable before its backup exists, the restore follows a connected source;
  and at the ends: the source volume goes last in CleaningUp and in the abort path.
\<close>

section \<open>Quiescing\<close>

text \<open>What \<open>opt_secs_since\<close> answers, and the clock reading it rests on.\<close>

definition since_seen :: "ctx \<Rightarrow> string option \<Rightarrow> u64 option \<Rightarrow> trace \<Rightarrow> bool" where
  "since_seen ctx o1 r h \<longleftrightarrow> (case Option.bind o1 (parse_rfc3339 (c_libs ctx)) of
     None \<Rightarrow> r = None
   | Some t \<Rightarrow> (\<exists>a. (Now, a) \<in> set h \<and> r = (if t \<le> of_time a then Some (as_secs (of_time a - t)) else None)))"

lemma since_seen_mono: "since_seen ctx o1 r h \<Longrightarrow> since_seen ctx o1 r (h @ t)"
  by (auto simp: since_seen_def split: option.splits)

lemma safe_bnd_since:
  assumes "G h Now" and "\<And>r t. since_seen ctx o1 r (h @ t) \<Longrightarrow> safe G (f r) (h @ t)"
  shows "safe G (bnd (opt_secs_since ctx o1) f) h"
proof (cases "Option.bind o1 (parse_rfc3339 (c_libs ctx))")
  case None
  then have "opt_secs_since ctx o1 = ret None"
    by (cases o1) (simp_all add: opt_secs_since_def secs_since_def)
  moreover have "safe G (f None) h" using assms(2) [of None "[]"] None by (simp add: since_seen_def)
  ultimately show ?thesis by simp
next
  case (Some t)
  then have "opt_secs_since ctx o1 = bnd now (\<lambda>n. ret (if t \<le> n then Some (as_secs (n - t)) else None))"
    by (cases o1) (simp_all add: opt_secs_since_def secs_since_def)
  moreover have "safe G (f (if t \<le> of_time a then Some (as_secs (of_time a - t)) else None)) (h @ [(Now, a)])" for a
    by (rule assms(2)) (auto simp: since_seen_def Some)
  ultimately show ?thesis using assms(1) by (simp add: now_def ask_def safe_def)
qed

definition settled_seen :: "ctx \<Rightarrow> zfs_evacuation \<Rightarrow> evac_status \<Rightarrow> trace \<Rightarrow> evac_status \<Rightarrow> bool" where
  "settled_seen ctx evac st h st' \<longleftrightarrow> (s_phase st = Quiescing \<and> s_phase st' = TargetSelecting \<longrightarrow>
     seen_quiet ctx evac st h
   \<and> (\<exists>r. since_seen ctx (s_locked_at st) r h \<and> LOCK_PROPAGATION_SECONDS \<le> unwrap_or r (- 1))
   \<and> (\<exists>e. since_seen ctx (s_quiesced_at st) (Some e) h
          \<and> unwrap_or (es_settle_seconds (ev_spec evac)) DEFAULT_SETTLE_SECONDS \<le> e))"

lemma settled_seen_other: "s_phase st \<noteq> Quiescing \<or> s_phase st' \<noteq> TargetSelecting \<Longrightarrow> settled_seen ctx evac st h st'"
  by (auto simp: settled_seen_def)

lemma safe_quiescing:
  assumes "s_phase st = Quiescing" and "s_source st = Some src"
  shows "safe (status_guard (settled_seen ctx evac st)) (quiescing ctx evac st) h"
proof -
  let ?G = "status_guard (settled_seen ctx evac st)"
    and ?settle = "unwrap_or (es_settle_seconds (ev_spec evac)) DEFAULT_SETTLE_SECONDS"
  have other: "safe ?G p h'" if "calls (\<lambda>q. \<forall>n s. q = Patch_status n s \<longrightarrow> s_phase s \<noteq> TargetSelecting) p (\<lambda>_. True)"
    for p :: "'b prog" and h'
    by (rule safe_calls [OF that]) (auto simp: status_guard_def settled_seen_other)
  have now: "?G h' Now" for h' by (simp add: status_guard_def)
  show ?thesis
    unfolding quiescing_def Let_def
  proof (rule safe_bnd_need, rule safe_bnd_since, rule now, rule safe_ifI)
    show "safe ?G (requeue_secs k) h'" for k h' by (rule other, intro call_intros, simp)
  next
    fix pref r t
    let ?h = "h @ t"
    assume pref: "s_pvc_ref st = Some pref" and r: "since_seen ctx (s_locked_at st) r ?h"
      and grace: "\<not> unwrap_or r (- 1) < LOCK_PROPAGATION_SECONDS"
    show "safe ?G (bnd (pods_referencing_pvc (pr_namespace pref) (pr_name pref)) (\<lambda>pods.
        bnd (blocking_reason ctx evac st pods) (\<lambda>blocked. (case blocked of
          Some msg \<Rightarrow> wait (name_any (ev_meta evac)) (st\<lparr>s_quiesced_at := None\<rparr>) msg 15
        | None \<Rightarrow> bnd (opt_secs_since ctx (s_quiesced_at st)) (\<lambda>elapsed_o. (case elapsed_o of
               None \<Rightarrow> bnd (now_rfc3339 ctx) (\<lambda>t. bnd (write_status (name_any (ev_meta evac)) (st\<lparr>s_quiesced_at := Some t\<rparr>)) (\<lambda>_. requeue_secs ?settle))
             | Some elapsed \<Rightarrow> if elapsed < ?settle then requeue_secs (?settle - elapsed)
                 else advance (name_any (ev_meta evac)) st TargetSelecting))))) ) ?h"
    proof (rule safe_bnd_pods, simp, rule safe_bnd_blocking [OF assms(2)], simp)
      show "safe ?G (case Some msg of Some msg \<Rightarrow> wait (name_any (ev_meta evac)) (st\<lparr>s_quiesced_at := None\<rparr>) msg 15 | None \<Rightarrow> p) h'" for msg p h'
        by (simp only: option.simps, rule other, intro call_intros) (simp_all add: assms(1))
    next
      fix all t'
      let ?h' = "(?h @ [(List_all K_Pod (pr_namespace pref) None, R_objs (map O_pod all))]) @ t'"
      assume "may_proceed ctx evac src (filter (\<lambda>p. pod_references_pvc p (pr_name pref)) all) ?h'"
      then have q: "seen_quiet ctx evac st ?h'" using assms(2) pref unfolding seen_quiet_def by auto
      have r': "since_seen ctx (s_locked_at st) r ?h'"
        using since_seen_mono [OF r, of "[(List_all K_Pod (pr_namespace pref) None, R_objs (map O_pod all))] @ t'"] by simp
      show "safe ?G (case None of Some msg \<Rightarrow> wait (name_any (ev_meta evac)) (st\<lparr>s_quiesced_at := None\<rparr>) msg 15
        | None \<Rightarrow> bnd (opt_secs_since ctx (s_quiesced_at st)) (\<lambda>elapsed_o. (case elapsed_o of
               None \<Rightarrow> bnd (now_rfc3339 ctx) (\<lambda>t. bnd (write_status (name_any (ev_meta evac)) (st\<lparr>s_quiesced_at := Some t\<rparr>)) (\<lambda>_. requeue_secs ?settle))
             | Some elapsed \<Rightarrow> if elapsed < ?settle then requeue_secs (?settle - elapsed)
                 else advance (name_any (ev_meta evac)) st TargetSelecting))) ?h'"
        unfolding option.simps
      proof (rule safe_bnd_since, rule now, rule safe_optionI)
        show "safe ?G (bnd (now_rfc3339 ctx) (\<lambda>t. bnd (write_status (name_any (ev_meta evac)) (st\<lparr>s_quiesced_at := Some t\<rparr>)) (\<lambda>_. requeue_secs ?settle))) h''" for h''
          by (rule other, intro call_intros) (simp_all add: assms(1))
      next
        fix e_o e t2
        assume e: "since_seen ctx (s_quiesced_at st) e_o (?h' @ t2)" "e_o = Some e"
        show "safe ?G (if e < ?settle then requeue_secs (?settle - e) else advance (name_any (ev_meta evac)) st TargetSelecting) (?h' @ t2)"
        proof (rule safe_ifI)
          show "safe ?G (requeue_secs k) h''" for k h'' by (rule other, intro call_intros, simp)
          assume "\<not> e < ?settle"
          then have "settled_seen ctx evac st (?h' @ t2) (st\<lparr>s_phase := TargetSelecting, s_message := None\<rparr>)"
            unfolding settled_seen_def
            using seen_quiet_mono [OF q] since_seen_mono [OF r'] e grace by (intro impI conjI) (blast, force+)
          then show "safe ?G (advance (name_any (ev_meta evac)) st TargetSelecting) (?h' @ t2)"
            by (intro safe_advance) simp
        qed
      qed
    qed
  qed
qed

lemma safe_reconcile_settled:
  assumes "s_phase (recorded_status evac) = Quiescing \<Longrightarrow> s_source (recorded_status evac) \<noteq> None"
  shows "safe (status_guard (settled_seen ctx evac (recorded_status evac))) (reconcile ctx evac) h"
proof (rule safe_reconcile_status)
  show "safe (status_guard (settled_seen ctx evac (recorded_status evac))) (handle_phase ctx evac (recorded_status evac)) h" for h
  proof (cases "s_phase (recorded_status evac) = Quiescing")
    case True
    with assms obtain src where "s_source (recorded_status evac) = Some src" by auto
    with True show ?thesis by (simp add: handle_phase_def safe_quiescing)
  next
    case False
    then show ?thesis by (intro safe_trivial) (simp add: status_guard_def settled_seen_other)
  qed
qed (auto simp: settled_seen_def)

section \<open>Attempts\<close>

text \<open>A backup object is created only once the record of its attempt is durable.\<close>

definition backup_recorded :: "trace \<Rightarrow> req \<Rightarrow> bool" where
  "backup_recorded h q \<longleftrightarrow> (\<forall>ns x. q = Create K_ZFSBackup ns (O_bkp x) \<longrightarrow>
     (\<exists>n st a t. (Patch_status n st, a) \<in> set h \<and> (\<forall>e. a \<noteq> R_err e) \<and> s_transfer st = Some t
        \<and> bk_meta x = named_meta (bkp_name n (ts_attempt t)) \<and> bks_snap_name (bk_spec x) = Some (ts_snap_name t)))"

definition no_backup :: "req \<Rightarrow> bool" where
  "no_backup q \<longleftrightarrow> (\<forall>ns x. q \<noteq> Create K_ZFSBackup ns x)"

lemma no_backup_simps [simp]:
  "no_backup (Get k ns n)" "no_backup (List_all k ns sel)" "no_backup (Create k ns x) \<longleftrightarrow> k \<noteq> K_ZFSBackup"
  "no_backup (Replace k ns n x)" "no_backup (Delete k ns n)" "no_backup (Patch_merge k ns n p)"
  "no_backup (Patch_status n st)" "no_backup Now" "no_backup Rand_u128" "no_backup Rand_u16"
  "no_backup (Spawn_relay bs rs)" "no_backup (Relay_load t)" "no_backup (Abort_task t)"
  "no_backup Selection_lock" "no_backup Selection_unlock"
  by (simp_all add: no_backup_def)

lemma backup_recorded_other: "no_backup q \<Longrightarrow> backup_recorded h q"
  by (auto simp: backup_recorded_def no_backup_def)

lemma safe_start_attempt: "safe backup_recorded (start_attempt ctx evac st a) h"
proof -
  have other: "safe backup_recorded p h'" if "calls no_backup p (\<lambda>_. True)" for p :: "'b prog" and h'
    by (rule safe_calls [OF that]) (rule backup_recorded_other)
  have write_create: "safe backup_recorded (bnd (write_status n st') (\<lambda>_.
      bnd (create_if_absent K_ZFSBackup ns (O_bkp x)) (\<lambda>_. requeue_secs 2))) h'"
    if "s_transfer st' = Some t" "bk_meta x = named_meta (bkp_name n (ts_attempt t))" "bks_snap_name (bk_spec x) = Some (ts_snap_name t)"
    for n st' ns x t h'
  proof (rule safe_bnd_vc [where S = "\<lambda>r h'. r = Inr () \<longrightarrow> (\<exists>a. (Patch_status n st', a) \<in> set h' \<and> (\<forall>e. a \<noteq> R_err e))"])
    show "vc backup_recorded (write_status n st') (\<lambda>r h'. r = Inr () \<longrightarrow> (\<exists>a. (Patch_status n st', a) \<in> set h' \<and> (\<forall>e. a \<noteq> R_err e))) h'"
      unfolding write_status_def vc_with_context vc_ask
      by (auto simp: backup_recorded_other on_ok_def as_unit_Inr split: sum.split)
    fix u h'' assume "(Inr u :: error + unit) = Inr () \<longrightarrow> (\<exists>a. (Patch_status n st', a) \<in> set h'' \<and> (\<forall>e. a \<noteq> R_err e))"
    then obtain b where b: "(Patch_status n st', b) \<in> set h''" "\<forall>e. b \<noteq> R_err e" by auto
    have ok: "backup_recorded h'' (Create K_ZFSBackup ns (O_bkp x))"
      unfolding backup_recorded_def using that b by blast
    have "safe backup_recorded (create_if_absent K_ZFSBackup ns (O_bkp x)) h''"
      unfolding create_if_absent_def safe_def using ok by (simp split: resp.split)
    then show "safe backup_recorded (bnd (create_if_absent K_ZFSBackup ns (O_bkp x)) (\<lambda>_. requeue_secs 2)) h''"
      by (rule safe_bnd) (simp add: requeue_secs_def safe_Done)
  qed
  have steps: "safe backup_recorded (node_by_id nid) h'" "safe backup_recorded (peers_of nd) h'" "safe backup_recorded (spawn_relay bs rs) h'"
    "safe backup_recorded (register_relay n at1) h'" "safe backup_recorded (relay_ports n) h'" "safe backup_recorded rand_u16 h'"
    "safe backup_recorded (now_rfc3339 ctx) h'" "safe backup_recorded (requeue_secs k) h'" for nid nd bs rs n at1 k h'
    by (rule other, intro call_intros, simp_all)+
  show ?thesis
    unfolding start_attempt_def Let_def
    by (rule safe_bnd_need, rule safe_bnd_need, rule safe_MemI, rule safe_ifI, rule steps,
        rule safe_bnd [OF steps(1)], rule safe_bnd_need, rule safe_bnd [OF steps(1)], rule safe_bnd_need,
        rule safe_bnd [OF steps(2)], rule safe_bnd [OF steps(2)], rule safe_bnd [OF steps(3)], rule safe_prodI, rule safe_prodI,
        rule safe_bnd [OF steps(4)], rule safe_bnd [OF steps(5)], rule safe_bnd [OF steps(6)], rule safe_bnd [OF steps(7)],
        rule write_create, simp)
      (simp_all add: new_attempt_def attempt_backup_def)
qed

text \<open>A restore object is created only after the relay was seen with the source connected.\<close>

definition restore_connected :: "trace \<Rightarrow> req \<Rightarrow> bool" where
  "restore_connected h q \<longleftrightarrow> (\<forall>ns x. q = Create K_ZFSRestore ns x \<longrightarrow>
     (\<exists>task l. (Relay_load task, R_load l) \<in> set h \<and> rl_source_connected l))"

lemma observe_relay_post:
  "vc (\<lambda>_ _. True) (observe_relay n)
     (\<lambda>r h'. \<forall>m. r = Inr (Some m) \<and> ro_source_connected m \<longrightarrow> (\<exists>task l. (Relay_load task, R_load l) \<in> set h' \<and> rl_source_connected l)) h"
  unfolding observe_relay_def
  by (auto simp: Let_def of_load_def split: option.split resp.splits)

text \<open>Both properties of the phase, and of the reconcile.\<close>

definition attempt_ok :: "trace \<Rightarrow> req \<Rightarrow> bool" where
  "attempt_ok h q \<longleftrightarrow> backup_recorded h q \<and> restore_connected h q"

definition no_attempt :: "req \<Rightarrow> bool" where
  "no_attempt q \<longleftrightarrow> (\<forall>ns x. q \<noteq> Create K_ZFSBackup ns x \<and> q \<noteq> Create K_ZFSRestore ns x)"

lemma no_attempt_simps [simp]:
  "no_attempt (Get k ns n)" "no_attempt (List_all k ns sel)" "no_attempt (Create k ns x) \<longleftrightarrow> k \<noteq> K_ZFSBackup \<and> k \<noteq> K_ZFSRestore"
  "no_attempt (Replace k ns n x)" "no_attempt (Delete k ns n)" "no_attempt (Patch_merge k ns n p)"
  "no_attempt (Patch_status n st)" "no_attempt Now" "no_attempt Rand_u128" "no_attempt Rand_u16"
  "no_attempt (Spawn_relay bs rs)" "no_attempt (Relay_load t)" "no_attempt (Abort_task t)"
  "no_attempt Selection_lock" "no_attempt Selection_unlock"
  by (auto simp: no_attempt_def)

lemma attempt_ok_other: "no_attempt q \<Longrightarrow> attempt_ok h q"
  by (auto simp: attempt_ok_def backup_recorded_def restore_connected_def no_attempt_def)

lemma safe_conj: "safe G p h \<Longrightarrow> safe G' p h \<Longrightarrow> safe (\<lambda>h q. G h q \<and> G' h q) p h"
  unfolding safe_def by (drule (1) vc_conj) simp

lemma attempt_start: "safe attempt_ok (start_attempt ctx evac st a) h"
proof -
  have "calls (\<lambda>q. \<forall>ns x. q \<noteq> Create K_ZFSRestore ns x) (start_attempt ctx evac st a) (\<lambda>_. True)"
    unfolding start_attempt_def by (intro call_intros; simp)
  then have "safe restore_connected (start_attempt ctx evac st a) h"
    by (rule safe_calls) (simp add: restore_connected_def)
  then show ?thesis
    using safe_conj [OF safe_start_attempt] by (simp add: attempt_ok_def [abs_def])
qed

lemma attempt_verdict:
  assumes "v = CreateRestore \<Longrightarrow> \<exists>task l. (Relay_load task, R_load l) \<in> set h \<and> rl_source_connected l"
  shows "safe attempt_ok (act_on_verdict ctx evac st t v) h"
proof -
  have other: "safe attempt_ok p h'" if "calls no_attempt p (\<lambda>_. True)" for p :: "'b prog" and h'
    by (rule safe_calls [OF that]) (rule attempt_ok_other)
  have cleanup: "attempt_cleanup ctx n a q \<Longrightarrow> no_attempt q" for n a q
    by (auto simp: attempt_cleanup_def strips_zfs_def)
  have retry: "safe attempt_ok (retry_or_fail ctx evac st t m r) h'" for m r h'
  proof -
    have "safe attempt_ok (drop_relay n) h'" "safe attempt_ok (cleanup_transfer_crs ctx n a st') h'"
      "safe attempt_ok (wait n st' msg k) h'" "safe attempt_ok (go_abort n st' msg) h'" for n a st' msg k h'
      by (rule other, intro call_intros, simp_all add: cleanup)+
    then show ?thesis
      unfolding retry_or_fail_def Let_def by (intro safe_bnd safe_ifI attempt_start)
  qed
  show ?thesis
  proof (cases "v = CreateRestore")
    case True
    then have "attempt_ok (h @ t') (Create K_ZFSRestore (openebs_ns ctx) x)" for t' x
      using assms unfolding attempt_ok_def restore_connected_def backup_recorded_def by fastforce
    then have "safe attempt_ok (act_on_verdict ctx evac st t CreateRestore) h"
      unfolding act_on_verdict_def Let_def attempt_verdict.simps
      by (intro safe_calls [where P = "\<lambda>q. no_attempt q \<or> (\<exists>x. q = Create K_ZFSRestore (openebs_ns ctx) x)"])
        (intro call_intros, auto intro: attempt_ok_other)
    with True show ?thesis by simp
  next
    case False
    then show ?thesis
      unfolding act_on_verdict_def Let_def
      by (cases v; simp only: attempt_verdict.simps) (rule retry | rule other, intro call_intros; simp | simp)+
  qed
qed

lemma safe_transferring: "safe attempt_ok (transferring ctx evac st) h"
proof (cases "s_transfer st")
  case None
  then show ?thesis by (simp add: transferring_def attempt_start)
next
  case (Some t)
  have other: "attempt_ok h' q" if "no_attempt q" for h' q using that by (rule attempt_ok_other)
  have reads: "safe attempt_ok (get_bkp ctx n) h'" "safe attempt_ok (get_rst ctx n) h'" "safe attempt_ok now h'"
    "safe attempt_ok (opt_secs_since ctx o1) h'" for n o1 h'
    by (rule safe_calls [where P = no_attempt], intro call_intros, simp_all add: other)+
  show ?thesis
    unfolding transferring_def Let_def Some option.simps
  proof (rule safe_bnd [OF reads(1)], rule safe_bnd [OF reads(2)],
      rule safe_bnd_post [where P = no_attempt, OF _ other observe_relay_post])
    fix bkp rst mem and h' t2 :: trace
    assume m: "\<forall>m. (Inr mem :: error + relay_obs option) = Inr (Some m) \<and> ro_source_connected m \<longrightarrow>
      (\<exists>task l. (Relay_load task, R_load l) \<in> set h' \<and> rl_source_connected l)"
    show "safe attempt_ok (bnd (opt_secs_since ctx (ts_started_at t)) (\<lambda>elapsed. bnd now (\<lambda>n.
            act_on_verdict ctx evac st t (transfer_verdict \<lparr>to_attempt = ts_attempt t, to_failure_reason = ts_failure_reason t,
              to_bkp_status = unwrap_or (Option.bind bkp bk_status) [], to_rst_status = unwrap_or (Option.bind rst rs_status) [],
              to_rst_exists = (rst \<noteq> None), to_mem = mem, to_elapsed_secs = unwrap_or elapsed 0, to_now_secs = as_secs n,
              to_timeout_secs = unwrap_or (es_transfer_timeout_seconds (ev_spec evac)) DEFAULT_TRANSFER_TIMEOUT,
              to_stall_secs = cfg_stall_seconds (c_cfg ctx)\<rparr>)))) h'"
    proof (rule safe_bnd [OF reads(4)], rule safe_bnd [OF reads(3)], rule attempt_verdict)
      fix elapsed n and t3 t4 :: trace
      assume "transfer_verdict \<lparr>to_attempt = ts_attempt t, to_failure_reason = ts_failure_reason t,
              to_bkp_status = unwrap_or (Option.bind bkp bk_status) [], to_rst_status = unwrap_or (Option.bind rst rs_status) [],
              to_rst_exists = (rst \<noteq> None), to_mem = mem, to_elapsed_secs = unwrap_or elapsed 0, to_now_secs = as_secs n,
              to_timeout_secs = unwrap_or (es_transfer_timeout_seconds (ev_spec evac)) DEFAULT_TRANSFER_TIMEOUT,
              to_stall_secs = cfg_stall_seconds (c_cfg ctx)\<rparr> = CreateRestore"
      then obtain m' where "mem = Some m'" "ro_source_connected m'"
        unfolding create_restore_iff by (auto simp: current_relay_def)
      with m obtain task l where "(Relay_load task, R_load l) \<in> set h'" "rl_source_connected l" by blast
      then show "\<exists>task l. (Relay_load task, R_load l) \<in> set ((h' @ t3) @ t4) \<and> rl_source_connected l" by auto
    qed
  qed (intro call_intros, simp_all)
qed

lemma safe_reconcile_attempt: "safe attempt_ok (reconcile ctx evac) h"
proof (rule safe_reconcile)
  have no: "abort_may ctx evac st q \<Longrightarrow> no_attempt q" "leaves n q \<Longrightarrow> no_attempt q"
    "phase_may ctx evac st q \<Longrightarrow> s_phase st \<noteq> Transferring \<Longrightarrow> no_attempt q" "harmless n q \<Longrightarrow> no_attempt q" for st q n
    by (cases q; auto simp: phase_may_def abort_may_def Let_def edits_def attempt_cleanup_def leaves_def
        strips_zfs_def on_target_def on_source_def on_snapshot_def unlocks_def params_req_def split: phase.splits)+
  show "leaves (name_any (ev_meta evac)) q \<Longrightarrow> attempt_ok h q" for h q using no(2) attempt_ok_other by blast
  show "abort_may ctx evac (recorded_status evac) q \<Longrightarrow> attempt_ok h q" for h q using no(1) attempt_ok_other by blast
  show "safe attempt_ok (handle_phase ctx evac (recorded_status evac)) h" for h
  proof (cases "s_phase (recorded_status evac) = Transferring")
    case True
    then show ?thesis by (simp add: handle_phase_def safe_transferring)
  next
    case False
    show ?thesis
      by (rule safe_calls [OF frame_handle_phase], rule attempt_ok_other) (use no(3,4) False in blast)
  qed
qed

end
