(* ===== verification/Teardown_Safety.thy ===== *)
theory Teardown_Safety
  imports Transfer_Safety
begin

text \<open>
  The ends of an evacuation: in CleaningUp the source volume is deleted only after the transfer
  objects and the target-side snapshot are gone; in the abort path nothing happens to the
  source volume before the PVC is unlocked, and it is deleted only in the user's stead.
\<close>

section \<open>Postconditions of the teardown helpers\<close>

lemma vc_get_post:
  "vc (\<lambda>_ _. True) (get_bkp ctx n) (\<lambda>r h'. \<forall>x. r = Inr x \<longrightarrow> h' = h @ [(Get K_ZFSBackup (openebs_ns ctx) n, opt_obj O_bkp x)]) h"
  "vc (\<lambda>_ _. True) (get_rst ctx n) (\<lambda>r h'. \<forall>x. r = Inr x \<longrightarrow> h' = h @ [(Get K_ZFSRestore (openebs_ns ctx) n, opt_obj O_rst x)]) h"
  "vc (\<lambda>_ _. True) (get_snap ctx n) (\<lambda>r h'. \<forall>x. r = Inr x \<longrightarrow> h' = h @ [(Get K_ZFSSnapshot (openebs_ns ctx) n, opt_obj O_snap x)]) h"
  "vc (\<lambda>_ _. True) (get_zv ctx n) (\<lambda>r h'. \<forall>x. r = Inr x \<longrightarrow> h' = h @ [(Get K_ZFSVolume (openebs_ns ctx) n, opt_obj O_zv x)]) h"
  by (auto simp: call_defs vc_ask as_opt_Inr split: option.splits)

lemma vc_extends_post: "vc (\<lambda>_ _. True) p (\<lambda>r h'. (\<exists>t. h' = h @ t) \<and> Q r h') h" if "vc (\<lambda>_ _. True) p Q h"
  using vc_conj [OF vc_extends [of p h] that] by simp

lemma cleanup_cr_post:
  "vc (\<lambda>_ _. True) (cleanup_cr k ns n o1 nid) (\<lambda>r h'. (\<exists>t. h' = h @ t) \<and> (r = Inr True \<longrightarrow> o1 = None)) h"
proof (rule vc_extends_post)
  show "vc (\<lambda>_ _. True) (cleanup_cr k ns n o1 nid) (\<lambda>r h'. r = Inr True \<longrightarrow> o1 = None) h"
    unfolding cleanup_cr_def
    by (cases o1)
      (auto simp: vc_bnd on_ok_def split: sum.split intro!: vc_conseq [OF vc_frame [where P = "\<lambda>_. True" and R = "\<lambda>_. True", OF calls_any]])
qed

definition attempt_gone :: "ctx \<Rightarrow> string \<Rightarrow> u32 \<Rightarrow> trace \<Rightarrow> bool" where
  "attempt_gone ctx name a h \<longleftrightarrow>
     (Get K_ZFSBackup (openebs_ns ctx) (bkp_name name a), R_none) \<in> set h
   \<and> (Get K_ZFSRestore (openebs_ns ctx) (rst_name name a), R_none) \<in> set h"

lemma cleanup_transfer_crs_post:
  "vc (\<lambda>_ _. True) (cleanup_transfer_crs ctx name a st) (\<lambda>r h'. r = Inr True \<longrightarrow> attempt_gone ctx name a h') h"
  unfolding cleanup_transfer_crs_def Let_def
proof (rule vc_bnd_using [OF vc_get_post(1)], rule vc_bnd_using [OF cleanup_cr_post],
    rule vc_bnd_using [OF vc_get_post(2)], rule vc_bnd_using [OF cleanup_cr_post])
qed (auto simp: attempt_gone_def opt_obj_def split: option.splits)

text \<open>When the snapshot step lets CleaningUp go on.\<close>

definition snapshot_settled :: "ctx \<Rightarrow> evac_status \<Rightarrow> trace \<Rightarrow> bool" where
  "snapshot_settled ctx st h \<longleftrightarrow> (\<forall>t tg. s_transfer st = Some t \<longrightarrow> s_target st = Some tg \<longrightarrow>
     (Get K_ZFSSnapshot (openebs_ns ctx) (ts_snap_name t), R_none) \<in> set h
   \<and> (ts_target_snap_delete_issued t \<or> (Get K_ZFSVolume (openebs_ns ctx) (ti_new_volume_handle tg), R_none) \<in> set h))"

lemma vc_any: "(\<And>r h. Q r h) \<Longrightarrow> vc (\<lambda>_ _. True) p Q h"
  by (rule vc_frame [where P = "\<lambda>_. True" and R = "\<lambda>_. True", OF calls_any])

lemma vc_bnd_any: "(\<And>x h. vc (\<lambda>_ _. True) (f x) Q h) \<Longrightarrow> (\<And>e h. Q (Inl e) h) \<Longrightarrow> vc (\<lambda>_ _. True) (bnd p f) Q h"
  by (rule vc_bnd_using [where S = "\<lambda>_ _. True"]) (auto intro: vc_any)

lemma destroy_target_snapshot_post:
  "vc (\<lambda>_ _. True) (destroy_target_snapshot ctx name st)
     (\<lambda>r h'. \<forall>st'. r = Inr (None, st') \<longrightarrow> st' = st \<and> snapshot_settled ctx st h') h"
proof (cases "s_transfer st"; cases "s_target st")
  fix t tg assume st: "s_transfer st = Some t" "s_target st = Some tg"
  show ?thesis
    unfolding destroy_target_snapshot_def st option.simps prod.simps
    by (rule vc_bnd_using [OF vc_get_post(3)])
      (auto simp: st snapshot_settled_def intro!: vc_bnd_any vc_bnd_using [OF vc_get_post(4)] split: option.split)
qed (simp_all add: destroy_target_snapshot_def snapshot_settled_def)

section \<open>CleaningUp\<close>

definition source_delete_ok :: "ctx \<Rightarrow> zfs_evacuation \<Rightarrow> evac_status \<Rightarrow> trace \<Rightarrow> req \<Rightarrow> bool" where
  "source_delete_ok ctx evac st h q \<longleftrightarrow> (\<forall>ns n. q = Delete K_ZFSVolume ns n \<longrightarrow>
     (\<exists>src. s_source st = Some src \<and> n = si_volume_handle src)
   \<and> (\<forall>t. s_transfer st = Some t \<longrightarrow> attempt_gone ctx (name_any (ev_meta evac)) (ts_attempt t) h)
   \<and> snapshot_settled ctx st h)"

definition no_zv_delete :: "req \<Rightarrow> bool" where
  "no_zv_delete q \<longleftrightarrow> (\<forall>ns n. q \<noteq> Delete K_ZFSVolume ns n)"

lemma no_zv_delete_simps [simp]:
  "no_zv_delete (Get k ns n)" "no_zv_delete (List_all k ns sel)" "no_zv_delete (Create k ns x)"
  "no_zv_delete (Replace k ns n x)" "no_zv_delete (Delete k ns n) \<longleftrightarrow> k \<noteq> K_ZFSVolume" "no_zv_delete (Patch_merge k ns n p)"
  "no_zv_delete (Patch_status n st)" "no_zv_delete Now" "no_zv_delete (Abort_task t)"
  by (auto simp: no_zv_delete_def)

lemma source_delete_other: "no_zv_delete q \<Longrightarrow> source_delete_ok ctx evac st h q"
  by (auto simp: source_delete_ok_def no_zv_delete_def)

lemma cleanup_no_zv [simp]: "attempt_cleanup ctx n a q \<Longrightarrow> no_zv_delete q" "params_req q \<Longrightarrow> no_zv_delete q"
  by (auto simp: attempt_cleanup_def strips_zfs_def params_req_def split: req.splits)

lemma attempt_gone_mono: "attempt_gone ctx n a h \<Longrightarrow> attempt_gone ctx n a (h @ t)"
  by (simp add: attempt_gone_def)

lemma snapshot_settled_mono: "snapshot_settled ctx st h \<Longrightarrow> snapshot_settled ctx st (h @ t)"
  by (auto simp: snapshot_settled_def)

lemma safe_cleaning_up: "safe (source_delete_ok ctx evac st) (cleaning_up ctx evac st) h"
proof -
  let ?G = "source_delete_ok ctx evac st" and ?name = "name_any (ev_meta evac)"
  let ?gone = "\<lambda>h. \<forall>t. s_transfer st = Some t \<longrightarrow> attempt_gone ctx ?name (ts_attempt t) h"
  have other: "safe ?G p h'" if "calls no_zv_delete p (\<lambda>_. True)" for p :: "'b prog" and h'
    by (rule safe_calls [OF that]) (rule source_delete_other)
  have crs: "calls no_zv_delete (case s_transfer st of None \<Rightarrow> ret True
      | Some t \<Rightarrow> cleanup_transfer_crs ctx ?name (ts_attempt t) st) (\<lambda>_. True)"
    by (intro call_intros) simp_all
  have crs_post: "vc (\<lambda>_ _. True) (case s_transfer st of None \<Rightarrow> ret True
      | Some t \<Rightarrow> cleanup_transfer_crs ctx ?name (ts_attempt t) st) (\<lambda>r h'. r = Inr True \<longrightarrow> ?gone h') h'" for h'
    by (cases "s_transfer st") (simp_all add: cleanup_transfer_crs_post)
  have snap: "calls no_zv_delete (destroy_target_snapshot ctx ?name st) (\<lambda>_. True)"
    by (intro call_intros) (auto simp: on_snapshot_def strips_zfs_def)
  have fin: "safe ?G (finish evac st') h'" "safe ?G (wait ?name st' m k) h'" for st' m k h'
    unfolding finish_def untrigger_def by (rule other, intro call_intros, simp_all)+
  have destroy: "safe ?G (destroy_source ctx ?name src d) h'"
    if "s_source st = Some src" "?gone h'" "snapshot_settled ctx st h'" for src d h'
  proof (rule safe_calls [where P = "\<lambda>q. no_zv_delete q \<or> q = Delete K_ZFSVolume (openebs_ns ctx) (si_volume_handle src)"])
    show "calls (\<lambda>q. no_zv_delete q \<or> q = Delete K_ZFSVolume (openebs_ns ctx) (si_volume_handle src)) (destroy_source ctx ?name src d) (\<lambda>_. True)"
      unfolding destroy_source_def by (intro call_intros) simp_all
    show "?G (h' @ t) q" if "no_zv_delete q \<or> q = Delete K_ZFSVolume (openebs_ns ctx) (si_volume_handle src)" for q t
      using that \<open>s_source st = Some src\<close> attempt_gone_mono \<open>?gone h'\<close> snapshot_settled_mono [OF \<open>snapshot_settled ctx st h'\<close>]
      by (auto simp: source_delete_other source_delete_ok_def)
  qed
  show ?thesis
    unfolding cleaning_up_def Let_def
  proof (rule safe_bnd_need, rule safe_bnd_post [OF crs source_delete_other crs_post], assumption, rule safe_ifI, rule fin,
      rule safe_bnd_post [OF snap source_delete_other destroy_target_snapshot_post], assumption)
    fix src gone t x t2
    assume src: "s_source st = Some src" and g: "(Inr gone :: error + bool) = Inr True \<longrightarrow> ?gone (h @ t)" "\<not> \<not> gone"
      and s: "\<forall>st'. (Inr x :: error + string option \<times> evac_status) = Inr (None, st') \<longrightarrow> st' = st \<and> snapshot_settled ctx st ((h @ t) @ t2)"
    from g have "?gone (h @ t)" by simp
    then have gone: "?gone ((h @ t) @ t2)" using attempt_gone_mono by blast
    show "safe ?G (case x of (msg_o, st') \<Rightarrow> (case msg_o of
          Some msg \<Rightarrow> wait ?name st' msg 5
        | None \<Rightarrow> bnd (get_zv ctx (si_volume_handle src)) (\<lambda>zv_o. (case zv_o of
              Some zv \<Rightarrow> bnd (destroy_source ctx ?name src (being_deleted (zv_meta zv))) (\<lambda>_.
                  wait ?name st' ''waiting for source dataset destruction'' 10)
            | None \<Rightarrow> finish evac st')))) ((h @ t) @ t2)"
    proof (rule safe_prodI, rule safe_optionI)
      fix msg_o st' assume x: "x = (msg_o, st')" "msg_o = None"
      with s have settled: "snapshot_settled ctx st ((h @ t) @ t2)" by simp
      show "safe ?G (bnd (get_zv ctx (si_volume_handle src)) (\<lambda>zv_o. (case zv_o of
              Some zv \<Rightarrow> bnd (destroy_source ctx ?name src (being_deleted (zv_meta zv))) (\<lambda>_.
                  wait ?name st' ''waiting for source dataset destruction'' 10)
            | None \<Rightarrow> finish evac st'))) ((h @ t) @ t2)"
      proof (rule safe_bnd_get(4), simp add: source_delete_other, rule safe_optionI, rule fin, rule safe_bnd, rule destroy [OF src])
        fix zv_o
        show "?gone (((h @ t) @ t2) @ [(Get K_ZFSVolume (openebs_ns ctx) (si_volume_handle src), opt_obj O_zv zv_o)])"
          using gone attempt_gone_mono by blast
        show "snapshot_settled ctx st (((h @ t) @ t2) @ [(Get K_ZFSVolume (openebs_ns ctx) (si_volume_handle src), opt_obj O_zv zv_o)])"
          using settled by (rule snapshot_settled_mono)
      qed (rule fin)
    qed (rule fin)
  qed
qed

end
