(* ===== verification/Abort_Safety.thy ===== *)
theory Abort_Safety
  imports Teardown_Safety
begin

text \<open>
  The end of an evacuation seen from the whole reconcile: the deletion of the source volume in
  CleaningUp, and the order of the abort path (\<open>src/src/controller/abort.rs\<close>), which leaves the
  source volume alone until the PVC is unlocked and deletes it only in the user's stead.
\<close>

section \<open>A reconcile whose abort path is guarded too\<close>

lemma safe_reconcile_abort:
  assumes "\<And>h q. leaves (name_any (ev_meta evac)) q \<Longrightarrow> G h q"
    and "\<And>h fs. G h (Patch_merge K_Evacuation [] (name_any (ev_meta evac)) (P_finalizers fs))"
    and "\<And>h m. safe G (abort_run ctx evac ((recorded_status evac)\<lparr>s_message := m\<rparr>)) h"
    and "\<And>h. safe G (handle_phase ctx evac (recorded_status evac)) h"
  shows "safe G (reconcile ctx evac) h"
proof -
  let ?P = "\<lambda>q. leaves (name_any (ev_meta evac)) q \<or> (\<exists>fs. q = Patch_merge K_Evacuation [] (name_any (ev_meta evac)) (P_finalizers fs))"
  have other: "safe G p h'" if "calls ?P p (\<lambda>_. True)" for p :: "'b prog" and h'
    by (rule safe_calls [OF that]) (use assms(1,2) in blast)
  have ab: "safe G (abort_run ctx evac (recorded_status evac)) h'" for h'
    using assms(3) [of "s_message (recorded_status evac)"] by simp
  have fin: "safe G (if d then remove_evac_finalizer (name_any (ev_meta evac)) else ret ()) h'"
    "safe G (ensure_evac_finalizer evac) h'" for d h'
    by (rule other, intro call_intros; simp)+
  have can: "safe G (cancel_reason ctx evac st) h'" for st h'
    by (rule other, intro call_intros; simp)
  have abw: "safe G (bnd (write_status (name_any (ev_meta evac)) (st\<lparr>s_phase := Aborting, s_cancelled := True, s_message := m\<rparr>)) (\<lambda>_. requeue_secs 1)) h'" for st m h'
    by (rule other, intro call_intros; simp)
  show ?thesis
    unfolding reconcile_def Let_def bnd_if_ret
    by (intro safe_ifI safe_bnd [OF fin(1)] safe_bnd [OF fin(2)] safe_bnd [OF can] safe_optionI ab assms(3) abw safe_Done assms(4))
qed

section \<open>The source volume in CleaningUp\<close>

lemma zv_delete_frame:
  "phase_may ctx evac st q \<Longrightarrow> s_phase st \<notin> {Adopting, CleaningUp} \<Longrightarrow> no_zv_delete q"
  "harmless n q \<Longrightarrow> no_zv_delete q"
  by (cases q; auto simp: phase_may_def Let_def edits_def attempt_objects_def attempt_cleanup_def
      strips_zfs_def params_req_def no_zv_delete_def split: phase.splits)+

lemma safe_reconcile_source_delete:
  assumes "s_phase (recorded_status evac) = CleaningUp" and "s_committed (recorded_status evac)"
  shows "safe (source_delete_ok ctx evac (recorded_status evac)) (reconcile ctx evac) h"
proof -
  let ?G = "source_delete_ok ctx evac (recorded_status evac)"
  have fin: "safe ?G (if being_deleted (ev_meta evac) then ret () else ensure_evac_finalizer evac) h'" for h'
    by (rule safe_calls [where P = no_zv_delete], intro call_intros, simp_all add: source_delete_other)
  have "safe ?G (handle_phase ctx evac (recorded_status evac)) h'" for h'
    using assms by (simp add: handle_phase_def safe_cleaning_up)
  then have "safe ?G (bnd (if being_deleted (ev_meta evac) then ret () else ensure_evac_finalizer evac)
      (\<lambda>_. handle_phase ctx evac (recorded_status evac))) h"
    by (rule safe_bnd [OF fin])
  then show ?thesis using assms by (simp add: reconcile_def Let_def cong: if_cong)
qed

section \<open>The order of the abort path\<close>

definition pvc_unlocked :: "evac_status \<Rightarrow> trace \<Rightarrow> bool" where
  "pvc_unlocked st h \<longleftrightarrow> (\<forall>r. s_pvc_ref st = Some r \<longrightarrow> (\<exists>sp. params_seen h sp \<and> locked_mode sp (pvc_key r) = None))"

text \<open>The user deleted the claim, and the PV's policy would have deleted the volume.\<close>

definition deleted_by_user :: "zfs_evacuation \<Rightarrow> evac_status \<Rightarrow> trace \<Rightarrow> bool" where
  "deleted_by_user evac st h \<longleftrightarrow> s_original_reclaim_policy st = Some ''Delete''
     \<and> (\<exists>r. s_pvc_ref st = Some r \<and> (Get K_PVC (pr_namespace r) (pr_name r), R_none) \<in> set h)
     \<and> (Get K_PV [] (es_pv_name (ev_spec evac)), R_none) \<in> set h"

definition source_released_ok :: "ctx \<Rightarrow> zfs_evacuation \<Rightarrow> evac_status \<Rightarrow> trace \<Rightarrow> req \<Rightarrow> bool" where
  "source_released_ok ctx evac st h q \<longleftrightarrow> (\<forall>src. s_source st = Some src \<longrightarrow>
     ((\<exists>p. q = Patch_merge K_ZFSVolume (openebs_ns ctx) (si_volume_handle src) p) \<longrightarrow> pvc_unlocked st h)
   \<and> (q = Delete K_ZFSVolume (openebs_ns ctx) (si_volume_handle src) \<longrightarrow> pvc_unlocked st h \<and> deleted_by_user evac st h))"

definition not_on_source :: "ctx \<Rightarrow> evac_status \<Rightarrow> req \<Rightarrow> bool" where
  "not_on_source ctx st q \<longleftrightarrow> (\<forall>src. s_source st = Some src \<longrightarrow>
     q \<noteq> Delete K_ZFSVolume (openebs_ns ctx) (si_volume_handle src)
   \<and> (\<forall>p. q \<noteq> Patch_merge K_ZFSVolume (openebs_ns ctx) (si_volume_handle src) p))"

lemma not_on_source_simps [simp]:
  "not_on_source ctx st (Get k ns n)" "not_on_source ctx st (List_all k ns sel)" "not_on_source ctx st (Create k ns x)"
  "not_on_source ctx st (Replace k ns n x)" "k \<noteq> K_ZFSVolume \<Longrightarrow> not_on_source ctx st (Delete k ns n)"
  "k \<noteq> K_ZFSVolume \<Longrightarrow> not_on_source ctx st (Patch_merge k ns n p)"
  "not_on_source ctx st (Patch_status n st')" "not_on_source ctx st Now" "not_on_source ctx st (Abort_task t)"
  "not_on_source ctx st Rand_u128" "not_on_source ctx st Rand_u16" "not_on_source ctx st (Spawn_relay bs rs)"
  "not_on_source ctx st (Relay_load t)" "not_on_source ctx st Selection_lock" "not_on_source ctx st Selection_unlock"
  by (auto simp: not_on_source_def)

lemma released_other: "not_on_source ctx st q \<Longrightarrow> source_released_ok ctx evac st h q"
  by (auto simp: not_on_source_def source_released_ok_def)

lemma not_on_source_members [simp]:
  "attempt_cleanup ctx n a q \<Longrightarrow> not_on_source ctx st q" "params_req q \<Longrightarrow> not_on_source ctx st q"
  by (auto simp: attempt_cleanup_def strips_zfs_def params_req_def split: req.splits)

text \<open>The target has a handle of its own.\<close>

definition handles_differ :: "evac_status \<Rightarrow> bool" where
  "handles_differ st \<longleftrightarrow> (\<forall>src t. s_source st = Some src \<longrightarrow> s_target st = Some t \<longrightarrow> ti_new_volume_handle t \<noteq> si_volume_handle src)"

lemma target_not_on_source [simp]:
  assumes "handles_differ st" "s_target st = Some t"
  shows "not_on_source ctx st (Delete K_ZFSVolume ns (ti_new_volume_handle t))"
    "not_on_source ctx st (Patch_merge K_ZFSVolume ns (ti_new_volume_handle t) p)"
    "on_target ctx t q \<Longrightarrow> not_on_source ctx st q"
  using assms by (auto simp: handles_differ_def not_on_source_def on_target_def strips_zfs_def)

lemma pvc_unlocked_mono: "pvc_unlocked st h \<Longrightarrow> pvc_unlocked st (h @ t)"
  unfolding pvc_unlocked_def using params_seen_mono by blast

lemma deleted_by_user_mono: "deleted_by_user evac st h \<Longrightarrow> deleted_by_user evac st (h @ t)"
  by (auto simp: deleted_by_user_def)

lemma unlock_pvc_post:
  "vc (\<lambda>_ _. True) (unlock_pvc (s_pvc_ref st)) (\<lambda>r h'. r = Inr () \<longrightarrow> pvc_unlocked st h') h"
proof (cases "s_pvc_ref st")
  case None
  then show ?thesis by (simp add: unlock_pvc_def pvc_unlocked_def)
next
  case (Some r)
  have after: "vc (\<lambda>_ _. True) p (\<lambda>x h'. x = Inr () \<longrightarrow> pvc_unlocked st h') h'" if "pvc_unlocked st h'" for p :: "unit prog" and h'
  proof -
    have "vc (\<lambda>_ _. True) p (\<lambda>x h''. \<exists>t. h'' = h' @ t) h'" by (rule vc_extends)
    then show ?thesis by (rule vc_conseq) (use pvc_unlocked_mono [OF that] in blast)
  qed
  show ?thesis
    unfolding unlock_pvc_def Some option.simps
  proof (rule vc_bnd_using [OF update_params_post], rule after)
    fix x h' assume "(Inr x :: error + unit) = Inr () \<longrightarrow> params_updated (\<lambda>p. unlock p (pvc_key r)) h'"
    then show "pvc_unlocked st h'" using unlocked_after_update Some by (auto simp: pvc_unlocked_def)
  qed simp
qed

lemma safe_release_source:
  assumes "pvc_unlocked st h"
  shows "safe (source_released_ok ctx evac st) (release_source ctx (es_pv_name (ev_spec evac)) st) h"
proof (cases "s_source st")
  case None
  then show ?thesis by (simp add: release_source_def safe_Done)
next
  case (Some src)
  let ?G = "source_released_ok ctx evac st" and ?pv = "es_pv_name (ev_spec evac)" and ?vh = "si_volume_handle src"
  have any_zv: "safe ?G p h'" if "calls (\<lambda>q. not_on_source ctx st q \<or> (\<exists>p. q = Patch_merge K_ZFSVolume (openebs_ns ctx) ?vh p)
      \<or> q = Delete K_ZFSVolume (openebs_ns ctx) ?vh \<and> deleted_by_user evac st h') p (\<lambda>_. True)" "pvc_unlocked st h'"
    for p :: "unit prog" and h'
  proof (rule safe_calls [OF that(1)])
    fix q t assume "not_on_source ctx st q \<or> (\<exists>p. q = Patch_merge K_ZFSVolume (openebs_ns ctx) ?vh p)
      \<or> q = Delete K_ZFSVolume (openebs_ns ctx) ?vh \<and> deleted_by_user evac st h'"
    then show "?G (h' @ t) q"
      using pvc_unlocked_mono [OF that(2)] deleted_by_user_mono [of evac st h' t] Some
      by (auto simp: source_released_ok_def not_on_source_def)
  qed
  have gone: "vc (\<lambda>_ _. True) (case s_pvc_ref st of Some r \<Rightarrow> bnd (get_pvc (pr_namespace r) (pr_name r)) (\<lambda>o1. ret (o1 = None)) | None \<Rightarrow> ret False)
      (\<lambda>x h'. x = Inr True \<longrightarrow> (\<exists>r. s_pvc_ref st = Some r \<and> (Get K_PVC (pr_namespace r) (pr_name r), R_none) \<in> set h')) h'" for h'
    by (auto simp: call_defs vc_bnd vc_ask as_opt_Inr on_ok_def split: option.split sum.split option.splits)
  have gone_calls: "calls (not_on_source ctx st) (case s_pvc_ref st of
      Some r \<Rightarrow> bnd (get_pvc (pr_namespace r) (pr_name r)) (\<lambda>o1. ret (o1 = None)) | None \<Rightarrow> ret False) (\<lambda>_. True)"
    by (intro call_intros) simp_all
  have rest: "safe ?G (bnd (if pvc_gone \<and> pv_o = None \<and> s_original_reclaim_policy st = Some ''Delete''
      then bnd (get_zv ctx ?vh) (\<lambda>zv_o. case zv_o of
             Some zv \<Rightarrow> if \<not> being_deleted (zv_meta zv) then delete_obj K_ZFSVolume (openebs_ns ctx) ?vh else ret ()
           | None \<Rightarrow> ret ()) else ret ()) (\<lambda>_.
      bnd (set_finalizers K_ZFSVolume (openebs_ns ctx) ?vh (remove_from [GUARD_FINALIZER])) (\<lambda>_.
      strip_zfs_finalizer_if_node_gone K_ZFSVolume (openebs_ns ctx) ?vh (si_node_id src)))) h'"
    if u: "pvc_unlocked st h'" and d: "pvc_gone \<and> pv_o = None \<and> s_original_reclaim_policy st = Some ''Delete'' \<longrightarrow> deleted_by_user evac st h'"
    for pvc_gone h' and pv_o :: "persistent_volume option"
    by (rule any_zv [OF _ u]) (use d in \<open>intro call_intros; auto simp: strips_zfs_def\<close>)
  show ?thesis
    unfolding release_source_def Let_def Some option.simps
  proof (rule safe_bnd_post [OF gone_calls released_other gone], assumption, rule safe_bnd_get(1), simp add: released_other, rule rest)
    fix pvc_gone t and x :: "persistent_volume option"
    let ?h = "(h @ t) @ [(Get K_PV [] ?pv, opt_obj O_pv x)]"
    assume g: "(Inr pvc_gone :: error + bool) = Inr True \<longrightarrow>
      (\<exists>r. s_pvc_ref st = Some r \<and> (Get K_PVC (pr_namespace r) (pr_name r), R_none) \<in> set (h @ t))"
    show "pvc_unlocked st ?h" using pvc_unlocked_mono [OF pvc_unlocked_mono [OF assms]] .
    show "pvc_gone \<and> x = None \<and> s_original_reclaim_policy st = Some ''Delete'' \<longrightarrow> deleted_by_user evac st ?h"
      using g by (auto simp: deleted_by_user_def)
  qed
qed

lemma safe_abort_run:
  assumes "handles_differ st"
  shows "safe (source_released_ok ctx evac st) (abort_run ctx evac st) h"
proof -
  let ?G = "source_released_ok ctx evac st" and ?st = "st\<lparr>s_phase := Aborting\<rparr>"
  have other: "safe ?G p h'" if "calls (not_on_source ctx st) p (\<lambda>_. True)" for p :: "'b prog" and h'
    by (rule safe_calls [OF that]) (rule released_other)
  have target: "calls (not_on_source ctx st) (abort_target ctx n ?st) (\<lambda>_. True)" for n
    using assms by (intro calls_abort_target) (simp_all add: requeue_msg_def)
  have unlock: "calls (not_on_source ctx st) (unlock_pvc (s_pvc_ref ?st)) (\<lambda>_. True)"
    by (intro call_intros) simp_all
  have released: "safe ?G (release_source ctx (es_pv_name (ev_spec evac)) ?st) h'" if "pvc_unlocked ?st h'" for h'
    using safe_release_source [OF that, of ctx evac]
    by (simp add: source_released_ok_def [abs_def] pvc_unlocked_def deleted_by_user_def)
  have steps: "safe ?G (if s_phase st \<noteq> Aborting then write_status n ?st else ret ()) h'" "safe ?G (drop_relay n) h'"
    "safe ?G (abort_target ctx n ?st) h'" "safe ?G (restore_policy pv ?st) h'" for n pv h'
    by (rule other [OF target] | rule other, intro call_intros, simp_all)+
  have last: "safe ?G (if b then bnd (remove_evac_finalizer n) (\<lambda>_. ret Await_change)
      else bnd (write_status n st') (\<lambda>_. ret Await_change)) h'" for b n st' h'
    by (rule other, intro call_intros, simp_all)
  show ?thesis
    unfolding abort_run_def Let_def
    by (rule safe_bnd [OF steps(1)], rule safe_bnd [OF steps(2)], rule safe_bnd [OF steps(3)], rule safe_optionI,
        rule safe_bnd [OF steps(4)], rule safe_bnd_post [OF unlock released_other unlock_pvc_post], assumption,
        rule safe_bnd, rule released, simp, rule last, rule safe_Done)
qed

lemma safe_reconcile_released:
  assumes "handles_differ (recorded_status evac)" and "s_phase (recorded_status evac) \<notin> {Guarding, CleaningUp}"
  shows "safe (source_released_ok ctx evac (recorded_status evac)) (reconcile ctx evac) h"
proof (rule safe_reconcile_abort)
  let ?st = "recorded_status evac"
  have d: "not_on_source ctx ?st q" if "leaves n q" for n q
    using that by (cases q) (auto simp: leaves_def not_on_source_def)
  then show "leaves (name_any (ev_meta evac)) q \<Longrightarrow> source_released_ok ctx evac ?st h q" for h q
    using released_other by blast
  show "source_released_ok ctx evac ?st h (Patch_merge K_Evacuation [] (name_any (ev_meta evac)) (P_finalizers fs))" for h fs
    by (simp add: released_other)
  show "safe (source_released_ok ctx evac ?st) (abort_run ctx evac (?st\<lparr>s_message := m\<rparr>)) h" for h m
    using safe_abort_run [of "?st\<lparr>s_message := m\<rparr>" ctx evac h] assms(1)
    by (simp add: source_released_ok_def [abs_def] pvc_unlocked_def deleted_by_user_def handles_differ_def)
  have h: "harmless n q \<Longrightarrow> not_on_source ctx ?st q" for n q
    by (cases q) (auto simp: harmless_def)
  have p: "phase_may ctx evac ?st q \<Longrightarrow> not_on_source ctx ?st q" for q
    using assms by (cases "s_phase ?st") (auto simp: phase_may_def Let_def edits_def attempt_objects_def)
  show "safe (source_released_ok ctx evac ?st) (handle_phase ctx evac ?st) h" for h
    by (intro safe_calls [OF frame_handle_phase] released_other) (use h p in blast)
qed

section \<open>Deleting the source volume, in any phase\<close>

text \<open>Whichever phase a reconcile finds, the two ways in which it may delete the source volume.\<close>

definition source_may_go :: "ctx \<Rightarrow> zfs_evacuation \<Rightarrow> evac_status \<Rightarrow> trace \<Rightarrow> bool" where
  "source_may_go ctx evac st h \<longleftrightarrow>
     (s_phase st = CleaningUp \<and> s_committed st
        \<and> (\<forall>t. s_transfer st = Some t \<longrightarrow> attempt_gone ctx (name_any (ev_meta evac)) (ts_attempt t) h)
        \<and> snapshot_settled ctx st h)
   \<or> (\<not> s_committed st \<and> pvc_unlocked st h \<and> deleted_by_user evac st h)"

definition source_kept_ok :: "ctx \<Rightarrow> zfs_evacuation \<Rightarrow> evac_status \<Rightarrow> trace \<Rightarrow> req \<Rightarrow> bool" where
  "source_kept_ok ctx evac st h q \<longleftrightarrow> (\<forall>src. s_source st = Some src \<longrightarrow>
     q = Delete K_ZFSVolume (openebs_ns ctx) (si_volume_handle src) \<longrightarrow> source_may_go ctx evac st h)"

lemma source_kept_other: "no_zv_delete q \<Longrightarrow> source_kept_ok ctx evac st h q"
  by (auto simp: source_kept_ok_def no_zv_delete_def)

lemma safe_reconcile_kept:
  assumes inv: "status_inv mx (recorded_status evac)" and d: "handles_differ (recorded_status evac)"
  shows "safe (source_kept_ok ctx evac (recorded_status evac)) (reconcile ctx evac) h"
proof (cases "s_phase (recorded_status evac) = CleaningUp")
  case True
  then have c: "s_committed (recorded_status evac)" using inv by (simp add: status_inv_def)
  show ?thesis
    unfolding safe_def
    by (rule vc_mono [OF safe_reconcile_source_delete [OF True c, unfolded safe_def]])
      (use True c in \<open>auto simp: source_delete_ok_def source_kept_ok_def source_may_go_def\<close>)
next
  case False
  let ?st = "recorded_status evac" and ?G = "source_kept_ok ctx evac (recorded_status evac)"
  have adopting: "calls (not_on_source ctx ?st) (handle_phase ctx evac ?st) (\<lambda>_. True)" if "s_phase ?st = Adopting"
    by (rule calls_mono [OF frame_handle_phase])
      (use that d in \<open>auto simp: phase_may_def Let_def harmless_def not_on_source_def on_target_def handles_differ_def
        strips_zfs_def split: req.splits\<close>)
  have kept: "?G h' q" if "not_on_source ctx ?st q" for h' q
    using that by (auto simp: source_kept_ok_def not_on_source_def)
  have phase: "safe ?G (handle_phase ctx evac ?st) h'" for h'
  proof (cases "s_phase ?st = Adopting")
    case True
    then show ?thesis by (intro safe_calls [OF adopting] kept)
  next
    case no: False
    show ?thesis
      by (rule safe_calls [OF frame_handle_phase], rule source_kept_other) (use zv_delete_frame no False in blast)
  qed
  show ?thesis
  proof (cases "s_committed ?st")
    case True
    then have "s_phase ?st \<in> {Swapping, Completed}" using inv False by (auto simp: status_inv_def)
    then show ?thesis
    proof (elim insertE, goal_cases)
      case 1
      have "safe ?G (if being_deleted (ev_meta evac) then ret () else ensure_evac_finalizer evac) h'" for h'
        by (rule safe_calls [where P = no_zv_delete], intro call_intros, simp_all add: source_kept_other)
      then have "safe ?G (bnd (if being_deleted (ev_meta evac) then ret () else ensure_evac_finalizer evac)
          (\<lambda>_. handle_phase ctx evac ?st)) h"
        by (rule safe_bnd) (rule phase)
      then show ?case using 1 True by (simp add: reconcile_def Let_def cong: if_cong)
    next
      case 2
      have "safe ?G (bnd (if being_deleted (ev_meta evac) then remove_evac_finalizer (name_any (ev_meta evac)) else ret ()) (\<lambda>_. ret Await_change)) h"
        by (rule safe_calls [where P = no_zv_delete], intro call_intros, simp_all add: source_kept_other)
      then show ?case using 2 by (simp add: reconcile_def Let_def cong: if_cong)
    qed simp
  next
    case unc: False
    have ab: "safe ?G (abort_run ctx evac (?st\<lparr>s_message := m\<rparr>)) h'" for h' m
    proof -
      have "safe (source_released_ok ctx evac (?st\<lparr>s_message := m\<rparr>)) (abort_run ctx evac (?st\<lparr>s_message := m\<rparr>)) h'"
        by (rule safe_abort_run) (use d in \<open>simp add: handles_differ_def\<close>)
      then show ?thesis
        unfolding safe_def
        by (rule vc_mono)
          (use unc in \<open>auto simp: source_released_ok_def source_kept_ok_def source_may_go_def pvc_unlocked_def deleted_by_user_def\<close>)
    qed
    show ?thesis
      by (rule safe_reconcile_abort [OF _ _ ab phase])
        (auto simp: leaves_def intro: source_kept_other dest: zv_delete_frame(2))
  qed
qed

end
