(* ===== verification/Scenario.thy ===== *)
theory Scenario
  imports Abort_Safety
begin

text \<open>
  A concrete cluster: one evacuation of a bound volume from node \<open>n1\<close>, cordoned, to node \<open>n2\<close>. The
  properties of whole reconciles are applied here to runs of it, one per phase. \<open>fits\<close> decides
  whether a list of calls and answers is a run of a program, so each scenario is checked by
  evaluation.
\<close>

section \<open>Deciding runs\<close>

primrec fits :: "'a prog \<Rightarrow> transfers \<Rightarrow> trace \<Rightarrow> bool" where
  "fits (Done r) m tr \<longleftrightarrow> tr = []"
| "fits (Call q k) m tr \<longleftrightarrow> (case tr of [] \<Rightarrow> True | x # tr' \<Rightarrow> fst x = q \<and> fits (k (snd x)) m tr')"
| "fits (Mem g k) m tr \<longleftrightarrow> fits (k m) (g m) tr"

lemma fits_runs: "fits p m tr \<Longrightarrow> runs p tr"
proof (induction p arbitrary: m tr)
  case (Call q k)
  show ?case
  proof (cases tr)
    case (Cons x tr')
    obtain q' a where x: "x = (q', a)" by (cases x)
    have f: "fits (k a) m tr'" and q: "q' = q" using Call.prems by (simp_all add: Cons x)
    have "runs (k a) tr'" using Call.IH [OF _ f] by blast
    then show ?thesis by (simp add: Cons x q runs.call)
  qed (simp add: runs.stop)
next
  case (Mem g k)
  have f: "fits (k m) (g m) tr" using Mem.prems by simp
  have "runs (k m) tr" using Mem.IH [OF _ f] by blast
  then show ?case by (rule runs.mem)
qed (simp add: runs.stop)

text \<open>
  Evaluation by rewriting: the continuation of a call is looked at only once the call is answered.
\<close>

lemma bnd_weak_cong: "p = p' \<Longrightarrow> bnd p f = bnd p' f" by simp
lemma try_with_weak_cong: "p = p' \<Longrightarrow> try_with p f = try_with p' f" by simp
lemma Call_weak_cong: "q = q' \<Longrightarrow> Call q k = Call q' k" by simp
lemma Mem_weak_cong: "Mem g k = Mem g k" by simp

lemma fits_Call_Cons: "fits (Call q k) m (x # tr) \<longleftrightarrow> fst x = q \<and> fits (k (snd x)) m tr"
  by simp

lemma fits_Nil [simp]: "fits p m []"
  by (induction p arbitrary: m) simp_all

lemmas run_cong = bnd_weak_cong try_with_weak_cong Call_weak_cong Mem_weak_cong

lemmas run_defs = reconcile_def handle_phase_def Let_def ask_def call_defs as_opt_def as_list_def as_unit_def un_defs
  need_def requeue_secs_def advance_def fail_def wait_def go_abort_def write_status_def with_context_def
  cancel_reason_def trigger_withdrawn_def pvc_gone_or_replaced_def ensure_evac_finalizer_def pods_referencing_pvc_def
  blocking_reason_def source_repels_pods_def now_def now_rfc3339_def opt_secs_since_def secs_since_def of_time_def
  set_finalizers_def get_meta_def node_by_id_def create_if_absent_def

section \<open>The cluster\<close>

definition libs0 :: libs where
  "libs0 = \<lparr>format_rfc3339_seconds = (\<lambda>t. dec (t div 10 ^ 9)),
     parse_rfc3339 = (\<lambda>s. map_option (\<lambda>n. n * 10 ^ 9) (parse_digits s)),
     pv_to_json = (\<lambda>_. Inr ''{}''), pv_from_json = (\<lambda>_. Inl (E_msg ''no text'')),
     show_kube_error = (\<lambda>_. ''error''), hash_order = (\<lambda>xs. xs)\<rparr>"

definition ctx0 :: ctx where
  "ctx0 = \<lparr>c_cfg = \<lparr>cfg_openebs_ns = ''openebs'', cfg_pod_ip = ''10.0.0.9'',
       cfg_pod_namespace = ''zfs-evacuation-system'', cfg_stall_seconds = 120,
       cfg_taint_key = ''zfsevac.alumino.us/evacuate''\<rparr>, c_libs = libs0\<rparr>"

definition meta0 :: "string \<Rightarrow> string \<Rightarrow> objmeta" where
  "meta0 n uid = (named_meta n)\<lparr>m_uid := Some uid\<rparr>"

definition node0 :: "string \<Rightarrow> bool \<Rightarrow> string \<Rightarrow> node" where
  "node0 n cordon ip = \<lparr>node_meta = meta0 n n,
     node_spec = Some \<lparr>ns_taints = None, ns_unschedulable = Some cordon, ns_pod_cidr = None, ns_pod_cidrs = None\<rparr>,
     node_status = Some \<lparr>nt_addresses = Some [\<lparr>addr_type = ''InternalIP'', addr_address = ip\<rparr>],
       nt_conditions = Some [\<lparr>c_type = ''Ready'', c_status = ''True''\<rparr>]\<rparr>\<rparr>"

definition claim0 :: object_reference where
  "claim0 = \<lparr>or_api_version = None, or_kind = None, or_namespace = Some ''app'', or_name = Some ''data'',
     or_uid = Some ''uid-pvc'', or_others = []\<rparr>"

definition pv0 :: "string \<Rightarrow> string \<Rightarrow> persistent_volume" where
  "pv0 uid handle = \<lparr>pv_meta = (meta0 ''pv-1'' uid)\<lparr>m_annotations := Some [(''zfsevac.alumino.us/evacuate'', ''true'')]\<rparr>,
     pv_spec = Some \<lparr>pvs_csi = Some \<lparr>csi_driver = ''zfs.csi.openebs.io'', csi_volume_handle = handle,
         csi_volume_attributes = None, csi_others = []\<rparr>,
       pvs_claim_ref = Some claim0, pvs_reclaim_policy = Some ''Delete'', pvs_node_affinity = None,
       pvs_storage_class_name = None, pvs_others = []\<rparr>,
     pv_status = Some \<lparr>pvt_phase = Some ''Bound'', pvt_others = []\<rparr>\<rparr>"

definition pvc0 :: persistent_volume_claim where
  "pvc0 = \<lparr>pvc_meta = meta0 ''data'' ''uid-pvc'', pvc_spec = Some \<lparr>pcs_volume_name = Some ''pv-1''\<rparr>, pvc_status = None\<rparr>"

text \<open>A consumer waiting to be scheduled.\<close>

definition pod0 :: pod where
  "pod0 = \<lparr>pod_meta = named_meta ''web-0'',
     pod_spec = Some (default_pod_spec\<lparr>ps_volumes := Some [\<lparr>vol_name = ''data'', vol_claim = Some ''data'', vol_ephemeral = False\<rparr>]\<rparr>)\<rparr>"

definition zv0 :: "string \<Rightarrow> string \<Rightarrow> string list \<Rightarrow> zfs_volume" where
  "zv0 n node fins = \<lparr>zv_meta = (named_meta n)\<lparr>m_finalizers := Some fins\<rparr>,
     zv_spec = \<lparr>vi_owner_node_id = node, vi_pool_name = ''tank/vols'', vi_capacity = Some ''1073741824'', vi_snapname = None,
       vi_fs_type = None, vi_volume_type = None, vi_extra = []\<rparr>,
     zv_status = Some \<lparr>zs_state = Some ''Ready''\<rparr>\<rparr>"

section \<open>The evacuation\<close>

definition spec0 :: evac_spec where
  "spec0 = \<lparr>es_pv_name = ''pv-1'', es_trigger = Annotation, es_mode = WhenClaimed, es_target_node = None,
     es_target_pool = None, es_settle_seconds = None, es_transfer_timeout_seconds = None, es_max_attempts = None,
     es_headroom_percent = None\<rparr>"

definition src0 :: source_info where
  "src0 = \<lparr>si_node = ''n1'', si_node_id = ''n1'', si_pool = ''tank/vols'', si_volume_handle = ''pvc-1'',
     si_pv_uid = ''uid-pv'', si_capacity_bytes = 1073741824\<rparr>"

definition pref0 :: pvc_ref where
  "pref0 = \<lparr>pr_namespace = ''app'', pr_name = ''data'', pr_uid = ''uid-pvc''\<rparr>"

definition target0 :: target_info where
  "target0 = \<lparr>ti_node = ''n2'', ti_node_id = ''n2'', ti_pool = ''tank/vols'', ti_new_volume_handle = handle_of 7\<rparr>"

definition attempt0 :: transfer_status where
  "attempt0 = new_attempt 1 ''zevac-a1-002a'' (4001, 4002) ''1000''"

text \<open>The status in a phase before a target is picked, and in one after the transfer.\<close>

definition early :: "phase \<Rightarrow> evac_status" where
  "early p = default_status\<lparr>s_phase := p, s_pvc_ref := Some pref0, s_source := Some src0,
     s_original_reclaim_policy := Some ''Delete'', s_locked_at := Some ''100'', s_quiesced_at := Some ''200''\<rparr>"

definition late :: "phase \<Rightarrow> bool \<Rightarrow> evac_status" where
  "late p done = (early p)\<lparr>s_target := Some target0, s_transfer := Some attempt0, s_committed := done,
     s_old_pv_manifest := (if done then Some ''{}'' else None), s_new_pv_manifest := (if done then Some ''{}'' else None)\<rparr>"

definition evac0 :: "evac_status \<Rightarrow> zfs_evacuation" where
  "evac0 st = \<lparr>ev_meta = (named_meta ''pv-1'')\<lparr>m_finalizers := Some [''zfsevac.alumino.us/cleanup'']\<rparr>,
     ev_spec = spec0, ev_status = Some st\<rparr>"

lemma status_evac0 [simp]: "ev_status (evac0 st) = Some st"
  by (simp add: evac0_def)

lemma name_evac0 [simp]: "name_any (ev_meta (evac0 st)) = ''pv-1''" "ev_spec (evac0 st) = spec0"
  by (simp_all add: evac0_def name_any_def)

section \<open>Runs\<close>

definition seen_pv :: "req \<times> resp" where
  "seen_pv = (Get K_PV [] ''pv-1'', R_obj (O_pv (pv0 ''uid-pv'' ''pvc-1'')))"

definition seen_pods :: "req \<times> resp" where
  "seen_pods = (List_all K_Pod ''app'' None, R_objs [O_pod pod0])"

definition seen_node :: "req \<times> resp" where
  "seen_node = (Get K_Node [] ''n1'', R_obj (O_node (node0 ''n1'' True ''192.168.0.1'')))"

text \<open>Swapping with the old PV still there: it is deleted.\<close>

definition swap_delete :: "trace" where
  "swap_delete = [seen_pv, seen_pods, seen_node]"

lemmas scene_defs = seen_pv_def seen_pods_def seen_node_def late_def early_def default_status_def spec0_def src0_def
  pref0_def target0_def attempt0_def new_attempt_def pv0_def pvc0_def pod0_def node0_def zv0_def claim0_def meta0_def
  ctx0_def libs0_def evac0_def being_deleted_def meta_finalizers_def meta_annotation_def named_meta_def default_meta_def
  name_any_def default_pod_spec_def pod_defs node_repels_pods_def node_id_of_def meta_labels_def evac_consts
  openebs_consts List.map_filter_simps

lemma swap_delete_run: "runs (reconcile ctx0 (evac0 (late Swapping True))) (swap_delete @ (Delete K_PV [] ''pv-1'', R_ok) # [])"
  by (rule fits_runs [where m = Map.empty])
    (simp add: run_defs swap_delete_def swapping_def scene_defs cong: run_cong)

lemma times0 [simp]: "parse_digits ''100'' = Some 100" "parse_digits ''200'' = Some 200" "parse_digits ''1000'' = Some 1000"
  by (simp_all add: parse_digits_def digits_value_def is_digit_def)

definition seen_pvc :: "req \<times> resp" where
  "seen_pvc = (Get K_PVC ''app'' ''data'', R_obj (O_pvc pvc0))"

definition seen_time :: "nat \<Rightarrow> req \<times> resp" where
  "seen_time t = (Now, R_time (t * 10 ^ 9))"

lemmas scene_more = seen_pvc_def seen_time_def

text \<open>The trigger is still there and the claim is the recorded one: no reason to cancel.\<close>

definition not_cancelled :: trace where
  "not_cancelled = [seen_pv, seen_pvc]"

lemma update_params_once:
  "update_params mutate = bnd get_params (\<lambda>o1.
     (case o1 of
        None \<Rightarrow>
          (case mutate default_params of (changed, spec) \<Rightarrow>
             if \<not> changed then ret ()
             else Call (Create K_Params [] (O_params (params_object spec))) (\<lambda>a.
               case a of R_err e \<Rightarrow> if is_conflict e then update_params_n 7 mutate else throw (E_kube e)
               | _ \<Rightarrow> ret ()))
      | Some params \<Rightarrow>
          (case mutate (ep_spec params) of (changed, spec) \<Rightarrow>
             if \<not> changed then ret ()
             else Call (Replace K_Params [] (name_any (ep_meta params)) (O_params (params\<lparr>ep_spec := spec\<rparr>))) (\<lambda>a.
               case a of R_err e \<Rightarrow> if is_conflict e then update_params_n 7 mutate else throw (E_kube e)
               | _ \<Rightarrow> ret ()))))"
  unfolding update_params_def using update_params_n.simps(2) [of 7 mutate] by simp

text \<open>Locking: the lock table is created, the claim labelled.\<close>

definition locking_calls :: trace where
  "locking_calls = not_cancelled @
     [(Get K_Params [] PARAMS_NAME, R_none),
      (Create K_Params [] (O_params (params_object \<lparr>pvc_keys = [], claimable_pvc_keys = [''app/data'']\<rparr>)), R_ok),
      (Patch_merge K_PVC ''app'' ''data'' (P_label EVACUATING_LABEL (Some ''true'')), R_ok),
      seen_time 500]"

definition locked0 :: evac_status where
  "locked0 = (early Locking)\<lparr>s_locked_at := Some (dec 500), s_phase := Quiescing, s_message := None\<rparr>"

lemma locking_run: "runs (reconcile ctx0 (evac0 (early Locking))) (locking_calls @ (Patch_status ''pv-1'' locked0, R_ok) # [])"
  by (rule fits_runs [where m = Map.empty])
    (simp add: run_defs locking_calls_def not_cancelled_def locked0_def locking_def update_params_once
      get_params_def pvc_key_def lock_def default_params_def scene_defs scene_more cong: run_cong)

text \<open>Quiescing: the grace period and the settle time are over, one unscheduled consumer, the node cordoned.\<close>

definition quiet_calls :: trace where
  "quiet_calls = not_cancelled @ [seen_time 500, seen_pods, seen_node, seen_time 500]"

definition settled0 :: evac_status where
  "settled0 = (early Quiescing)\<lparr>s_phase := TargetSelecting, s_message := None\<rparr>"

lemma quiet_run: "runs (reconcile ctx0 (evac0 (early Quiescing))) (quiet_calls @ (Patch_status ''pv-1'' settled0, R_ok) # [])"
  by (rule fits_runs [where m = Map.empty])
    (simp add: run_defs quiet_calls_def not_cancelled_def settled0_def quiescing_def as_secs_def
      LOCK_PROPAGATION_SECONDS_def DEFAULT_SETTLE_SECONDS_def word_less_nat_alt unat_of_nat
      scene_defs scene_more cong: run_cong)

text \<open>Committing.\<close>

definition commit_calls :: trace where
  "commit_calls = not_cancelled @ [seen_pvc, seen_pods, seen_node, seen_pv]"

definition committed0 :: evac_status where
  "committed0 = (commit_record (late Committing False) ''{}'' ''{}'')\<lparr>s_phase := Swapping, s_message := None\<rparr>"

lemma commit_run: "runs (reconcile ctx0 (evac0 (late Committing False))) (commit_calls @ (Patch_status ''pv-1'' committed0, R_ok) # [])"
  by (rule fits_runs [where m = Map.empty])
    (simp add: run_defs commit_calls_def not_cancelled_def committed0_def committing_def commit_record_def unexpected_pods_def
      render_new_pv_def scene_defs scene_more cong: run_cong)

text \<open>The end of the swap: the new PV is bound to the claim.\<close>

definition swapped_calls :: trace where
  "swapped_calls = [(Get K_PV [] ''pv-1'', R_obj (O_pv (pv0 ''uid-new'' (handle_of 7)))),
     (Patch_merge K_PV [] ''pv-1'' (P_reclaim_policy ''Delete''), R_ok)]"

definition swapped0 :: evac_status where
  "swapped0 = (late Swapping True)\<lparr>s_phase := CleaningUp, s_message := None\<rparr>"

lemma swapped_run: "runs (reconcile ctx0 (evac0 (late Swapping True))) (swapped_calls @ (Patch_status ''pv-1'' swapped0, R_ok) # [])"
  by (rule fits_runs [where m = Map.empty])
    (simp add: run_defs swapped_calls_def swapped0_def swapping_def pv_phase_def pv_claim_uid_def
      scene_defs scene_more cong: run_cong)

text \<open>CleaningUp: the transfer objects and the target's snapshot are gone, the source volume is deleted.\<close>

definition cleanup_calls :: trace where
  "cleanup_calls =
     [(Get K_ZFSBackup ''openebs'' (bkp_name ''pv-1'' 1), R_none), (Get K_ZFSRestore ''openebs'' (rst_name ''pv-1'' 1), R_none),
      (Get K_ZFSSnapshot ''openebs'' ''zevac-a1-002a'', R_none), (Get K_ZFSVolume ''openebs'' (handle_of 7), R_none),
      (Get K_ZFSVolume ''openebs'' ''pvc-1'', R_obj (O_zv (zv0 ''pvc-1'' ''n1'' [])))]"

lemma cleanup_run: "runs (reconcile ctx0 (evac0 (late CleaningUp True))) (cleanup_calls @ (Delete K_ZFSVolume ''openebs'' ''pvc-1'', R_ok) # [])"
  by (rule fits_runs [where m = Map.empty])
    (simp add: run_defs cleanup_calls_def cleaning_up_def cleanup_transfer_crs_def cleanup_cr_def destroy_target_snapshot_def
      destroy_source_def scene_defs scene_more cong: run_cong)

text \<open>An abort after the user deleted the claim: unlocked first, then the guard goes.\<close>

definition abort_calls :: trace where
  "abort_calls =
     [(Get K_PV [] ''pv-1'', R_none),
      (Get K_Params [] PARAMS_NAME, R_obj (O_params (params_object \<lparr>pvc_keys = [''app/data''], claimable_pvc_keys = []\<rparr>))),
      (Replace K_Params [] PARAMS_NAME (O_params (params_object \<lparr>pvc_keys = [], claimable_pvc_keys = []\<rparr>)), R_ok),
      (Patch_merge K_PVC ''app'' ''data'' (P_label EVACUATING_LABEL None), R_ok),
      (Get K_PVC ''app'' ''data'', R_none), (Get K_PV [] ''pv-1'', R_none),
      (Get K_ZFSVolume ''openebs'' ''pvc-1'', R_obj (O_zv (zv0 ''pvc-1'' ''n1'' [GUARD_FINALIZER])))]"

definition deleted_calls :: trace where
  "deleted_calls = [(Delete K_ZFSVolume ''openebs'' ''pvc-1'', R_ok),
      (Get K_ZFSVolume ''openebs'' ''pvc-1'', R_obj (O_zv (zv0 ''pvc-1'' ''n1'' [GUARD_FINALIZER])))]"

lemma abort_run_once: "runs (reconcile ctx0 (evac0 (early Aborting)))
    (abort_calls @ deleted_calls @ (Patch_merge K_ZFSVolume ''openebs'' ''pvc-1'' (P_finalizers []), R_ok) # [])"
  by (rule fits_runs [where m = Map.empty])
    (simp add: run_defs abort_calls_def deleted_calls_def abort_run_def drop_relay_def abort_target_def restore_policy_def unlock_pvc_def
      release_source_def update_params_once params_object_def unlock_def pvc_key_def remove_from_def default_params_def
      scene_defs scene_more cong: run_cong)

text \<open>The first attempt: the relay, the record, the backup.\<close>

definition start_calls :: trace where
  "start_calls = not_cancelled @
     [(Get K_Node [] ''n1'', R_obj (O_node (node0 ''n1'' True ''192.168.0.1''))),
      (Get K_Node [] ''n2'', R_obj (O_node (node0 ''n2'' False ''192.168.0.2''))),
      (Spawn_relay [host (V4 0xC0A80001)] [host (V4 0xC0A80002)], R_relay 0 4001 4002), (Rand_u16, R_u16 42), seen_time 1000]"

definition started0 :: evac_status where
  "started0 = (late Transferring False)\<lparr>s_transfer := Some (new_attempt 1 (snap_name_of 1 42) (4001, 4002) (dec 1000)),
     s_message := Some (''transfer attempt '' @ dec 1 @ '' starting'')\<rparr>"

lemma addresses0: "parse_ip ''192.168.0.1'' = Some (V4 0xC0A80001)" "parse_ip ''192.168.0.2'' = Some (V4 0xC0A80002)"
  by (simp_all add: parse_ip_def read_v4_def read_octet_def read_number_def radix_digit_def hex_value_def read_char_def)

lemma peers0: "relay_peers (node0 ''n1'' True ''192.168.0.1'') = Inr [host (V4 0xC0A80001)]"
  "relay_peers (node0 ''n2'' False ''192.168.0.2'') = Inr [host (V4 0xC0A80002)]"
  by (simp_all add: relay_peers_def node_ips_def node0_def addresses0 List.map_filter_simps)

lemma start_run: "runs (reconcile ctx0 (evac0 ((late Transferring False)\<lparr>s_transfer := None\<rparr>)))
    (start_calls @ [(Patch_status ''pv-1'' started0, R_ok)]
     @ (Create K_ZFSBackup ''openebs'' (O_bkp (attempt_backup ctx0 ''pv-1'' src0 1 (snap_name_of 1 42) 4001)), R_ok) # [])"
  by (rule fits_runs [where m = Map.empty])
    (use peers0 in \<open>simp add: run_defs start_calls_def not_cancelled_def started0_def transferring_def start_attempt_def peers_of_def
      spawn_relay_def as_relay_def register_relay_def relay_ports_def rand_u16_def attempt_backup_def
      scene_defs scene_more cong: run_cong\<close>)

text \<open>The relay has the source: the restore is created.\<close>

definition load0 :: relay_load where
  "load0 = \<lparr>rl_bytes = 0, rl_last_activity = 1001, rl_task_finished = False, rl_source_connected = True\<rparr>"

definition restore_calls :: trace where
  "restore_calls = not_cancelled @
     [(Get K_ZFSBackup ''openebs'' (bkp_name ''pv-1'' 1), R_none), (Get K_ZFSRestore ''openebs'' (rst_name ''pv-1'' 1), R_none),
      (Relay_load 0, R_load load0), seen_time 1002, seen_time 1002,
      (Get K_ZFSVolume ''openebs'' ''pvc-1'', R_obj (O_zv (zv0 ''pvc-1'' ''n1'' [])))]"

definition restore0 :: zfs_restore where
  "restore0 = (ZFSRestore_new (rst_name ''pv-1'' 1)
     \<lparr>rss_volume_name = handle_of 7, rss_owner_node_id = ''n2'', rss_restore_src = ''10.0.0.9:'' @ dec 4002\<rparr>
     (adapt_to_target (zv_spec (zv0 ''pvc-1'' ''n1'' [])) target0))\<lparr>rs_status := Some ''Init''\<rparr>"

lemma restore_run: "runs (reconcile ctx0 (evac0 (late Transferring False)))
    (restore_calls @ (Create K_ZFSRestore ''openebs'' (O_rst restore0), R_ok) # [])"
  by (rule fits_runs [where m = "[''pv-1'' \<mapsto> \<lparr>at_attempt = 1, at_task = 0, at_backup_port = 4001, at_restore_port = 4002\<rparr>]"])
    (simp add: run_defs restore_calls_def not_cancelled_def transferring_def observe_relay_def of_load_def load0_def act_on_verdict_def
      transfer_verdict_def bad_status_def flowing_def create_restore_def restore0_def as_secs_def word_less_nat_alt unat_of_nat
      DEFAULT_TRANSFER_TIMEOUT_def scene_defs scene_more cong: run_cong)

text \<open>Both agents report Done: the copy is complete.\<close>

definition backup0 :: zfs_backup where
  "backup0 = (attempt_backup ctx0 ''pv-1'' src0 1 (snap_name_of 1 42) 4001)\<lparr>bk_status := Some ''Done''\<rparr>"

definition copied_calls :: trace where
  "copied_calls = not_cancelled @
     [(Get K_ZFSBackup ''openebs'' (bkp_name ''pv-1'' 1), R_obj (O_bkp backup0)),
      (Get K_ZFSRestore ''openebs'' (rst_name ''pv-1'' 1), R_obj (O_rst (restore0\<lparr>rs_status := Some ''Done''\<rparr>))),
      seen_time 1500, seen_time 1500]"

definition adopting0 :: evac_status where
  "adopting0 = (late Transferring False)\<lparr>s_phase := Adopting, s_message := None\<rparr>"

lemma copied_run: "runs (reconcile ctx0 (evac0 (late Transferring False))) (copied_calls @ (Patch_status ''pv-1'' adopting0, R_ok) # [])"
  by (rule fits_runs [where m = Map.empty])
    (simp add: run_defs copied_calls_def not_cancelled_def transferring_def observe_relay_def drop_relay_def act_on_verdict_def
      transfer_verdict_def backup0_def adopting0_def scene_defs scene_more cong: run_cong)

text \<open>A fresh evacuation of a PV that is not there.\<close>

definition failed0 :: evac_status where
  "failed0 = default_status\<lparr>s_phase := Failed, s_message := Some ''PV pv-1 not found''\<rparr>"

lemma pending_run: "runs (reconcile ctx0 (evac0 default_status)) ([(Get K_PV [] ''pv-1'', R_none)] @ (Patch_status ''pv-1'' failed0, R_ok) # [])"
  by (rule fits_runs [where m = Map.empty])
    (simp add: run_defs pending_def failed0_def scene_defs cong: run_cong)

text \<open>CleaningUp with everything gone: the evacuation completes.\<close>

definition completed_calls :: trace where
  "completed_calls = [(Get K_ZFSBackup ''openebs'' (bkp_name ''pv-1'' 1), R_none), (Get K_ZFSRestore ''openebs'' (rst_name ''pv-1'' 1), R_none),
     (Get K_ZFSSnapshot ''openebs'' ''zevac-a1-002a'', R_none), (Get K_ZFSVolume ''openebs'' (handle_of 7), R_none),
     (Get K_ZFSVolume ''openebs'' ''pvc-1'', R_none), (Get K_Params [] PARAMS_NAME, R_none),
     (Patch_merge K_PVC ''app'' ''data'' (P_label EVACUATING_LABEL None), R_ok), (Get K_PV [] ''pv-1'', R_none)]"

definition completed0 :: evac_status where
  "completed0 = (late CleaningUp True)\<lparr>s_phase := Completed, s_message := None\<rparr>"

lemma completed_run: "runs (reconcile ctx0 (evac0 (late CleaningUp True))) (completed_calls @ (Patch_status ''pv-1'' completed0, R_ok) # [])"
  by (rule fits_runs [where m = Map.empty])
    (simp add: run_defs completed_calls_def completed0_def cleaning_up_def cleanup_transfer_crs_def cleanup_cr_def destroy_target_snapshot_def
      finish_def unlock_pvc_def update_params_once get_params_def pvc_key_def unlock_def default_params_def untrigger_def
      scene_defs scene_more cong: run_cong)

section \<open>The scenario's statuses\<close>

lemma status0 [simp]:
  "s_phase (early p) = p" "s_source (early p) = Some src0" "s_pvc_ref (early p) = Some pref0" "s_target (early p) = None"
  "s_transfer (early p) = None" "\<not> s_committed (early p)"
  "s_phase (late p d) = p" "s_source (late p d) = Some src0" "s_pvc_ref (late p d) = Some pref0" "s_target (late p d) = Some target0"
  "s_transfer (late p d) = Some attempt0" "s_committed (late p d) = d"
  "s_phase locked0 = Quiescing" "s_phase settled0 = TargetSelecting" "s_phase committed0 = Swapping" "s_phase swapped0 = CleaningUp"
  "ts_attempt attempt0 = 1" "s_phase failed0 = Failed" "s_phase completed0 = Completed" "s_phase adopting0 = Adopting"
  by (simp_all add: early_def late_def default_status_def locked0_def settled0_def committed0_def swapped0_def failed0_def completed0_def adopting0_def
      attempt0_def new_attempt_def)

lemma inv_late: "d \<longleftrightarrow> p \<in> {Swapping, CleaningUp, Completed} \<Longrightarrow> p \<in> {Transferring, Adopting, Committing, Swapping, CleaningUp, Completed}
    \<Longrightarrow> status_inv 3 (late p d)"
  by (auto simp: status_inv_def late_def early_def default_status_def good_target_def target0_def src0_def attempt0_def
      new_attempt_def less_phase_def)

lemma handles0 [simp]: "handles_differ (late p d)" "handles_differ (early p)"
  by (simp_all add: handles_differ_def target0_def src0_def handle_of_def)

lemma max0: "max_attempts (evac0 st) = 3"
  by (simp add: spec0_def DEFAULT_MAX_ATTEMPTS_def)

lemma sent0: "(q, a) \<in> set (xs @ (q, a) # ys)"
  by simp

section \<open>Two unusual courses\<close>

text \<open>A scheduled consumer, and the status after it once blocked the copy.\<close>

definition pod1 :: pod where
  "pod1 = \<lparr>pod_meta = named_meta ''web-0'',
     pod_spec = Some (default_pod_spec\<lparr>ps_node_name := Some ''n1'',
       ps_volumes := Some [\<lparr>vol_name = ''data'', vol_claim = Some ''data'', vol_ephemeral = False\<rparr>]\<rparr>)\<rparr>"

definition interrupted0 :: evac_status where
  "interrupted0 = (early Quiescing)\<lparr>s_message := Some (blocking_pods_message [pod1]), s_quiesced_at := None\<rparr>"

definition anchored0 :: evac_status where
  "anchored0 = interrupted0\<lparr>s_quiesced_at := Some (dec 200)\<rparr>"

text \<open>The pod of the last interruption is there again, and gone again.\<close>

definition blocked_again :: trace where
  "blocked_again = not_cancelled @ [seen_time 500, (List_all K_Pod ''app'' None, R_objs [O_pod pod1])]"

lemma blocked_again_run: "runs (reconcile ctx0 (evac0 anchored0)) blocked_again"
  by (rule fits_runs [where m = Map.empty])
    (simp add: run_defs blocked_again_def not_cancelled_def anchored0_def interrupted0_def quiescing_def as_secs_def
      LOCK_PROPAGATION_SECONDS_def DEFAULT_SETTLE_SECONDS_def word_less_nat_alt unat_of_nat
      scene_defs scene_more cong: run_cong)

lemma anchored_quiet_run:
  "runs (reconcile ctx0 (evac0 anchored0)) (quiet_calls @ [(Patch_status ''pv-1'' (anchored0\<lparr>s_phase := TargetSelecting, s_message := None\<rparr>), R_ok)])"
  by (rule fits_runs [where m = Map.empty])
    (simp add: run_defs quiet_calls_def not_cancelled_def anchored0_def interrupted0_def quiescing_def as_secs_def
      LOCK_PROPAGATION_SECONDS_def DEFAULT_SETTLE_SECONDS_def word_less_nat_alt unat_of_nat
      scene_defs scene_more cong: run_cong)

text \<open>The PV was replaced under its name.\<close>

definition stranded_calls :: trace where
  "stranded_calls = not_cancelled @ [seen_pvc, seen_pods, seen_node, (Get K_PV [] ''pv-1'', R_obj (O_pv (pv0 ''uid-other'' ''pvc-1'')))]"

definition stranded0 :: evac_status where
  "stranded0 = (late Committing False)\<lparr>s_phase := Failed, s_message := Some ''old PV UID changed at commit''\<rparr>"

lemma stranded_run: "runs (reconcile ctx0 (evac0 (late Committing False))) (stranded_calls @ [(Patch_status ''pv-1'' stranded0, R_ok)])"
  by (rule fits_runs [where m = Map.empty])
    (simp add: run_defs stranded_calls_def not_cancelled_def stranded0_def committing_def unexpected_pods_def
      scene_defs scene_more cong: run_cong)

end
