(* ===== verification/Swap_Progress.thy ===== *)
theory Swap_Progress
  imports Scenario
begin

text \<open>
  Progress of the PV swap. The other theories hold for any API server; rolling forward needs one that
  does its part. \<open>keeps_pv\<close> and \<open>binds\<close> state what the Kubernetes documentation says about a PV that
  only this controller writes: deletion with finalizers, fresh UIDs, and the PV controller's binding of
  a PV to the claim its \<open>claimRef\<close> names. Under them each reconcile moves the swap on, from every state
  in which an earlier one can have been cut off.
\<close>

section \<open>The API server\<close>

definition stamped :: "string \<Rightarrow> persistent_volume \<Rightarrow> persistent_volume" where
  "stamped t p = p\<lparr>pv_meta := (pv_meta p)\<lparr>m_deletion_timestamp := Some t\<rparr>\<rparr>"

definition with_finalizers :: "string list \<Rightarrow> persistent_volume \<Rightarrow> persistent_volume" where
  "with_finalizers fs p = p\<lparr>pv_meta := (pv_meta p)\<lparr>m_finalizers := Some fs\<rparr>\<rparr>"

text \<open>
  The object under the name \<open>n\<close> is \<open>pv w\<close> in the world \<open>w\<close>. A delete marks an object that has finalizers
  and removes one that has none; taking the last finalizer from a marked object removes it; a created
  object has the spec that was sent and a UID other than \<open>old\<close>.
\<close>

definition keeps_pv :: "'w api \<Rightarrow> ('w \<Rightarrow> persistent_volume option) \<Rightarrow> string \<Rightarrow> string \<Rightarrow> bool" where
  "keeps_pv api pv n old \<longleftrightarrow> (\<forall>w.
     fst (api (Get K_PV [] n) w) = (case pv w of None \<Rightarrow> R_none | Some p \<Rightarrow> R_obj (O_pv p))
   \<and> pv (snd (api (Get K_PV [] n) w)) = pv w
   \<and> (\<forall>p. pv w = Some p \<longrightarrow> fst (api (Delete K_PV [] n) w) = R_ok
        \<and> (if meta_finalizers (pv_meta p) = [] then pv (snd (api (Delete K_PV [] n) w)) = None
           else \<exists>t. pv (snd (api (Delete K_PV [] n) w)) = Some (stamped t p)))
   \<and> (\<forall>p fs. pv w = Some p \<longrightarrow> fst (api (Patch_merge K_PV [] n (P_finalizers fs)) w) = R_ok
        \<and> pv (snd (api (Patch_merge K_PV [] n (P_finalizers fs)) w))
          = (if being_deleted (pv_meta p) \<and> fs = [] then None else Some (with_finalizers fs p)))
   \<and> (\<forall>p s. pv w = Some p \<longrightarrow> fst (api (Patch_merge K_PV [] n (P_reclaim_policy s)) w) = R_ok)
   \<and> (\<forall>x. pv w = None \<longrightarrow> m_name (pv_meta x) = Some n \<longrightarrow> fst (api (Create K_PV [] (O_pv x)) w) = R_ok
        \<and> (\<exists>p. pv (snd (api (Create K_PV [] (O_pv x)) w)) = Some p \<and> pv_spec p = pv_spec x \<and> m_uid (pv_meta p) \<noteq> Some old))
   \<and> (\<forall>e st. fst (api (Patch_status e st) w) = R_ok))"

text \<open>The PV controller between two reconciles: a PV whose \<open>claimRef\<close> has the claim's UID gets bound.\<close>

definition binds :: "('w \<Rightarrow> 'w) \<Rightarrow> ('w \<Rightarrow> persistent_volume option) \<Rightarrow> string \<Rightarrow> string \<Rightarrow> bool" where
  "binds env pv old uid \<longleftrightarrow> (\<forall>w. (pv w = None \<longrightarrow> pv (env w) = None)
   \<and> (\<forall>p. pv w = Some p \<and> m_uid (pv_meta p) \<noteq> Some old \<and> pv_claim_uid p = uid \<longrightarrow>
        (\<exists>p'. pv (env w) = Some p' \<and> m_uid (pv_meta p') \<noteq> Some old \<and> pv_claim_uid p' = uid \<and> pv_phase p' = ''Bound'')))"

text \<open>The claim stays quiet: the check that precedes the delete passes and leaves the PV alone.\<close>

definition stays_quiet :: "'w api \<Rightarrow> ('w \<Rightarrow> persistent_volume option) \<Rightarrow> ctx \<Rightarrow> zfs_evacuation \<Rightarrow> evac_status \<Rightarrow> pvc_ref \<Rightarrow> bool" where
  "stays_quiet api pv ctx evac st r \<longleftrightarrow> (\<forall>w m. \<exists>tr w'. pv w' = pv w
     \<and> exec api (bnd (pods_referencing_pvc (pr_namespace r) (pr_name r)) (blocking_reason ctx evac st)) w m = (Inr None, tr, w', m))"

section \<open>States of the swap\<close>

text \<open>
  What a swap may find: the old PV, carrying no finalizers but the two the swap may take off; no PV; or
  a replacement made for the claim.
\<close>

definition swap_state :: "string \<Rightarrow> string \<Rightarrow> persistent_volume option \<Rightarrow> bool" where
  "swap_state old uid o1 \<longleftrightarrow> (case o1 of None \<Rightarrow> True
     | Some p \<Rightarrow> if m_uid (pv_meta p) = Some old
         then set (meta_finalizers (pv_meta p)) \<subseteq> {PV_PROTECTION, PROVISIONER_FINALIZER}
            \<and> (being_deleted (pv_meta p) \<longrightarrow> meta_finalizers (pv_meta p) \<noteq> [])
         else pv_claim_uid p = uid)"

text \<open>A number of reconciles one after the other, the other controllers moving between them.\<close>

primrec rounds :: "'w api \<Rightarrow> ('w \<Rightarrow> 'w) \<Rightarrow> 'a prog \<Rightarrow> nat \<Rightarrow> 'w \<Rightarrow> transfers \<Rightarrow> trace" where
  "rounds api env p 0 w m = []"
| "rounds api env p (Suc k) w m = (case exec api p w m of (r, tr, w', m') \<Rightarrow> tr @ rounds api env p k (env w') m')"

section \<open>One reconcile\<close>

lemma exec_ask: "exec api (ask q d) w m = (d (fst (api q w)), [(q, fst (api q w))], snd (api q w), m)"
  by (simp add: ask_def split: prod.splits)

lemma exec_bnd_ok:
  "exec api p w m = (Inr x, tr, w', m') \<Longrightarrow> exec api (bnd p f) w m =
     (case exec api (f x) w' m' of (r, tr', s) \<Rightarrow> (r, tr @ tr', s))"
  by (simp add: exec_bnd)

lemma exec_try_with:
  "exec api (try_with p f) w m = (case exec api p w m of (r, tr, w', m') \<Rightarrow>
     (case exec api (f r) w' m' of (r', tr', s) \<Rightarrow> (r', tr @ tr', s)))"
  by (induction p arbitrary: w m) (auto split: prod.splits)

lemma bnd_assoc: "bnd (bnd p f) g = bnd p (\<lambda>x. bnd (f x) g)"
  by (induction p) (simp_all split: sum.splits)

lemma removed_all: "set fs \<subseteq> set own \<Longrightarrow> remove_from own fs = []"
  unfolding remove_from_def by (rule filter_False) blast

lemma keeps_pvD:
  assumes "keeps_pv api pv n old"
  shows "fst (api (Get K_PV [] n) w) = (case pv w of None \<Rightarrow> R_none | Some p \<Rightarrow> R_obj (O_pv p))"
    and "pv (snd (api (Get K_PV [] n) w)) = pv w"
    and "pv w = Some p \<Longrightarrow> fst (api (Delete K_PV [] n) w) = R_ok"
    and "pv w = Some p \<Longrightarrow> meta_finalizers (pv_meta p) = [] \<Longrightarrow> pv (snd (api (Delete K_PV [] n) w)) = None"
    and "pv w = Some p \<Longrightarrow> meta_finalizers (pv_meta p) \<noteq> [] \<Longrightarrow> \<exists>t. pv (snd (api (Delete K_PV [] n) w)) = Some (stamped t p)"
    and "pv w = Some p \<Longrightarrow> fst (api (Patch_merge K_PV [] n (P_finalizers fs)) w) = R_ok"
    and "pv w = Some p \<Longrightarrow> being_deleted (pv_meta p) \<Longrightarrow> pv (snd (api (Patch_merge K_PV [] n (P_finalizers [])) w)) = None"
    and "pv w = Some p \<Longrightarrow> fst (api (Patch_merge K_PV [] n (P_reclaim_policy s)) w) = R_ok"
    and "pv w = None \<Longrightarrow> m_name (pv_meta x) = Some n \<Longrightarrow> fst (api (Create K_PV [] (O_pv x)) w) = R_ok"
    and "pv w = None \<Longrightarrow> m_name (pv_meta x) = Some n \<Longrightarrow> \<exists>p. pv (snd (api (Create K_PV [] (O_pv x)) w)) = Some p
           \<and> pv_spec p = pv_spec x \<and> m_uid (pv_meta p) \<noteq> Some old"
    and "fst (api (Patch_status e st) w) = R_ok"
  using assms unfolding keeps_pv_def by simp_all

lemma meta_edits [simp]:
  "meta_finalizers (pv_meta (stamped t p)) = meta_finalizers (pv_meta p)" "being_deleted (pv_meta (stamped t p))"
  "m_uid (pv_meta (stamped t p)) = m_uid (pv_meta p)"
  by (simp_all add: stamped_def being_deleted_def meta_finalizers_def)

lemma get_exec:
  assumes "keeps_pv api pv n old"
  shows "\<exists>w'. pv w' = pv w \<and> exec api (get_pv n) w m
     = (Inr (pv w), [(Get K_PV [] n, case pv w of None \<Rightarrow> R_none | Some p \<Rightarrow> R_obj (O_pv p))], w', m)"
  by (intro exI [of _ "snd (api (Get K_PV [] n) w)"])
    (simp add: keeps_pvD [OF assms] get_pv_def exec_ask as_opt_def un_pv_def split: option.split)

lemma strip_exec:
  assumes k: "keeps_pv api pv n old" and "pv w = None \<or> (\<exists>p. pv w = Some p \<and> being_deleted (pv_meta p)
     \<and> meta_finalizers (pv_meta p) \<noteq> [] \<and> set (meta_finalizers (pv_meta p)) \<subseteq> {PV_PROTECTION, PROVISIONER_FINALIZER})"
  shows "\<exists>tr w'. pv w' = None \<and> exec api (set_finalizers K_PV [] n (remove_from [PV_PROTECTION, PROVISIONER_FINALIZER])) w m
     = (Inr (), tr, w', m)"
proof -
  let ?w = "snd (api (Get K_PV [] n) w)"
  note g = keeps_pvD(1,2) [OF k, of w]
  show ?thesis using assms(2)
  proof
    assume "pv w = None"
    then show ?thesis using g by (simp add: set_finalizers_def get_meta_def exec_bnd exec_ask as_opt_def)
  next
    assume "\<exists>p. pv w = Some p \<and> being_deleted (pv_meta p) \<and> meta_finalizers (pv_meta p) \<noteq> []
      \<and> set (meta_finalizers (pv_meta p)) \<subseteq> {PV_PROTECTION, PROVISIONER_FINALIZER}"
    then obtain p where p: "pv w = Some p" "being_deleted (pv_meta p)" "meta_finalizers (pv_meta p) \<noteq> []"
      "set (meta_finalizers (pv_meta p)) \<subseteq> {PV_PROTECTION, PROVISIONER_FINALIZER}" by blast
    then have r: "remove_from [PV_PROTECTION, PROVISIONER_FINALIZER] (meta_finalizers (pv_meta p)) = []"
      by (intro removed_all) simp
    have "pv ?w = Some p" using g(2) p(1) by simp
    then show ?thesis using g(1) p(1-3) r keeps_pvD(6,7) [OF k, of ?w p]
      by (simp add: set_finalizers_def get_meta_def exec_bnd exec_ask as_opt_def Let_def patch_obj_def as_unit_def)
  qed
qed

text \<open>A committed evacuation that holds its finalizer goes straight to its phase.\<close>

definition rolling :: "zfs_evacuation \<Rightarrow> evac_status \<Rightarrow> bool" where
  "rolling evac st \<longleftrightarrow> ev_status evac = Some st \<and> s_phase st = Swapping \<and> s_committed st
     \<and> (being_deleted (ev_meta evac) \<or> EVACUATION_FINALIZER \<in> set (meta_finalizers (ev_meta evac)))"

lemma reconcile_rolling: "rolling evac st \<Longrightarrow> reconcile ctx evac = swapping ctx evac st"
  by (auto simp: rolling_def reconcile_def handle_phase_def ensure_evac_finalizer_def Let_def)

lemma create_exec:
  "fst (api (Create k ns x) w) = R_ok \<Longrightarrow>
     exec api (create_if_absent k ns x) w m = (Inr (), [(Create k ns x, R_ok)], snd (api (Create k ns x) w), m)"
  by (cases "api (Create k ns x) w") (simp add: create_if_absent_def)

lemma delete_exec:
  assumes k: "keeps_pv api pv n old" and q: "stays_quiet api pv ctx evac st r" and p: "pv w = Some p"
    "set (meta_finalizers (pv_meta p)) \<subseteq> own" "being_deleted (pv_meta p) \<longrightarrow> meta_finalizers (pv_meta p) \<noteq> []"
  shows "\<exists>tr w'. exec api (if \<not> being_deleted (pv_meta p)
          then bnd (pods_referencing_pvc (pr_namespace r) (pr_name r)) (\<lambda>pods.
               bnd (blocking_reason ctx evac st pods) (\<lambda>blocked. (case blocked of
                 Some msg \<Rightarrow> f msg
               | None \<Rightarrow> bnd (delete_obj K_PV [] n) (\<lambda>_. ret None))))
          else ret None) w m = (Inr None, tr, w', m)
      \<and> (pv w' = None \<or> (\<exists>p. pv w' = Some p \<and> being_deleted (pv_meta p)
          \<and> meta_finalizers (pv_meta p) \<noteq> [] \<and> set (meta_finalizers (pv_meta p)) \<subseteq> own))"
proof (cases "being_deleted (pv_meta p)")
  case True
  then show ?thesis using p by simp
next
  case False
  obtain tr w1 where c: "pv w1 = pv w"
      "exec api (bnd (pods_referencing_pvc (pr_namespace r) (pr_name r)) (blocking_reason ctx evac st)) w m = (Inr None, tr, w1, m)"
    using q unfolding stays_quiet_def by metis
  let ?w = "snd (api (Delete K_PV [] n) w1)"
  have d: "fst (api (Delete K_PV [] n) w1) = R_ok" using keeps_pvD(3) [OF k] c(1) p(1) by metis
  have "pv ?w = None \<or> (\<exists>p. pv ?w = Some p \<and> being_deleted (pv_meta p)
      \<and> meta_finalizers (pv_meta p) \<noteq> [] \<and> set (meta_finalizers (pv_meta p)) \<subseteq> own)"
    using keeps_pvD(4,5) [OF k, of w1 p] c(1) p(1,2) by fastforce
  then show ?thesis using False c(2) d
    unfolding bnd_assoc [symmetric] by (simp add: exec_bnd_ok exec_bnd exec_ask delete_obj_def as_unit_def)
qed

text \<open>What the reconcile does with the PV it reads, for each of the three states.\<close>

lemma swapping_exec:
  assumes k: "keeps_pv api pv n (si_pv_uid src)" and st: "s_source st = Some src" "s_pvc_ref st = Some r"
    and n: "n = es_pv_name (ev_spec evac)" and q: "stays_quiet api pv ctx evac st r"
    and s: "swap_state (si_pv_uid src) (pr_uid r) (pv w)"
    and man: "s_new_pv_manifest st = Some man" "pv_from_json (c_libs ctx) man = Inr x" "m_name (pv_meta x) = Some n"
  shows "\<exists>tr w'. exec api (swapping ctx evac st) w m = (Inr (Requeue (Secs 2)), tr, w', m) \<and> (case pv w of
       None \<Rightarrow> \<exists>p. pv w' = Some p \<and> pv_spec p = pv_spec x \<and> m_uid (pv_meta p) \<noteq> Some (si_pv_uid src)
     | Some p \<Rightarrow> m_uid (pv_meta p) = Some (si_pv_uid src) \<and> pv w' = None)
   \<or> (\<exists>p. pv w = Some p \<and> m_uid (pv_meta p) \<noteq> Some (si_pv_uid src) \<and> exec api (swapping ctx evac st) w m
        = (Inr (Requeue (Secs 3)), tr, w', m) \<and> pv_phase p \<noteq> ''Bound'' \<and> pv w' = pv w)
   \<or> (\<exists>p. pv w = Some p \<and> m_uid (pv_meta p) \<noteq> Some (si_pv_uid src) \<and> exec api (swapping ctx evac st) w m
        = (Inr (Requeue (Millis 500)), tr, w', m) \<and> pv_phase p = ''Bound''
        \<and> (Patch_status (name_any (ev_meta evac)) (st\<lparr>s_phase := CleaningUp, s_message := None\<rparr>), R_ok) \<in> set tr)"
proof -
  obtain w1 where g: "pv w1 = pv w" "exec api (get_pv n) w m
     = (Inr (pv w), [(Get K_PV [] n, case pv w of None \<Rightarrow> R_none | Some p \<Rightarrow> R_obj (O_pv p))], w1, m)"
    using get_exec [OF k] by blast
  show ?thesis
  proof (cases "pv w")
    case None
    have c: "fst (api (Create K_PV [] (O_pv x)) w1) = R_ok" "\<exists>p. pv (snd (api (Create K_PV [] (O_pv x)) w1)) = Some p
           \<and> pv_spec p = pv_spec x \<and> m_uid (pv_meta p) \<noteq> Some (si_pv_uid src)"
      using keeps_pvD(9,10) [OF k, of w1 x] g(1) None man(3) by simp_all
    show ?thesis
      using None c man(1,2) n g(2)
      by (simp add: swapping_def Let_def need_def st exec_bnd exec_try_with with_context_def create_exec requeue_secs_def)
  next
    case (Some p)
    show ?thesis
    proof (cases "m_uid (pv_meta p) = Some (si_pv_uid src)")
      case True
      then have p: "set (meta_finalizers (pv_meta p)) \<subseteq> {PV_PROTECTION, PROVISIONER_FINALIZER}"
          "being_deleted (pv_meta p) \<longrightarrow> meta_finalizers (pv_meta p) \<noteq> []" using s Some by (simp_all add: swap_state_def)
      obtain tr w2 where e: "exec api (if \<not> being_deleted (pv_meta p)
          then bnd (pods_referencing_pvc (pr_namespace r) (pr_name r)) (\<lambda>pods.
               bnd (blocking_reason ctx evac st pods) (\<lambda>blocked. (case blocked of
                 Some msg \<Rightarrow> bnd (wait (name_any (ev_meta evac)) st msg 10) (\<lambda>a. ret (Some a))
               | None \<Rightarrow> bnd (delete_obj K_PV [] n) (\<lambda>_. ret None))))
          else ret None) w1 m = (Inr None, tr, w2, m)"
        and w2: "pv w2 = None \<or> (\<exists>p. pv w2 = Some p \<and> being_deleted (pv_meta p)
          \<and> meta_finalizers (pv_meta p) \<noteq> [] \<and> set (meta_finalizers (pv_meta p)) \<subseteq> {PV_PROTECTION, PROVISIONER_FINALIZER})"
        using delete_exec [OF k q _ p] g(1) Some by metis
      obtain tr3 w3 where "pv w3 = None"
          "exec api (set_finalizers K_PV [] n (remove_from [PV_PROTECTION, PROVISIONER_FINALIZER])) w2 m = (Inr (), tr3, w3, m)"
        using strip_exec [OF k w2] by blast
      then show ?thesis
        using Some True g(2) e unfolding n
          by (simp add: swapping_def Let_def need_def st exec_bnd_ok requeue_secs_def split del: if_split)
    next
      case False
      then have u: "pv_claim_uid p = pr_uid r" using s Some by (simp add: swap_state_def)
      show ?thesis
      proof (cases "pv_phase p = ''Bound''")
        case b: True
        show ?thesis
          using Some False u b n g keeps_pvD(8) [OF k, of w1 p] keeps_pvD(11) [OF k]
          by (cases "s_original_reclaim_policy st")
            (simp_all add: swapping_def Let_def need_def st exec_bnd advance_def write_status_def with_context_def exec_ask
              patch_obj_def as_unit_def exec_try_with)
      next
        case b: False
        show ?thesis
          using Some False u b n g by (simp add: swapping_def Let_def need_def st exec_bnd requeue_secs_def)
      qed
    qed
  qed
qed

section \<open>The swap completes\<close>

lemma rounds_grow: "x \<in> set (rounds api env p k w m) \<Longrightarrow> k \<le> k' \<Longrightarrow> x \<in> set (rounds api env p k' w m)"
proof (induction k arbitrary: k' w m)
  case (Suc k)
  then obtain k1 where k1: "k' = Suc k1" "k \<le> k1" by (cases k') auto
  obtain r tr w' m' where "exec api p w m = (r, tr, w', m')" by (cases "exec api p w m")
  with Suc.IH [of "env w'" m' k1] Suc.prems k1 show ?case by auto
qed simp

lemma rounds_next:
  assumes "exec api p w m = (r, tr, w', m')" and "x \<in> set (rounds api env p k (env w') m')"
  shows "x \<in> set (rounds api env p (Suc k) w m)"
  using assms by simp

text \<open>From a bound replacement one reconcile is enough, from one that is not bound two, from no PV two, from
  the old PV three.\<close>

lemma swapping_rounds:
  assumes k: "keeps_pv api pv n (si_pv_uid src)" and b: "binds env pv (si_pv_uid src) (pr_uid r)"
    and st: "s_source st = Some src" "s_pvc_ref st = Some r"
    and n: "n = es_pv_name (ev_spec evac)" and q: "stays_quiet api pv ctx evac st r"
    and man: "s_new_pv_manifest st = Some man" "pv_from_json (c_libs ctx) man = Inr x" "m_name (pv_meta x) = Some n" "pv_claim_uid x = pr_uid r"
    and s: "swap_state (si_pv_uid src) (pr_uid r) (pv w)"
  shows "(Patch_status (name_any (ev_meta evac)) (st\<lparr>s_phase := CleaningUp, s_message := None\<rparr>), R_ok)
     \<in> set (rounds api env (swapping ctx evac st) 3 w m)" (is "?done \<in> set (rounds api env ?p 3 w m)")
proof -
  note step = swapping_exec [OF k st n q _ man(1-3)]
  let ?new = "\<lambda>w p. pv w = Some p \<and> m_uid (pv_meta p) \<noteq> Some (si_pv_uid src) \<and> pv_claim_uid p = pr_uid r"
  have bound: "?done \<in> set (rounds api env ?p (Suc 0) w m)" if "?new w p" "pv_phase p = ''Bound''" for w m p
    using step [of w m] that by (fastforce simp: swap_state_def split: prod.splits)
  have env: "\<exists>p. ?new (env w) p \<and> pv_phase p = ''Bound''" if "?new w p" for w p
    using b that unfolding binds_def by blast
  have new: "?done \<in> set (rounds api env ?p 2 w m)" if w: "?new w p" for w m p
  proof (cases "pv_phase p = ''Bound''")
    case True
    show ?thesis by (rule rounds_grow [OF bound [OF w True]]) simp
  next
    case False
    then obtain tr w' where e: "exec api ?p w m = (Inr (Requeue (Secs 3)), tr, w', m)" "pv w' = pv w"
      using step [of w m] w by (auto simp: swap_state_def)
    then obtain p' where "?new (env w') p'" "pv_phase p' = ''Bound''" using env [of w' p] w by auto
    then show ?thesis unfolding numeral_2_eq_2 by (intro rounds_next [OF e(1)] bound)
  qed
  have none: "?done \<in> set (rounds api env ?p 2 w m)" if w: "pv w = None" for w m
  proof -
    obtain tr w' p where e: "exec api ?p w m = (Inr (Requeue (Secs 2)), tr, w', m)" "?new w' p"
      using step [of w m] w man(4) by (auto simp: swap_state_def pv_claim_uid_def)
    then obtain p' where "?new (env w') p'" "pv_phase p' = ''Bound''" using env by blast
    then show ?thesis unfolding numeral_2_eq_2 by (intro rounds_next [OF e(1)] bound)
  qed
  show ?thesis
  proof (cases "pv w")
    case None
    show ?thesis by (rule rounds_grow [OF none [OF None]]) simp
  next
    case (Some p)
    show ?thesis
    proof (cases "m_uid (pv_meta p) = Some (si_pv_uid src)")
      case True
      then obtain tr w' where e: "exec api ?p w m = (Inr (Requeue (Secs 2)), tr, w', m)" "pv w' = None"
        using step [OF s, of m] Some by auto
      then have "pv (env w') = None" using b by (simp add: binds_def)
      then show ?thesis unfolding numeral_3_eq_3 by (intro rounds_next [OF e(1)] none [unfolded numeral_2_eq_2])
    next
      case False
      then have "?new w p" using s Some by (simp add: swap_state_def)
      then show ?thesis by (rule rounds_grow [OF new]) simp
    qed
  qed
qed

text \<open>The rendered replacement keeps the name and is made for the claim.\<close>

lemma rendered_for_claim:
  "render_new_pv old_pv r tg = Inr x \<Longrightarrow> m_name (pv_meta x) = m_name (pv_meta old_pv) \<and> pv_claim_uid x = pr_uid r"
  by (auto simp: render_new_pv_def Let_def pv_claim_uid_def claim_for_def default_meta_def split: option.splits)

section \<open>A server for the scenario\<close>

text \<open>One PV, one claim without pods, a source node that is gone.\<close>

definition pv_store :: "persistent_volume option api" where
  "pv_store q w = (case q of
     Get k ns nm \<Rightarrow> (if k = K_PV then (case w of None \<Rightarrow> R_none | Some p \<Rightarrow> R_obj (O_pv p)) else R_none, w)
   | List_all k ns sel \<Rightarrow> (R_objs [], w)
   | Create k ns x \<Rightarrow> (R_ok, case x of O_pv p \<Rightarrow> Some (p\<lparr>pv_meta := (pv_meta p)\<lparr>m_uid := Some ''uid-new''\<rparr>\<rparr>) | _ \<Rightarrow> w)
   | Delete k ns nm \<Rightarrow> (R_ok, Option.bind w (\<lambda>p. if meta_finalizers (pv_meta p) = [] then None else Some (stamped ''2026'' p)))
   | Patch_merge k ns nm (P_finalizers fs) \<Rightarrow> (R_ok, Option.bind w (\<lambda>p. if being_deleted (pv_meta p) \<and> fs = [] then None
       else Some (with_finalizers fs p)))
   | _ \<Rightarrow> (R_ok, w))"

definition bind_pv :: "persistent_volume option \<Rightarrow> persistent_volume option" where
  "bind_pv = map_option (\<lambda>p. p\<lparr>pv_status := Some \<lparr>pvt_phase = Some ''Bound'', pvt_others = []\<rparr>\<rparr>)"

lemma pv_store_keeps: "keeps_pv pv_store id n ''uid-pv''"
  by (auto simp: keeps_pv_def pv_store_def split: option.split)

lemma bind_pv_binds: "binds bind_pv id old uid"
  by (auto simp: binds_def bind_pv_def pv_claim_uid_def pv_phase_def)

lemma pv_store_quiet: "s_source st = Some src \<Longrightarrow> stays_quiet pv_store id ctx evac st r"
  by (simp add: stays_quiet_def pods_referencing_pvc_def list_pods_def exec_bnd exec_ask pv_store_def as_list_def
      blocking_reason_def source_repels_pods_def need_def get_node_def as_opt_def)

definition rendered0 :: persistent_volume where
  "rendered0 = (case render_new_pv (pv0 ''uid-pv'' ''pvc-1'') pref0 target0 of Inr p \<Rightarrow> p | Inl _ \<Rightarrow> pv0 [] [])"

definition ctx_swap :: ctx where
  "ctx_swap = ctx0\<lparr>c_libs := libs0\<lparr>pv_from_json := (\<lambda>_. Inr rendered0)\<rparr>\<rparr>"

lemma rendered0: "render_new_pv (pv0 ''uid-pv'' ''pvc-1'') pref0 target0 = Inr rendered0"
  by (simp add: rendered0_def render_new_pv_def pv0_def Let_def)

end
