(* ===== verification/First_Attempt.thy ===== *)
theory First_Attempt
  imports Scenario
begin

text \<open>
  What becomes of a first attempt whose record was not written: the relay is in the table, the
  status has no attempt.
\<close>

section \<open>Programs that leave the relay table alone\<close>

primrec memless :: "'a prog \<Rightarrow> bool" where
  "memless (Done r) \<longleftrightarrow> True"
| "memless (Call q k) \<longleftrightarrow> (\<forall>a. memless (k a))"
| "memless (Mem g k) \<longleftrightarrow> False"

named_theorems memless_intros \<open>introduction rules for programs that leave the relay table alone\<close>

lemma memless_bnd [memless_intros]: "memless p \<Longrightarrow> (\<And>x. memless (f x)) \<Longrightarrow> memless (bnd p f)"
  by (induction p) (auto split: sum.split)

lemma memless_basic [memless_intros]: "memless (Done r)" "memless (ask q d)" "memless (requeue_secs k)"
  by (simp_all add: ask_def requeue_secs_def)

lemma memless_cases [memless_intros]:
  "(b \<Longrightarrow> memless p) \<Longrightarrow> (\<not> b \<Longrightarrow> memless p') \<Longrightarrow> memless (if b then p else p')"
  "(o1 = None \<Longrightarrow> memless p) \<Longrightarrow> (\<And>x. o1 = Some x \<Longrightarrow> memless (f x)) \<Longrightarrow> memless (case o1 of None \<Rightarrow> p | Some x \<Rightarrow> f x)"
  by (auto split: option.split)

lemma memless_try_with: "memless p \<Longrightarrow> (\<And>r. memless (f r)) \<Longrightarrow> memless (try_with p f)"
  by (induction p) auto

lemma memless_write [memless_intros]: "memless (write_status n st)"
  by (auto simp: write_status_def with_context_def intro!: memless_try_with memless_basic split: sum.split)

lemma memless_exec: "memless p \<Longrightarrow> exec api p w m = (r, tr, w', m') \<Longrightarrow> m' = m"
proof (induction p arbitrary: w tr)
  case (Call q k)
  then show ?case by (auto split: prod.splits) (metis rangeI)
qed auto

lemma memless_cancel [memless_intros]: "memless (cancel_reason ctx evac st)"
  unfolding cancel_reason_def trigger_withdrawn_def pvc_gone_or_replaced_def call_defs node_by_id_def Let_def
  by (auto split: evacuation_trigger.split intro!: memless_intros)


section \<open>A relay without a record\<close>

definition only_gets :: "trace \<Rightarrow> bool" where
  "only_gets tr \<longleftrightarrow> (\<forall>x \<in> set tr. \<exists>k ns n. fst x = Get k ns n)"

lemma only_gets_append [simp]: "only_gets (t @ u) \<longleftrightarrow> only_gets t \<and> only_gets u" "only_gets []"
  by (auto simp: only_gets_def)

lemma cancel_reason_exec:
  assumes "exec api (cancel_reason ctx evac st) w m = (r, tr, w', m')"
  shows "m' = m \<and> only_gets tr"
proof -
  have "calls (\<lambda>q. \<exists>k ns n. q = Get k ns n) (cancel_reason ctx evac st) (\<lambda>_. True)" by (intro call_intros) auto
  from calls_sound [OF this, of tr] have "only_gets tr"
    using runs_exec [of "cancel_reason ctx evac st" api w m] assms by (fastforce simp: only_gets_def)
  then show ?thesis using memless_exec [OF memless_cancel assms] by simp
qed

lemma start_attempt_live:
  assumes "s_source st = Some src" and "s_target st = Some tg" and "m (ev_name evac) = Some a" and "n \<le> at_attempt a"
  shows "exec api (start_attempt ctx evac st n) w m = (Inr (Requeue (Secs 5)), [], w, m)"
  using assms by (simp add: start_attempt_def Let_def need_def requeue_secs_def is_some_and_iff)

lemma write_exec:
  "exec api (bnd (write_status n st) (\<lambda>_. requeue_secs k)) w m = (r, tr, w', m') \<Longrightarrow> \<exists>a. tr = [(Patch_status n st, a)] \<and> m' = m"
  by (auto simp: write_status_def with_context_def ask_def requeue_secs_def split: prod.splits sum.splits)

lemma unrecorded_stuck:
  assumes "ev_status evac = Some st" and "s_phase st = Transferring" and "s_transfer st = None" and "\<not> s_committed st"
    and "s_source st = Some src" and "s_target st = Some tg"
    and "\<not> being_deleted (ev_meta evac)" and "EVACUATION_FINALIZER \<in> set (meta_finalizers (ev_meta evac))"
    and "m (ev_name evac) = Some a" and "1 \<le> at_attempt a"
    and "exec api (reconcile ctx evac) w m = (r, tr, w', m')"
  shows "m' = m \<and> (only_gets tr \<and> (r = Inr (Requeue (Secs 5)) \<or> (\<exists>e. r = Inl e))
     \<or> (\<exists>s b. (Patch_status (ev_name evac) s, b) \<in> set tr \<and> s_phase s = Aborting))"
proof -
  let ?k = "\<lambda>cancel. (case cancel of
      Some reason \<Rightarrow> bnd (write_status (ev_name evac) (st\<lparr>s_phase := Aborting, s_cancelled := True, s_message := Some reason\<rparr>)) (\<lambda>_. requeue_secs 1)
    | None \<Rightarrow> start_attempt ctx evac st 1)"
  have rec: "reconcile ctx evac = bnd (cancel_reason ctx evac st) ?k"
    using assms(1-4,7,8)
    by (simp add: reconcile_def ensure_evac_finalizer_def Let_def handle_phase_def transferring_def cong: option.case_cong)
  obtain rc trc wc mc where c: "exec api (cancel_reason ctx evac st) w m = (rc, trc, wc, mc)" by (metis prod_cases4)
  note c' = cancel_reason_exec [OF c]
  show ?thesis
  proof (cases rc)
    case (Inl e)
    then show ?thesis using assms(11) c c' by (auto simp: rec exec_bnd)
  next
    case (Inr o1)
    show ?thesis
    proof (cases o1)
      case None
      then show ?thesis using assms(11) c c' Inr
        by (auto simp: rec exec_bnd [of _ "cancel_reason ctx evac st"] start_attempt_live [where m = m, OF assms(5,6,9,10)])
    next
      case (Some reason)
      obtain r2 tr2 w2 m2 where e: "exec api (?k (Some reason)) wc m = (r2, tr2, w2, m2)" by (metis prod_cases4)
      then have "\<exists>b. tr2 = [(Patch_status (ev_name evac) (st\<lparr>s_phase := Aborting, s_cancelled := True, s_message := Some reason\<rparr>), b)] \<and> m2 = m"
        unfolding option.case by (rule write_exec)
      moreover have "tr = trc @ tr2" "m' = m2"
        using assms(11) c c' Inr Some e by (simp_all add: rec exec_bnd [of _ "cancel_reason ctx evac st"])
      ultimately show ?thesis by fastforce
    qed
  qed
qed

text \<open>In the cluster of \<open>Scenario\<close>: the relay is up, then the write of the record is refused.\<close>

definition fresh0 :: evac_status where
  "fresh0 = (late Transferring False)\<lparr>s_transfer := None\<rparr>"

definition refused_calls :: trace where
  "refused_calls = start_calls @ [(Patch_status ''pv-1'' started0, R_err (Api_error 500 ''etcdserver: request timed out''))]"

definition table0 :: transfers where
  "table0 = [''pv-1'' \<mapsto> \<lparr>at_attempt = 1, at_task = 0, at_backup_port = 4001, at_restore_port = 4002\<rparr>]"

lemma refused_run:
  "exec replay (reconcile ctx0 (evac0 fresh0)) (map snd refused_calls) Map.empty
   = (Inl (E_ctx ''writing status of ZFSEvacuation pv-1'' (E_kube (Api_error 500 ''etcdserver: request timed out''))), refused_calls, [], table0)"
  using peers0
  by (simp add: run_defs refused_calls_def start_calls_def not_cancelled_def started0_def fresh0_def table0_def transferring_def start_attempt_def
      peers_of_def spawn_relay_def as_relay_def register_relay_def relay_ports_def rand_u16_def attempt_backup_def
      scene_defs scene_more cong: run_cong)

end
