(* ===== verification/End_Safety.thy ===== *)
theory End_Safety
  imports Abort_Safety
begin

text \<open>
  Nothing is left behind: what was seen, in the same reconcile, before an evacuation is recorded as
  Completed, before the abort path records Failed, and before the controller gives its own finalizer
  back; and which other records of Failed there are, that leave everything as it is.
\<close>

section \<open>Postconditions of the undoing steps\<close>

definition finalizers_done :: "kind \<Rightarrow> string \<Rightarrow> string \<Rightarrow> string \<Rightarrow> trace \<Rightarrow> bool" where
  "finalizers_done k ns n own h \<longleftrightarrow> (Get k ns n, R_none) \<in> set h
     \<or> (\<exists>x. (Get k ns n, R_obj x) \<in> set h \<and> own \<notin> set (meta_finalizers (obj_meta x)))
     \<or> (\<exists>fs a. (Patch_merge k ns n (P_finalizers fs), a) \<in> set h \<and> own \<notin> set fs \<and> (\<forall>e. a \<noteq> R_err e))"

lemma get_meta_post:
  "vc (\<lambda>_ _. True) (get_meta k ns n) (\<lambda>r h'. \<forall>o1. r = Inr o1 \<longrightarrow> (case o1 of
     None \<Rightarrow> (Get k ns n, R_none) \<in> set h' | Some m \<Rightarrow> \<exists>x. (Get k ns n, R_obj x) \<in> set h' \<and> obj_meta x = m)) h"
  by (auto simp: get_meta_def vc_ask as_opt_Inr split: option.splits if_splits)

lemma set_finalizers_post:
  "vc (\<lambda>_ _. True) (set_finalizers k ns n (remove_from [own])) (\<lambda>r h'. r = Inr () \<longrightarrow> finalizers_done k ns n own h') h"
  unfolding set_finalizers_def
proof (rule vc_bnd_using [OF get_meta_post])
  fix o1 h'
  assume m: "\<forall>o2. (Inr o1 :: error + objmeta option) = Inr o2 \<longrightarrow> (case o2 of
     None \<Rightarrow> (Get k ns n, R_none) \<in> set h' | Some m \<Rightarrow> \<exists>x. (Get k ns n, R_obj x) \<in> set h' \<and> obj_meta x = m)"
  show "vc (\<lambda>_ _. True) (case o1 of None \<Rightarrow> ret ()
      | Some m \<Rightarrow> let cur = meta_finalizers m; new = remove_from [own] cur in if new \<noteq> cur then patch_obj k ns n (P_finalizers new) else ret ())
     (\<lambda>r h'. r = Inr () \<longrightarrow> finalizers_done k ns n own h') h'"
  proof (cases o1)
    case None
    then show ?thesis using m by (simp add: finalizers_done_def)
  next
    case (Some m0)
    then obtain x where x: "(Get k ns n, R_obj x) \<in> set h'" "obj_meta x = m0" using m by auto
    have gone: "own \<notin> set (remove_from [own] (meta_finalizers m0))" by (simp add: remove_from_def)
    show ?thesis
    proof (cases "remove_from [own] (meta_finalizers m0) = meta_finalizers m0")
      case True
      then have "own \<notin> set (meta_finalizers (obj_meta x))" using gone x(2) by simp
      then show ?thesis using x(1) True Some by (auto simp: finalizers_done_def)
    next
      case False
      then show ?thesis using gone Some
        by (auto simp: patch_obj_def vc_ask as_unit_Inr finalizers_done_def)
    qed
  qed
qed simp

text \<open>The reclaim policy is the user's again, or the PV is not the recorded one any more.\<close>

definition policy_back :: "zfs_evacuation \<Rightarrow> evac_status \<Rightarrow> trace \<Rightarrow> bool" where
  "policy_back evac st h \<longleftrightarrow> (\<forall>src p. s_source st = Some src \<longrightarrow> s_original_reclaim_policy st = Some p \<longrightarrow>
     (Get K_PV [] (es_pv_name (ev_spec evac)), R_none) \<in> set h
   \<or> (\<exists>pv. (Get K_PV [] (es_pv_name (ev_spec evac)), R_obj (O_pv pv)) \<in> set h \<and> m_uid (pv_meta pv) \<noteq> Some (si_pv_uid src))
   \<or> (\<exists>a. (Patch_merge K_PV [] (es_pv_name (ev_spec evac)) (P_reclaim_policy p), a) \<in> set h \<and> (\<forall>e. a \<noteq> R_err e)))"

lemma restore_policy_post:
  "vc (\<lambda>_ _. True) (restore_policy (es_pv_name (ev_spec evac)) st) (\<lambda>r h'. r = Inr () \<longrightarrow> policy_back evac st h') h"
  unfolding restore_policy_def
  by (auto simp: policy_back_def vc_bnd vc_ask get_pv_def patch_obj_def on_ok_def as_opt_Inr as_unit_Inr
      split: option.split sum.split option.splits)

text \<open>Nothing of the attempt is left on the target.\<close>

definition target_clear :: "ctx \<Rightarrow> string \<Rightarrow> evac_status \<Rightarrow> trace \<Rightarrow> bool" where
  "target_clear ctx name st h \<longleftrightarrow> (\<forall>tg t. s_target st = Some tg \<longrightarrow> s_transfer st = Some t \<longrightarrow>
     attempt_gone ctx name (ts_attempt t) h \<and> (Get K_ZFSVolume (openebs_ns ctx) (ti_new_volume_handle tg), R_none) \<in> set h)"

lemma abort_transfer_crs_post:
  assumes "(Get K_ZFSVolume ns x, R_none) \<in> set h"
  shows "vc (\<lambda>_ _. True) (abort_transfer_crs ctx name st a)
     (\<lambda>r h'. r = Inr None \<longrightarrow> attempt_gone ctx name a h' \<and> (Get K_ZFSVolume ns x, R_none) \<in> set h') h"
proof -
  have "vc (\<lambda>_ _. True) (cleanup_transfer_crs ctx name a st) (\<lambda>r h'. (\<exists>t. h' = h @ t) \<and> (r = Inr True \<longrightarrow> attempt_gone ctx name a h')) h"
    by (rule vc_extends_post [OF cleanup_transfer_crs_post])
  then show ?thesis
    unfolding abort_transfer_crs_def
    by (rule vc_bnd_using) (use assms in \<open>auto intro!: vc_bnd_any\<close>)
qed

lemma abort_target_post:
  "vc (\<lambda>_ _. True) (abort_target ctx name st) (\<lambda>r h'. r = Inr None \<longrightarrow> target_clear ctx name st h') h"
proof (cases "s_target st"; cases "s_transfer st")
  fix tg t assume st: "s_target st = Some tg" "s_transfer st = Some t"
  have crs: "vc (\<lambda>_ _. True) (abort_transfer_crs ctx name st (ts_attempt t)) (\<lambda>r h'. r = Inr None \<longrightarrow> target_clear ctx name st h') h'"
    if "(Get K_ZFSVolume (openebs_ns ctx) (ti_new_volume_handle tg), R_none) \<in> set h'" for h'
    by (rule vc_conseq [OF abort_transfer_crs_post [OF that]]) (simp add: target_clear_def st)
  have crs': "vc (\<lambda>_ _. True) (bnd (get_zv ctx n) (\<lambda>src_o. (case src_o of Some x \<Rightarrow> f x | None \<Rightarrow> abort_transfer_crs ctx name st (ts_attempt t))))
      (\<lambda>r h'. r = Inr None \<longrightarrow> target_clear ctx name st h') h'"
    if "(Get K_ZFSVolume (openebs_ns ctx) (ti_new_volume_handle tg), R_none) \<in> set h'"
      "\<And>x h'. vc (\<lambda>_ _. True) (f x) (\<lambda>r h'. r = Inr None \<longrightarrow> target_clear ctx name st h') h'" for n f h'
    by (rule vc_bnd_using [OF vc_get_post(4)]) (use that in \<open>auto intro!: crs split: option.split\<close>)
  have never: "vc (\<lambda>_ _. True) (bnd p (\<lambda>a. ret (Some a))) (\<lambda>r h'. r = Inr None \<longrightarrow> target_clear ctx name st h') h'" for p :: "action prog" and h'
    by (rule vc_bnd_any) simp_all
  show ?thesis
    unfolding abort_target_def st prod.case option.case
  proof (rule vc_bnd_any, rule vc_bnd_using [OF vc_get_post(4)])
    fix rst zv_o h1 h2
    assume h2: "\<forall>x. (Inr zv_o :: error + zfs_volume option) = Inr x \<longrightarrow> h2 = h1 @ [(Get K_ZFSVolume (openebs_ns ctx) (ti_new_volume_handle tg), opt_obj O_zv x)]"
    show "vc (\<lambda>_ _. True) (case zv_o of
             Some zv \<Rightarrow>
               bnd (if \<not> being_deleted (zv_meta zv)
                    then delete_obj K_ZFSVolume (openebs_ns ctx) (ti_new_volume_handle tg) else ret ()) (\<lambda>_.
               bnd (strip_zfs_finalizer_if_node_gone K_ZFSVolume (openebs_ns ctx) (ti_new_volume_handle tg) (ti_node_id tg)) (\<lambda>_.
               bnd (requeue_msg name st ''abort: destroying target dataset'') (\<lambda>a. ret (Some a))))
           | None \<Rightarrow>
               if is_some_and (Option.bind rst rs_status) (\<lambda>s. s = BKP_STATUS_DONE)
               then bnd (need ''no source recorded'' (s_source st)) (\<lambda>src.
                    bnd (get_zv ctx (si_volume_handle src)) (\<lambda>src_o. (case src_o of
                      Some src_zv \<Rightarrow>
                        bnd (create_if_absent K_ZFSVolume (openebs_ns ctx) (O_zv (target_zfsvolume (zv_spec src_zv) tg))) (\<lambda>_.
                        bnd (requeue_msg name st ''abort: adopting orphan dataset for destruction'') (\<lambda>a. ret (Some a)))
                    | None \<Rightarrow> abort_transfer_crs ctx name st (ts_attempt t))))
               else abort_transfer_crs ctx name st (ts_attempt t))
        (\<lambda>r h'. r = Inr None \<longrightarrow> target_clear ctx name st h') h2"
    proof (cases zv_o)
      case (Some zv)
      then show ?thesis by (simp only: option.case) (intro vc_bnd_any never; simp)
    next
      case None
      then have "(Get K_ZFSVolume (openebs_ns ctx) (ti_new_volume_handle tg), R_none) \<in> set h2" using h2 by simp
      then show ?thesis
        unfolding None option.case bnd_need
        by (cases "s_source st") (auto intro!: crs crs' never intro: vc_bnd_any)
    qed
  qed simp_all
qed (simp_all add: abort_target_def target_clear_def)

lemma release_source_post:
  "vc (\<lambda>_ _. True) (release_source ctx pv st) (\<lambda>r h'. r = Inr () \<longrightarrow> (\<forall>src. s_source st = Some src \<longrightarrow>
     finalizers_done K_ZFSVolume (openebs_ns ctx) (si_volume_handle src) GUARD_FINALIZER h')) h"
proof (cases "s_source st")
  case (Some src)
  have mono: "finalizers_done k ns n own h' \<Longrightarrow> finalizers_done k ns n own (h' @ t)" for k ns n own h' t
    unfolding finalizers_done_def set_append by blast
  have tail: "vc (\<lambda>_ _. True) (bnd (set_finalizers K_ZFSVolume ns n (remove_from [GUARD_FINALIZER])) (\<lambda>_. (p :: unit prog)))
     (\<lambda>r h'. r = Inr () \<longrightarrow> finalizers_done K_ZFSVolume ns n GUARD_FINALIZER h') h'" for ns n p h'
    by (rule vc_bnd_using [OF set_finalizers_post]) (auto intro: vc_conseq [OF vc_extends] mono)
  show ?thesis
    unfolding release_source_def Some option.case Let_def
    by (rule vc_bnd_any, rule vc_bnd_any, rule vc_bnd_any) (use tail in auto)
qed (simp add: release_source_def)


section \<open>What must have been seen at an end\<close>

definition undone :: "ctx \<Rightarrow> zfs_evacuation \<Rightarrow> evac_status \<Rightarrow> trace \<Rightarrow> bool" where
  "undone ctx evac st h \<longleftrightarrow> target_clear ctx (ev_name evac) st h \<and> policy_back evac st h \<and> pvc_unlocked st h
     \<and> (\<forall>src. s_source st = Some src \<longrightarrow> finalizers_done K_ZFSVolume (openebs_ns ctx) (si_volume_handle src) GUARD_FINALIZER h)"

definition all_done :: "ctx \<Rightarrow> zfs_evacuation \<Rightarrow> evac_status \<Rightarrow> trace \<Rightarrow> bool" where
  "all_done ctx evac st h \<longleftrightarrow> (\<forall>t. s_transfer st = Some t \<longrightarrow> attempt_gone ctx (ev_name evac) (ts_attempt t) h)
     \<and> snapshot_settled ctx st h \<and> pvc_unlocked st h
     \<and> (\<exists>src. s_source st = Some src \<and> (Get K_ZFSVolume (openebs_ns ctx) (si_volume_handle src), R_none) \<in> set h)"

definition end_ok :: "ctx \<Rightarrow> zfs_evacuation \<Rightarrow> evac_status \<Rightarrow> trace \<Rightarrow> req \<Rightarrow> bool" where
  "end_ok ctx evac st h q \<longleftrightarrow>
     (\<forall>n st'. q = Patch_status n st' \<longrightarrow> (s_phase st' = Completed \<longrightarrow> all_done ctx evac st h)
        \<and> (s_phase st = Aborting \<and> s_phase st' = Failed \<longrightarrow> undone ctx evac st h))
   \<and> (\<forall>ns n fs. q = Patch_merge K_Evacuation ns n (P_finalizers fs) \<and> EVACUATION_FINALIZER \<notin> set fs \<longrightarrow>
        s_phase st \<in> {Completed, Failed} \<or> all_done ctx evac st h \<or> undone ctx evac st h)"

definition no_end :: "req \<Rightarrow> bool" where
  "no_end q \<longleftrightarrow> (\<forall>n st'. q = Patch_status n st' \<longrightarrow> s_phase st' \<notin> {Completed, Failed})
     \<and> (\<forall>ns n fs. q = Patch_merge K_Evacuation ns n (P_finalizers fs) \<longrightarrow> EVACUATION_FINALIZER \<in> set fs)"

lemma no_end_simps [simp]:
  "no_end (Get k ns n)" "no_end (List_all k ns sel)" "no_end (Create k ns x)" "no_end (Replace k ns n x)" "no_end (Delete k ns n)"
  "k \<noteq> K_Evacuation \<Longrightarrow> no_end (Patch_merge k ns n p)" "no_end (Patch_merge k ns n (P_reclaim_policy r))"
  "no_end (Patch_merge k ns n (P_label l v))" "no_end (Patch_merge k ns n (P_annotation l v))"
  "no_end (Patch_merge k ns n (P_finalizers fs)) \<longleftrightarrow> k \<noteq> K_Evacuation \<or> EVACUATION_FINALIZER \<in> set fs"
  "no_end (Patch_status n st) \<longleftrightarrow> s_phase st \<notin> {Completed, Failed}"
  "no_end Now" "no_end Rand_u128" "no_end Rand_u16" "no_end (Spawn_relay bs rs)"
  "no_end (Relay_load t)" "no_end (Abort_task t)" "no_end Selection_lock" "no_end Selection_unlock"
  by (auto simp: no_end_def)

lemma no_end_members [simp]: "attempt_cleanup ctx n a q \<Longrightarrow> no_end q" "params_req q \<Longrightarrow> no_end q"
  "on_target ctx tg q \<Longrightarrow> no_end q" "on_snapshot ctx t q \<Longrightarrow> no_end q"
  by (auto simp: attempt_cleanup_def strips_zfs_def params_req_def on_target_def on_snapshot_def split: req.splits)

lemma end_ok_other: "no_end q \<Longrightarrow> end_ok ctx evac st h q"
  by (auto simp: no_end_def end_ok_def)

lemma safe_no_end: "calls no_end p (\<lambda>_. True) \<Longrightarrow> safe (end_ok ctx evac st) p h"
  by (erule safe_calls) (rule end_ok_other)

lemma seen_mono:
  "target_clear ctx n st h \<Longrightarrow> target_clear ctx n st (h @ t)" "policy_back evac st h \<Longrightarrow> policy_back evac st (h @ t)"
  "finalizers_done k ns n own h \<Longrightarrow> finalizers_done k ns n own (h @ t)"
  unfolding target_clear_def policy_back_def finalizers_done_def attempt_gone_def set_append by blast+

lemma end_mono: "undone ctx evac st h \<Longrightarrow> undone ctx evac st (h @ t)" "all_done ctx evac st h \<Longrightarrow> all_done ctx evac st (h @ t)"
  unfolding undone_def all_done_def using seen_mono pvc_unlocked_mono attempt_gone_mono snapshot_settled_mono
  by (blast, fastforce)

lemma seen_edit [simp]:
  "target_clear ctx n (st\<lparr>s_message := m, s_phase := p\<rparr>) h \<longleftrightarrow> target_clear ctx n st h"
  "policy_back evac (st\<lparr>s_message := m, s_phase := p\<rparr>) h \<longleftrightarrow> policy_back evac st h"
  "pvc_unlocked (st\<lparr>s_message := m, s_phase := p\<rparr>) h \<longleftrightarrow> pvc_unlocked st h"
  by (simp_all add: target_clear_def policy_back_def pvc_unlocked_def)

lemma undone_collect:
  assumes "target_clear ctx (ev_name evac) st h" and "policy_back evac st (h @ a)" and "pvc_unlocked st (h @ a @ b)"
    and "\<forall>src. s_source st = Some src \<longrightarrow> finalizers_done K_ZFSVolume (openebs_ns ctx) (si_volume_handle src) GUARD_FINALIZER (h @ a @ b @ c)"
  shows "undone ctx evac st (h @ a @ b @ c)"
  using seen_mono(1) [OF assms(1), of "a @ b @ c"] seen_mono(2) [OF assms(2), of "b @ c"] pvc_unlocked_mono [OF assms(3), of c] assms(4)
  by (simp add: undone_def)

section \<open>The abort path\<close>

lemma safe_own_finalizer:
  assumes "all_done ctx evac st h \<or> undone ctx evac st h \<or> s_phase st \<in> {Completed, Failed}"
    and "\<And>x h'. safe (end_ok ctx evac st) (f x) h'"
  shows "safe (end_ok ctx evac st) (bnd (remove_evac_finalizer n) f) h"
proof (rule safe_bnd [OF safe_calls [where P = "\<lambda>q. no_end q \<or> (\<exists>fs. q = Patch_merge K_Evacuation [] n (P_finalizers fs))"] assms(2)])
  show "calls (\<lambda>q. no_end q \<or> (\<exists>fs. q = Patch_merge K_Evacuation [] n (P_finalizers fs))) (remove_evac_finalizer n) (\<lambda>_. True)"
    by (intro call_intros) simp_all
  fix q t assume "no_end q \<or> (\<exists>fs. q = Patch_merge K_Evacuation [] n (P_finalizers fs))"
  then show "end_ok ctx evac st (h @ t) q"
    using assms(1) end_mono end_ok_other by (auto simp: end_ok_def)
qed

lemma safe_abort_end:
  "safe (end_ok ctx evac st) (abort_run ctx evac (st\<lparr>s_message := m\<rparr>)) h"
proof -
  let ?G = "end_ok ctx evac st" and ?n = "ev_name evac" and ?st = "st\<lparr>s_message := m, s_phase := Aborting\<rparr>"
  have target: "calls no_end (abort_target ctx ?n ?st) (\<lambda>_. True)"
    by (intro call_intros) simp_all
  have frames: "calls no_end (restore_policy pv ?st) (\<lambda>_. True)" "calls no_end (unlock_pvc (s_pvc_ref ?st)) (\<lambda>_. True)"
    "calls no_end (release_source ctx pv ?st) (\<lambda>_. True)" for pv
    by (intro call_intros; simp)+
  have steps: "safe ?G (if b then write_status n ?st else ret ()) h'" "safe ?G (drop_relay n) h'" for b n h'
    by (rule safe_no_end, intro call_intros; simp)+
  have last: "safe ?G (if being_deleted (ev_meta evac) then bnd (remove_evac_finalizer ?n) (\<lambda>_. ret Await_change)
      else bnd (write_status ?n (?st\<lparr>s_phase := Failed, s_message := m'\<rparr>)) (\<lambda>_. ret Await_change)) h'"
    if "undone ctx evac st h'" for h' m'
  proof (rule safe_ifI)
    show "safe ?G (bnd (remove_evac_finalizer ?n) (\<lambda>_. ret Await_change)) h'"
      by (rule safe_own_finalizer) (use that in \<open>auto intro: safe_Done\<close>)
    have "safe ?G (write_status ?n (?st\<lparr>s_phase := Failed, s_message := m'\<rparr>)) h'"
      using that by (auto simp: write_status_def with_context_def ask_def safe_def end_ok_def split: sum.split)
    then show "safe ?G (bnd (write_status ?n (?st\<lparr>s_phase := Failed, s_message := m'\<rparr>)) (\<lambda>_. ret Await_change)) h'"
      by (rule safe_bnd) (rule safe_Done)
  qed
  show ?thesis
    unfolding abort_run_def Let_def evac_status.simps
  proof (rule safe_bnd [OF steps(1)], rule safe_bnd [OF steps(2)],
      rule safe_bnd_post [OF target end_ok_other abort_target_post], assumption, rule safe_optionI,
      rule safe_bnd_post [OF frames(1) end_ok_other restore_policy_post], assumption,
      rule safe_bnd_post [OF frames(2) end_ok_other unlock_pvc_post], assumption,
      rule safe_bnd_post [OF frames(3) end_ok_other release_source_post], assumption, rule last)
  qed (auto intro: safe_Done undone_collect [where h = "h1 @ t1 @ t2 @ t3" for h1 t1 t2 t3, simplified append_assoc])
qed


section \<open>CleaningUp\<close>

lemma safe_finish_end:
  assumes "\<forall>t. s_transfer st = Some t \<longrightarrow> attempt_gone ctx (ev_name evac) (ts_attempt t) h" and "snapshot_settled ctx st h"
    and "s_source st = Some src" and "(Get K_ZFSVolume (openebs_ns ctx) (si_volume_handle src), R_none) \<in> set h"
  shows "safe (end_ok ctx evac st) (finish evac st) h"
proof -
  let ?G = "end_ok ctx evac st" and ?n = "ev_name evac"
  have unlock: "calls no_end (unlock_pvc (s_pvc_ref st)) (\<lambda>_. True)"
    and untrig: "calls no_end (untrigger pv) (\<lambda>_. True)" for pv
    unfolding untrigger_def by (intro call_intros; simp)+
  have adv: "safe ?G (advance ?n st' Completed) h'" if "all_done ctx evac st h'" for st' h'
    by (rule safe_advance) (use that in \<open>simp add: end_ok_def\<close>)
  have rest: "safe ?G (bnd (untrigger pv) (\<lambda>_. bnd (advance ?n st' Completed) (\<lambda>a. bnd (remove_evac_finalizer ?n) (\<lambda>_. ret a)))) h'"
    if d: "all_done ctx evac st h'" for pv st' h'
  proof (rule safe_bnd [OF safe_no_end [OF untrig]], rule safe_bnd [OF adv])
    show "all_done ctx evac st (h' @ t)" for t using d by (rule end_mono)
    show "safe ?G (bnd (remove_evac_finalizer ?n) (\<lambda>_. ret a)) ((h' @ t) @ u)" for t u and a :: action
      by (rule safe_own_finalizer) (use end_mono(2) [OF end_mono(2) [OF d]] in \<open>auto intro: safe_Done\<close>)
  qed
  show ?thesis
    unfolding finish_def Let_def
  proof (rule safe_bnd_post [OF unlock end_ok_other unlock_pvc_post], assumption, rule rest)
    fix x t assume "(Inr x :: error + unit) = Inr () \<longrightarrow> pvc_unlocked st (h @ t)"
    then show "all_done ctx evac st (h @ t)"
      using assms attempt_gone_mono snapshot_settled_mono by (fastforce simp: all_done_def)
  qed
qed

lemma safe_cleaning_end:
  assumes "s_phase st = CleaningUp"
  shows "safe (end_ok ctx evac st) (cleaning_up ctx evac st) h"
proof -
  let ?G = "end_ok ctx evac st" and ?n = "ev_name evac"
  let ?gone = "\<lambda>h. \<forall>t. s_transfer st = Some t \<longrightarrow> attempt_gone ctx ?n (ts_attempt t) h"
  have crs: "calls no_end (case s_transfer st of None \<Rightarrow> ret True | Some t \<Rightarrow> cleanup_transfer_crs ctx ?n (ts_attempt t) st) (\<lambda>_. True)"
    by (intro call_intros) simp_all
  have crs_post: "vc (\<lambda>_ _. True) (case s_transfer st of None \<Rightarrow> ret True
      | Some t \<Rightarrow> cleanup_transfer_crs ctx ?n (ts_attempt t) st) (\<lambda>r h'. r = Inr True \<longrightarrow> ?gone h') h'" for h'
    by (cases "s_transfer st") (simp_all add: cleanup_transfer_crs_post)
  have snap: "calls no_end (destroy_target_snapshot ctx ?n st) (\<lambda>r. \<forall>m st'. r = Inr (m, st') \<longrightarrow> st' = st \<or> st' = note_delete_issued st)"
    by (rule calls_destroy_target_snapshot) (simp_all add: assms)
  have snap_post: "vc (\<lambda>_ _. True) (destroy_target_snapshot ctx ?n st) (\<lambda>r h'. (\<forall>st'. r = Inr (None, st') \<longrightarrow> st' = st \<and> snapshot_settled ctx st h')
      \<and> (\<forall>m st'. r = Inr (m, st') \<longrightarrow> st' = st \<or> st' = note_delete_issued st)) h'" for h'
  proof -
    have "vc (\<lambda>h q. True \<and> True) (destroy_target_snapshot ctx ?n st) (\<lambda>r h'. (\<forall>st'. r = Inr (None, st') \<longrightarrow> st' = st \<and> snapshot_settled ctx st h')
      \<and> (\<forall>m st'. r = Inr (m, st') \<longrightarrow> st' = st \<or> st' = note_delete_issued st)) h'"
      by (rule vc_conj [OF destroy_target_snapshot_post vc_mono [OF calls_vc [OF snap]]]) simp_all
    then show ?thesis by simp
  qed
  have wait: "safe ?G (wait ?n st' m k) h'" if "s_phase st' = CleaningUp" for st' m k h'
    by (rule safe_no_end, intro call_intros) (use that in simp_all)
  have ds: "safe ?G (destroy_source ctx ?n src d) h'" for src d h'
    unfolding destroy_source_def by (rule safe_no_end, intro call_intros) simp_all
  show ?thesis
    unfolding cleaning_up_def Let_def
  proof (rule safe_bnd_need, rule safe_bnd_post [OF crs end_ok_other crs_post], assumption, rule safe_ifI, rule wait, rule assms,
      rule safe_bnd_post [OF calls_mono [OF snap] end_ok_other snap_post], assumption, simp, assumption)
    fix src gone t x t2
    assume src: "s_source st = Some src" and g: "(Inr gone :: error + bool) = Inr True \<longrightarrow> ?gone (h @ t)" "\<not> \<not> gone"
      and s: "(\<forall>st'. (Inr x :: error + string option \<times> evac_status) = Inr (None, st') \<longrightarrow> st' = st \<and> snapshot_settled ctx st ((h @ t) @ t2))
        \<and> (\<forall>m st'. (Inr x :: error + string option \<times> evac_status) = Inr (m, st') \<longrightarrow> st' = st \<or> st' = note_delete_issued st)"
    have gone: "?gone (((h @ t) @ t2) @ u)" for u
      using g attempt_gone_mono [of ctx ?n _ "h @ t" "t2 @ u"] by simp
    show "safe ?G (case x of (msg_o, st') \<Rightarrow> (case msg_o of
          Some msg \<Rightarrow> wait ?n st' msg 5
        | None \<Rightarrow> bnd (get_zv ctx (si_volume_handle src)) (\<lambda>zv_o. (case zv_o of
              Some zv \<Rightarrow> bnd (destroy_source ctx ?n src (being_deleted (zv_meta zv))) (\<lambda>_.
                  wait ?n st' ''waiting for source dataset destruction'' 10)
            | None \<Rightarrow> finish evac st')))) ((h @ t) @ t2)"
    proof (rule safe_prodI, rule safe_optionI)
      fix msg_o st' assume x: "x = (msg_o, st')" "msg_o = None"
      with s have st': "st' = st" and settled: "snapshot_settled ctx st ((h @ t) @ t2)" by simp_all
      show "safe ?G (bnd (get_zv ctx (si_volume_handle src)) (\<lambda>zv_o. (case zv_o of
              Some zv \<Rightarrow> bnd (destroy_source ctx ?n src (being_deleted (zv_meta zv))) (\<lambda>_.
                  wait ?n st' ''waiting for source dataset destruction'' 10)
            | None \<Rightarrow> finish evac st'))) ((h @ t) @ t2)"
        unfolding st'
      proof (rule safe_bnd_get(4), simp add: end_ok_other, rule safe_optionI)
        fix zv_o :: "zfs_volume option" assume "zv_o = None"
        then show "safe ?G (finish evac st) (((h @ t) @ t2) @ [(Get K_ZFSVolume (openebs_ns ctx) (si_volume_handle src), opt_obj O_zv zv_o)])"
          using safe_finish_end [OF gone snapshot_settled_mono [OF settled] src] by simp
      qed (rule safe_bnd [OF ds], rule wait, rule assms)
    next
      fix msg_o st' msg assume "x = (msg_o, st')" "msg_o = Some msg"
      then show "safe ?G (wait ?n st' msg 5) ((h @ t) @ t2)" using s assms by (intro wait) auto
    qed
  qed
qed

section \<open>A reconcile\<close>

lemma calls_both: "calls P p R \<Longrightarrow> calls P' p R' \<Longrightarrow> calls (\<lambda>q. P q \<and> P' q) p (\<lambda>r. R r \<and> R' r)"
  by (induction p) auto

lemma completed_from: "status_step mx st st' \<Longrightarrow> s_phase st' = Completed \<Longrightarrow> s_phase st \<in> {CleaningUp, Completed}"
  by (drule stepD(1)) (auto simp: stays_or_edge_def elim: phase_edge.cases)

lemma frame_own_finalizer:
  "frame ctx evac st q \<Longrightarrow> s_phase st \<noteq> CleaningUp \<Longrightarrow> q \<noteq> Patch_merge K_Evacuation ns n (P_finalizers fs)"
  by (cases q; auto simp: harmless_def phase_may_def Let_def edits_def attempt_objects_def attempt_cleanup_def
      strips_zfs_def on_target_def on_source_def on_snapshot_def unlocks_def params_req_def split: phase.splits)

lemma safe_handle_phase_end:
  assumes "s_phase st \<notin> {Completed, Failed, Aborting}"
  shows "safe (end_ok ctx evac st) (handle_phase ctx evac st) h"
proof (cases "s_phase st = CleaningUp")
  case True
  then show ?thesis by (simp add: handle_phase_def safe_cleaning_end)
next
  case False
  have "calls (\<lambda>q. frame ctx evac st q \<and> status_req (status_step (max_attempts evac) st) q) (handle_phase ctx evac st) (\<lambda>_. True)"
    using calls_both [OF frame_handle_phase writes_handle_phase [unfolded writes_def]] by simp
  then show ?thesis
  proof (rule safe_calls)
    fix q t assume q: "frame ctx evac st q \<and> status_req (status_step (max_attempts evac) st) q"
    have "s_phase st' \<noteq> Completed" if "q = Patch_status n st'" for n st'
      using q that completed_from False assms by auto
    moreover have "q \<noteq> Patch_merge K_Evacuation ns n (P_finalizers fs)" for ns n fs
      using frame_own_finalizer q False by blast
    ultimately show "end_ok ctx evac st (h @ t) q" using assms unfolding end_ok_def by blast
  qed
qed

lemma safe_reconcile_end: "safe (end_ok ctx evac (recorded_status evac)) (reconcile ctx evac) h"
proof -
  let ?st = "recorded_status evac" and ?n = "ev_name evac"
  have ab: "safe (end_ok ctx evac ?st) (abort_run ctx evac ?st) h'" for h'
    using safe_abort_end [of ctx evac ?st "s_message ?st"] by simp
  have ens: "safe (end_ok ctx evac ?st) (ensure_evac_finalizer evac) h'" for h'
    by (simp add: ensure_evac_finalizer_def Let_def patch_obj_def ask_def safe_def end_ok_def)
  have plain: "safe (end_ok ctx evac ?st) (cancel_reason ctx evac st) h'"
    "safe (end_ok ctx evac ?st) (bnd (write_status ?n (st\<lparr>s_phase := Aborting, s_cancelled := True, s_message := m\<rparr>)) (\<lambda>_. requeue_secs 1)) h'"
    for st m h'
    by (rule safe_no_end, intro call_intros; simp)+
  show ?thesis
    unfolding reconcile_def Let_def bnd_if_ret
    by (intro safe_ifI safe_own_finalizer safe_bnd [OF ens] safe_bnd [OF plain(1)] safe_optionI plain(2) ab
        safe_abort_end safe_handle_phase_end safe_Done)
      (auto simp: bnd_if_ret intro: safe_Done safe_own_finalizer)
qed

section \<open>A failure that undoes nothing\<close>

text \<open>
  The requests that can change what an evacuation holds: the lock table, the label of the claim, the
  finalizers of a ZFSVolume (the guard is one) and the reclaim policy of a PV, or the objects themselves.
\<close>

definition changes_holds :: "req \<Rightarrow> bool" where
  "changes_holds q \<longleftrightarrow> (case q of
     Create k _ _ \<Rightarrow> k = K_Params
   | Replace k _ _ _ \<Rightarrow> True
   | Patch_merge k _ _ _ \<Rightarrow> k \<in> {K_Params, K_PVC, K_ZFSVolume, K_PV}
   | Delete k _ _ \<Rightarrow> True
   | _ \<Rightarrow> False)"

lemma harmless_keeps: "harmless name q \<Longrightarrow> \<not> changes_holds q"
  by (auto simp: harmless_def changes_holds_def split: req.splits)

lemma changes_holds_simps [simp]:
  "\<not> changes_holds (Get k ns n)" "\<not> changes_holds (Patch_status n st)" "\<not> changes_holds (Patch_merge K_Evacuation ns n p)"
  by (simp_all add: changes_holds_def)

text \<open>The abort of a deleted evacuation ends without a record, so it writes no Failed.\<close>

lemma deleted_abort_not_failed:
  assumes "being_deleted (ev_meta evac)"
  shows "calls (status_req (\<lambda>st'. s_phase st' \<noteq> Failed)) (abort_run ctx evac st) (\<lambda>_. True)"
  unfolding abort_run_def Let_def
  by (intro call_intros) (use assms in simp_all)

text \<open>A reconcile that is on its way to a handler: it edits its own finalizer, may record the cancellation, or runs the phase.\<close>

definition direct_ok :: "ctx \<Rightarrow> zfs_evacuation \<Rightarrow> req \<Rightarrow> bool" where
  "direct_ok ctx evac q \<longleftrightarrow>
     (harmless (ev_name evac) q \<or> phase_may ctx evac (recorded_status evac) q
        \<or> (\<exists>fs. q = Patch_merge K_Evacuation [] (ev_name evac) (P_finalizers fs)))
   \<and> status_req (\<lambda>st'. s_phase st' = Failed \<longrightarrow> status_step (max_attempts evac) (recorded_status evac) st') q"

lemma direct_reconcile:
  assumes "s_phase (recorded_status evac) \<notin> {Completed, Failed, Aborting}"
    and "\<not> (being_deleted (ev_meta evac) \<and> \<not> s_committed (recorded_status evac))"
  shows "calls (direct_ok ctx evac) (reconcile ctx evac) (\<lambda>_. True)"
proof -
  have phase: "calls (direct_ok ctx evac) (handle_phase ctx evac (recorded_status evac)) (\<lambda>_. True)"
    by (rule calls_mono [OF calls_both [OF frame_handle_phase writes_handle_phase [unfolded writes_def]]])
      (auto simp: direct_ok_def status_req_def split: req.splits)
  show ?thesis
    unfolding reconcile_def Let_def bnd_if_ret
    by (intro call_intros phase) (use assms in \<open>auto simp: direct_ok_def\<close>)
qed

lemma failed_edge: "status_step mx st st' \<Longrightarrow> s_phase st' = Failed \<Longrightarrow> s_phase st \<in> {Pending, TargetSelecting, Committing, Aborting, Failed}"
  by (drule stepD(1)) (auto simp: stays_or_edge_def elim: phase_edge.cases)

lemma terminal_reconcile:
  assumes "s_phase (recorded_status evac) \<in> {Completed, Failed}"
  shows "calls (\<lambda>q. (\<exists>k ns n. q = Get k ns n) \<or> (\<exists>fs. q = Patch_merge K_Evacuation [] (ev_name evac) (P_finalizers fs)))
     (reconcile ctx evac) (\<lambda>_. True)"
  unfolding reconcile_def Let_def using assms by (intro call_intros) auto

text \<open>Where a record of Failed comes from.\<close>

lemma failed_record_origin:
  assumes "runs (reconcile ctx evac) tr" and "(Patch_status n st', a) \<in> set tr" and "s_phase st' = Failed"
    and "s_phase (recorded_status evac) \<noteq> Aborting"
  shows "s_phase (recorded_status evac) \<in> {Pending, TargetSelecting, Committing}"
    and "calls (direct_ok ctx evac) (reconcile ctx evac) (\<lambda>_. True)"
    and "status_step (max_attempts evac) (recorded_status evac) st'"
proof -
  let ?st = "recorded_status evac"
  have active: "s_phase ?st \<notin> {Completed, Failed, Aborting}"
    using calls_sound [OF terminal_reconcile assms(1)] assms(2,4) by fastforce
  have alive: "\<not> (being_deleted (ev_meta evac) \<and> \<not> s_committed ?st)"
  proof
    assume d: "being_deleted (ev_meta evac) \<and> \<not> s_committed ?st"
    then have "reconcile ctx evac = abort_run ctx evac (?st\<lparr>s_message := Some ''ZFSEvacuation deleted before commit; aborting''\<rparr>)"
      using active by (simp add: reconcile_def Let_def)
    then show False
      using calls_sound [OF deleted_abort_not_failed [of evac ctx]] d assms(1-3) by fastforce
  qed
  show direct: "calls (direct_ok ctx evac) (reconcile ctx evac) (\<lambda>_. True)" by (rule direct_reconcile [OF active alive])
  then have "direct_ok ctx evac (Patch_status n st')" using calls_sound assms(1,2) by fastforce
  then show step: "status_step (max_attempts evac) ?st st'" using assms(3) by (simp add: direct_ok_def)
  show "s_phase ?st \<in> {Pending, TargetSelecting, Committing}" using failed_edge [OF step assms(3)] active by blast
qed

lemma failed_record_keeps:
  assumes "runs (reconcile ctx evac) tr" and "(Patch_status n st', a) \<in> set tr" and "s_phase st' = Failed"
    and "s_phase (recorded_status evac) \<notin> {Aborting, Pending}"
  shows "s_pvc_ref st' = s_pvc_ref (recorded_status evac) \<and> s_source st' = s_source (recorded_status evac)
     \<and> s_original_reclaim_policy st' = s_original_reclaim_policy (recorded_status evac)"
    and "\<forall>(q, b) \<in> set tr. \<not> changes_holds q"
proof -
  note o = failed_record_origin [OF assms(1-3)]
  have p: "s_phase (recorded_status evac) \<in> {TargetSelecting, Committing}" using o(1) assms(4) by blast
  show "s_pvc_ref st' = s_pvc_ref (recorded_status evac) \<and> s_source st' = s_source (recorded_status evac)
     \<and> s_original_reclaim_policy st' = s_original_reclaim_policy (recorded_status evac)"
    using stepD(2) [OF o(3)] assms(4) by (auto simp: source_step_def)
  have "direct_ok ctx evac q \<Longrightarrow> \<not> changes_holds q" for q
    using p by (auto simp: direct_ok_def phase_may_def harmless_keeps)
  then show "\<forall>(q, b) \<in> set tr. \<not> changes_holds q"
    using calls_sound [OF o(2) assms(1)] assms(4) by fastforce
qed

lemma terminal_keeps:
  assumes "runs (reconcile ctx evac) tr" and "s_phase (recorded_status evac) \<in> {Completed, Failed}"
  shows "\<forall>(q, b) \<in> set tr. \<not> changes_holds q"
  using calls_sound [OF terminal_reconcile [OF assms(2)] assms(1)] by fastforce

end
