(* ===== verification/Copy_Safety.thy ===== *)
theory Copy_Safety
  imports Teardown_Safety
begin

text \<open>
  The copy is complete before anything depends on it: what was seen before the write that leaves
  Transferring, and before the one that leaves Adopting.
\<close>

definition copy_seen :: "ctx \<Rightarrow> zfs_evacuation \<Rightarrow> evac_status \<Rightarrow> trace \<Rightarrow> evac_status \<Rightarrow> bool" where
  "copy_seen ctx evac st h st' \<longleftrightarrow>
     (s_phase st = Transferring \<and> s_phase st' = Adopting \<longrightarrow> (\<exists>t b r. s_transfer st = Some t
        \<and> (Get K_ZFSBackup (openebs_ns ctx) (bkp_name (ev_name evac) (ts_attempt t)), R_obj (O_bkp b)) \<in> set h \<and> bk_status b = Some BKP_STATUS_DONE
        \<and> (Get K_ZFSRestore (openebs_ns ctx) (rst_name (ev_name evac) (ts_attempt t)), R_obj (O_rst r)) \<in> set h \<and> rs_status r = Some BKP_STATUS_DONE))
   \<and> (s_phase st = Adopting \<and> s_phase st' = Committing \<longrightarrow> (\<exists>tg zv. s_target st = Some tg
        \<and> (Get K_ZFSVolume (openebs_ns ctx) (ti_new_volume_handle tg), R_obj (O_zv zv)) \<in> set h \<and> zv_state zv = ZFS_STATUS_READY))"

lemma copy_seen_other: "s_phase st' \<notin> {Adopting, Committing} \<or> s_phase st' = s_phase st \<Longrightarrow> copy_seen ctx evac st h st'"
  by (auto simp: copy_seen_def)

definition still :: "evac_status \<Rightarrow> evac_status \<Rightarrow> bool" where
  "still st st' \<longleftrightarrow> s_phase st' \<notin> {Adopting, Committing} \<or> s_phase st' = s_phase st"

lemma safe_still: "writes (still st) p \<Longrightarrow> safe (status_guard (copy_seen ctx evac st)) p h"
  unfolding writes_def by (erule safe_calls) (auto simp: status_guard_def still_def intro: copy_seen_other)

lemma safe_transferring_copy:
  assumes "s_phase st = Transferring"
  shows "safe (status_guard (copy_seen ctx evac st)) (transferring ctx evac st) h"
proof -
  let ?G = "status_guard (copy_seen ctx evac st)" and ?n = "ev_name evac"
  have start: "safe ?G (start_attempt ctx evac st' a) h'" if "s_phase st' = Transferring" for st' a h'
    unfolding start_attempt_def Let_def by (rule safe_still, unfold writes_def, intro call_intros) (use that in \<open>simp_all add: still_def assms\<close>)
  have drop: "safe ?G (drop_relay ?n) h'" for h'
    by (rule safe_still, unfold writes_def, intro call_intros) simp_all
  have retry: "safe ?G (retry_or_fail ctx evac st t mx r) h'" for t mx r h'
  proof -
    have st1: "s_phase (note_failure r st) = Transferring" using assms by simp
    have rest: "safe ?G (wait ?n (note_failure r st) m k) h''" "safe ?G (go_abort ?n (note_failure r st) m) h''" for m k h''
      by (rule safe_still, unfold writes_def, intro call_intros; simp add: still_def assms)+
    have crs: "safe ?G (cleanup_transfer_crs ctx ?n a st') h''" for a st' h''
      by (rule safe_still, unfold writes_def, intro call_intros) simp_all
    show ?thesis
      unfolding retry_or_fail_def Let_def
      by (intro safe_bnd [OF drop] safe_bnd [OF crs] safe_ifI rest start [OF st1])
  qed
  have act: "safe ?G (act_on_verdict ctx evac st t v) h'"
    if "\<And>b st' . v = Complete b \<Longrightarrow> s_phase st' = Adopting \<Longrightarrow> \<forall>u. copy_seen ctx evac st (h' @ u) st'" for t v h'
  proof (cases v)
    case (Complete b)
    have adv: "safe ?G (advance ?n st' Adopting) (h' @ u)" for st' u
      by (rule safe_advance) (use that [OF Complete, of "st'\<lparr>s_phase := Adopting, s_message := None\<rparr>"] in simp)
    show ?thesis unfolding act_on_verdict_def Complete Let_def attempt_verdict.simps by (rule safe_bnd [OF drop adv])
  next
    case (FailAttempt r)
    then show ?thesis by (simp add: act_on_verdict_def retry)
  qed (unfold act_on_verdict_def Let_def, simp_all only: attempt_verdict.simps,
    (rule safe_still, unfold writes_def, intro call_intros; simp add: still_def assms)+)
  show ?thesis
    unfolding transferring_def Let_def
  proof (rule safe_optionI, rule start [OF assms], rule safe_bnd_get(6), simp, rule safe_bnd_get(7), simp)
    fix t bkp rst
    assume t: "s_transfer st = Some t"
    let ?h = "(h @ [(Get K_ZFSBackup (openebs_ns ctx) (bkp_name ?n (ts_attempt t)), opt_obj O_bkp bkp)])
      @ [(Get K_ZFSRestore (openebs_ns ctx) (rst_name ?n (ts_attempt t)), opt_obj O_rst rst)]"
    have quiet: "safe ?G (observe_relay ?n) h'" "safe ?G (opt_secs_since ctx s) h'" "safe ?G now h'" for s h'
      by (rule safe_still, unfold writes_def, intro call_intros; simp)+
    show "safe ?G (bnd (observe_relay ?n) (\<lambda>mem. bnd (opt_secs_since ctx (ts_started_at t)) (\<lambda>elapsed. bnd now (\<lambda>n.
            act_on_verdict ctx evac st t (transfer_verdict \<lparr>
              to_attempt = ts_attempt t, to_failure_reason = ts_failure_reason t,
              to_bkp_status = unwrap_or (Option.bind bkp bk_status) [],
              to_rst_status = unwrap_or (Option.bind rst rs_status) [],
              to_rst_exists = (rst \<noteq> None), to_mem = mem, to_elapsed_secs = unwrap_or elapsed 0, to_now_secs = as_secs n,
              to_timeout_secs = unwrap_or (es_transfer_timeout_seconds (ev_spec evac)) DEFAULT_TRANSFER_TIMEOUT,
              to_stall_secs = cfg_stall_seconds (c_cfg ctx)\<rparr>))))) ?h"
    proof (rule safe_bnd [OF quiet(1)], rule safe_bnd [OF quiet(2)], rule safe_bnd [OF quiet(3)], rule act, intro allI)
      fix mem u1 elapsed u2 n u3 b u and st' :: evac_status
      assume c: "transfer_verdict \<lparr>
              to_attempt = ts_attempt t, to_failure_reason = ts_failure_reason t,
              to_bkp_status = unwrap_or (Option.bind bkp bk_status) [],
              to_rst_status = unwrap_or (Option.bind rst rs_status) [],
              to_rst_exists = (rst \<noteq> None), to_mem = mem, to_elapsed_secs = unwrap_or elapsed 0, to_now_secs = as_secs n,
              to_timeout_secs = unwrap_or (es_transfer_timeout_seconds (ev_spec evac)) DEFAULT_TRANSFER_TIMEOUT,
              to_stall_secs = cfg_stall_seconds (c_cfg ctx)\<rparr> = Complete b" and a: "s_phase st' = Adopting"
      then have "unwrap_or (Option.bind bkp bk_status) [] = BKP_STATUS_DONE" "unwrap_or (Option.bind rst rs_status) [] = BKP_STATUS_DONE"
        by (simp_all add: complete_iff)
      then obtain x y where "bkp = Some x" "bk_status x = Some BKP_STATUS_DONE" "rst = Some y" "rs_status y = Some BKP_STATUS_DONE"
        by (auto simp: unwrap_or_def openebs_consts split: option.splits Option.bind_splits)
      then show "copy_seen ctx evac st ((((?h @ u1) @ u2) @ u3) @ u) st'"
        using t a unfolding copy_seen_def by (auto intro!: exI [of _ x] exI [of _ y])
    qed
  qed
qed

lemma safe_adopting_copy:
  assumes "s_phase st = Adopting"
  shows "safe (status_guard (copy_seen ctx evac st)) (adopting ctx evac st) h"
proof -
  let ?G = "status_guard (copy_seen ctx evac st)" and ?n = "ev_name evac"
  have other: "safe ?G p h'" if "writes (still st) p" for p :: "action prog" and h' using that by (rule safe_still)
  have adv: "safe ?G (advance ?n st Committing) h'"
    if "s_target st = Some tg" "(Get K_ZFSVolume (openebs_ns ctx) (ti_new_volume_handle tg), R_obj (O_zv zv)) \<in> set h'" "zv_state zv = ZFS_STATUS_READY" for tg zv h'
    by (rule safe_advance) (use that assms in \<open>auto simp: copy_seen_def\<close>)
  show ?thesis
    unfolding adopting_def Let_def
  proof (rule safe_bnd_need, rule safe_bnd_need, rule safe_bnd_get(4), simp, rule safe_optionI)
    fix src tg zv_o
    assume tg: "s_target st = Some tg"
    let ?h = "h @ [(Get K_ZFSVolume (openebs_ns ctx) (ti_new_volume_handle tg), opt_obj O_zv zv_o)]"
    show "safe ?G (bnd (get_zv ctx (si_volume_handle src)) (\<lambda>src_o.
          bnd (need ''source ZFSVolume disappeared'' src_o) (\<lambda>src.
          bnd (create_if_absent K_ZFSVolume (openebs_ns ctx) (O_zv (target_zfsvolume (zv_spec src) tg))) (\<lambda>_.
            requeue_secs 3)))) ?h"
      by (rule other, unfold writes_def, intro call_intros) simp_all
    fix zv assume "zv_o = Some zv"
    then show "safe ?G (if zv_state zv = ZFS_STATUS_READY then advance ?n st Committing
          else if zv_state zv = ''Failed''
          then go_abort ?n st ''new ZFSVolume reported Failed during adoption''
          else wait ?n st ''waiting for target node agent to adopt dataset'' 5) ?h"
      by (intro safe_ifI adv [OF tg, of zv] other)
        (simp_all add: writes_def, (intro call_intros; simp add: still_def assms)+)
  qed
qed

lemma safe_reconcile_copy: "safe (status_guard (copy_seen ctx evac (recorded_status evac))) (reconcile ctx evac) h"
proof (rule safe_reconcile_status)
  show "safe (status_guard (copy_seen ctx evac (recorded_status evac))) (handle_phase ctx evac (recorded_status evac)) h" for h
  proof (cases "s_phase (recorded_status evac) \<in> {Transferring, Adopting}")
    case True
    then show ?thesis by (auto simp: handle_phase_def safe_transferring_copy safe_adopting_copy)
  next
    case False
    then show ?thesis by (intro safe_trivial) (auto simp: status_guard_def copy_seen_def)
  qed
qed (auto simp: copy_seen_def)


text \<open>The phases between the copy and the swap are entered from the one before, or kept.\<close>

definition reaches :: "evac_status \<Rightarrow> evac_status \<Rightarrow> bool" where
  "reaches st st' \<longleftrightarrow> (s_phase st' = Swapping \<longrightarrow> s_phase st \<in> {Committing, Swapping})
     \<and> (s_phase st' = Committing \<longrightarrow> s_phase st \<in> {Adopting, Committing})
     \<and> (s_phase st' = Adopting \<longrightarrow> s_phase st \<in> {Transferring, Adopting})"

lemma reaches_step: "status_step mx st st' \<Longrightarrow> reaches st st'"
  by (drule stepD(1)) (auto simp: reaches_def stays_or_edge_def elim: phase_edge.cases)

lemma reaches_abort: "calls (status_req (reaches st)) (abort_run ctx evac st0) (\<lambda>_. True)"
  unfolding abort_run_def Let_def by (intro call_intros) (simp_all add: reaches_def)

lemma reaches_reconcile: "writes (reaches (recorded_status evac)) (reconcile ctx evac)"
proof -
  have "calls (status_req (reaches (recorded_status evac))) (handle_phase ctx evac (recorded_status evac)) (\<lambda>_. True)"
    using writes_mono [OF writes_handle_phase reaches_step] by (simp add: writes_def)
  then show ?thesis
    unfolding writes_def reconcile_def Let_def bnd_if_ret
    by (intro call_intros reaches_abort) (simp_all add: reaches_def)
qed

end
