(* ===== verification/Abort_Loop.thy ===== *)
theory Abort_Loop
  imports Scenario
begin

text \<open>
  The abort path once the agents are done: as long as the restore object of the attempt says Done and
  the source volume is there, an abort creates and deletes the target volume in turn and never gets to
  the step that would delete the restore object. What holds of one reconcile is carried over any number
  of them, with other writers in between.
\<close>

section \<open>What such a reconcile sends\<close>

text \<open>The move: its name, source, target and the recorded attempt.\<close>

record move =
  mv_name :: string
  mv_source :: source_info
  mv_target :: target_info
  mv_attempt :: transfer_status

definition aborting_move :: "move \<Rightarrow> evac_status \<Rightarrow> bool" where
  "aborting_move v st \<longleftrightarrow> s_phase st = Aborting \<and> \<not> s_committed st \<and> s_source st = Some (mv_source v)
     \<and> s_target st = Some (mv_target v) \<and> s_transfer st = Some (mv_attempt v)"

definition restore_of :: "move \<Rightarrow> string" where
  "restore_of v = rst_name (mv_name v) (ts_attempt (mv_attempt v))"

text \<open>Reads, the same status with other messages, and the volume on the target; nothing else.\<close>

definition circling :: "ctx \<Rightarrow> move \<Rightarrow> req \<Rightarrow> bool" where
  "circling ctx v q \<longleftrightarrow> (case q of
     Get k ns n \<Rightarrow> True
   | List_all k ns sel \<Rightarrow> True
   | Abort_task t \<Rightarrow> True
   | Patch_status n st \<Rightarrow> n = mv_name v \<and> aborting_move v st
   | Create k ns x \<Rightarrow> k = K_ZFSVolume \<and> ns = openebs_ns ctx \<and> (\<exists>info. x = O_zv (target_zfsvolume info (mv_target v)))
   | Delete k ns n \<Rightarrow> k = K_ZFSVolume \<and> ns = openebs_ns ctx \<and> n = ti_new_volume_handle (mv_target v)
   | Patch_merge k ns n p \<Rightarrow> k = K_ZFSVolume \<and> ns = openebs_ns ctx \<and> n = ti_new_volume_handle (mv_target v)
       \<and> (\<exists>cur. p = P_finalizers (remove_from [ZFS_FINALIZER] cur))
   | _ \<Rightarrow> False)"

lemma circling_simps [simp]:
  "circling ctx v (Get k ns n)" "circling ctx v (List_all k ns sel)" "circling ctx v (Abort_task t)"
  "circling ctx v (Patch_status n st) \<longleftrightarrow> n = mv_name v \<and> aborting_move v st"
  "circling ctx v (Create K_ZFSVolume (openebs_ns ctx) (O_zv (target_zfsvolume info (mv_target v))))"
  "circling ctx v (Delete K_ZFSVolume (openebs_ns ctx) n) \<longleftrightarrow> n = ti_new_volume_handle (mv_target v)"
  "circling ctx v (Patch_merge K_ZFSVolume (openebs_ns ctx) n (P_finalizers (remove_from [ZFS_FINALIZER] cur)))
     \<longleftrightarrow> n = ti_new_volume_handle (mv_target v)"
  by (auto simp: circling_def)

text \<open>What the reads showed so far: the restore is done, the source volume is there.\<close>

definition restored :: "ctx \<Rightarrow> move \<Rightarrow> trace \<Rightarrow> bool" where
  "restored ctx v h \<longleftrightarrow>
     (\<forall>a. (Get K_ZFSRestore (openebs_ns ctx) (restore_of v), a) \<in> set h \<longrightarrow>
        (\<exists>r. a = R_obj (O_rst r) \<and> rs_status r = Some BKP_STATUS_DONE))
   \<and> (\<forall>a. (Get K_ZFSVolume (openebs_ns ctx) (si_volume_handle (mv_source v)), a) \<in> set h \<longrightarrow> (\<exists>zv. a = R_obj (O_zv zv)))"

definition circles :: "ctx \<Rightarrow> move \<Rightarrow> trace \<Rightarrow> req \<Rightarrow> bool" where
  "circles ctx v h q \<longleftrightarrow> (restored ctx v h \<longrightarrow> circling ctx v q)"

definition retries :: "error + action \<Rightarrow> bool" where
  "retries r \<longleftrightarrow> r = Inr (Requeue (Secs 5)) \<or> (\<exists>e. r = Inl e)"

lemma retries_simps [simp]: "retries (Inl e)" "retries (Inr (Requeue (Secs 5)))"
  by (simp_all add: retries_def)

text \<open>After a read that showed something else nothing is claimed.\<close>

lemma vc_elsewhere: "\<not> restored ctx v h \<Longrightarrow> vc (circles ctx v) p (\<lambda>r h'. restored ctx v h' \<longrightarrow> X r) h"
proof (rule vc_frame [OF calls_any])
  assume h: "\<not> restored ctx v h"
  have "\<not> restored ctx v (h @ t)" for t using h unfolding restored_def set_append by blast
  then show "circles ctx v (h @ t) q" and "restored ctx v (h @ t) \<longrightarrow> X r" for t q r
    by (simp_all add: circles_def)
qed

lemma vc_circling: "calls (circling ctx v) p R \<Longrightarrow> vc (circles ctx v) p (\<lambda>r _. R r) h"
  using calls_vc [of "circling ctx v" p R h] by (rule vc_mono) (simp_all add: circles_def)

lemma vc_bnd_circling:
  assumes "calls (circling ctx v) p (\<lambda>_. True)" and "\<And>x h'. vc (circles ctx v) (f x) Q h'" and "\<And>e h'. Q (Inl e) h'"
  shows "vc (circles ctx v) (bnd p f) Q h"
  by (rule vc_bnd_using [OF vc_circling [OF assms(1)]]) (use assms(2,3) in auto)

lemma vc_bnd_ask_opt:
  assumes "G h q" and "\<And>y z. un y = Some z \<longleftrightarrow> y = c z" and "\<And>e h'. Q (Inl e) h'"
    and "\<And>x. vc G (f x) Q (h @ [(q, opt_obj c x)])"
  shows "vc G (bnd (ask q (as_opt un)) f) Q h"
  unfolding vc_bnd vc_ask
proof (intro conjI allI)
  fix a show "on_ok (\<lambda>x. vc G (f x) Q) (\<lambda>e. Q (Inl e)) (as_opt un a) (h @ [(q, a)])"
  proof (cases "as_opt un a")
    case (Inr x)
    then have "a = opt_obj c x" using assms(2) by (cases x) (auto simp: as_opt_Inr)
    then show ?thesis using assms(4) [of x] Inr by simp
  qed (simp add: assms(3))
qed (rule assms(1))

section \<open>One reconcile\<close>

definition loops_back :: "error + action option \<Rightarrow> bool" where
  "loops_back r \<longleftrightarrow> r = Inr (Some (Requeue (Secs 5))) \<or> (\<exists>e. r = Inl e)"

lemma requeue_msg_circling:
  "aborting_move v st \<Longrightarrow> calls (circling ctx v) (bnd (requeue_msg (mv_name v) st msg) (\<lambda>a. ret (Some a))) loops_back"
  unfolding requeue_msg_def requeue_secs_def loops_back_def
  by (auto simp: calls_bnd aborting_move_def intro!: call_intros split: sum.split)

lemma abort_target_circles:
  assumes st: "aborting_move v st"
  shows "vc (circles ctx v) (abort_target ctx (mv_name v) st) (\<lambda>r h'. restored ctx v h' \<longrightarrow> loops_back r) h"
proof -
  have st': "s_target st = Some (mv_target v)" "s_transfer st = Some (mv_attempt v)" "s_source st = Some (mv_source v)"
    using st by (simp_all add: aborting_move_def)
  have err: "restored ctx v h' \<longrightarrow> loops_back (Inl e)" for h' e by (simp add: loops_back_def)
  have again: "vc (circles ctx v) (bnd p (\<lambda>_. bnd (requeue_msg (mv_name v) st msg) (\<lambda>a. ret (Some a))))
      (\<lambda>r h'. restored ctx v h' \<longrightarrow> loops_back r) h'" if "calls (circling ctx v) p (\<lambda>_. True)" for p :: "unit prog" and msg h'
    by (rule vc_bnd_circling [OF that vc_conseq [OF vc_circling [OF requeue_msg_circling [OF st]]]]) (simp_all add: err)
  show ?thesis
    unfolding abort_target_def st' prod.case option.case restore_of_def [symmetric] get_rst_def get_zv_def bnd_need
  proof (rule vc_bnd_ask_opt, simp add: circles_def, rule un_Some, rule err, rule vc_bnd_ask_opt, simp add: circles_def, rule un_Some, rule err)
    fix rst zv_o
    let ?h = "\<lambda>zv_o. (h @ [(Get K_ZFSRestore (openebs_ns ctx) (restore_of v), opt_obj O_rst rst)])
      @ [(Get K_ZFSVolume (openebs_ns ctx) (ti_new_volume_handle (mv_target v)), opt_obj O_zv zv_o)]"
    show "vc (circles ctx v) (case zv_o of
             Some zv \<Rightarrow>
               bnd (if \<not> being_deleted (zv_meta zv)
                    then delete_obj K_ZFSVolume (openebs_ns ctx) (ti_new_volume_handle (mv_target v)) else ret ()) (\<lambda>_.
               bnd (strip_zfs_finalizer_if_node_gone K_ZFSVolume (openebs_ns ctx) (ti_new_volume_handle (mv_target v)) (ti_node_id (mv_target v))) (\<lambda>_.
               bnd (requeue_msg (mv_name v) st ''abort: destroying target dataset'') (\<lambda>a. ret (Some a))))
           | None \<Rightarrow>
               if is_some_and (Option.bind rst rs_status) (\<lambda>s. s = BKP_STATUS_DONE)
               then bnd (ask (Get K_ZFSVolume (openebs_ns ctx) (si_volume_handle (mv_source v))) (as_opt un_zv)) (\<lambda>src_o. (case src_o of
                      Some src_zv \<Rightarrow>
                        bnd (create_if_absent K_ZFSVolume (openebs_ns ctx) (O_zv (target_zfsvolume (zv_spec src_zv) (mv_target v)))) (\<lambda>_.
                        bnd (requeue_msg (mv_name v) st ''abort: adopting orphan dataset for destruction'') (\<lambda>a. ret (Some a)))
                    | None \<Rightarrow> abort_transfer_crs ctx (mv_name v) st (ts_attempt (mv_attempt v))))
               else abort_transfer_crs ctx (mv_name v) st (ts_attempt (mv_attempt v)))
        (\<lambda>r h'. restored ctx v h' \<longrightarrow> loops_back r) (?h zv_o)"
    proof (cases zv_o)
      case (Some zv)
      show ?thesis
        unfolding Some option.case by (rule vc_bnd_circling [OF _ again err]; intro call_intros; simp)
    next
      case None
      show ?thesis
      proof (cases "is_some_and (Option.bind rst rs_status) (\<lambda>s. s = BKP_STATUS_DONE)")
        case True
        show ?thesis
          unfolding None option.case if_P [OF True]
        proof (rule vc_bnd_ask_opt, simp add: circles_def, rule un_Some, rule err)
          fix src_o
          show "vc (circles ctx v) (case src_o of
                      Some src_zv \<Rightarrow>
                        bnd (create_if_absent K_ZFSVolume (openebs_ns ctx) (O_zv (target_zfsvolume (zv_spec src_zv) (mv_target v)))) (\<lambda>_.
                        bnd (requeue_msg (mv_name v) st ''abort: adopting orphan dataset for destruction'') (\<lambda>a. ret (Some a)))
                    | None \<Rightarrow> abort_transfer_crs ctx (mv_name v) st (ts_attempt (mv_attempt v)))
              (\<lambda>r h'. restored ctx v h' \<longrightarrow> loops_back r)
              (?h None @ [(Get K_ZFSVolume (openebs_ns ctx) (si_volume_handle (mv_source v)), opt_obj O_zv src_o)])"
          proof (cases src_o)
            case n: None
            show ?thesis unfolding n option.case by (rule vc_elsewhere) (auto simp: restored_def)
          next
            case (Some zv)
            show ?thesis unfolding Some option.case by (rule again, intro call_intros) simp_all
          qed
        qed
      next
        case False
        then have "\<not> restored ctx v (?h None)" by (cases rst) (auto simp: restored_def is_some_and_def)
        then show ?thesis unfolding None option.case if_not_P [OF False] by (rule vc_elsewhere)
      qed
    qed
  qed
qed

lemma abort_run_circles:
  assumes st: "aborting_move v st" and n: "mv_name v = ev_name evac"
  shows "vc (circles ctx v) (abort_run ctx evac st) (\<lambda>r h'. restored ctx v h' \<longrightarrow> retries r) h"
proof -
  have st1: "st\<lparr>s_phase := Aborting\<rparr> = st" "s_phase st = Aborting" using st by (simp_all add: aborting_move_def)
  have same: "(Aborting \<noteq> Aborting) = False" by simp
  have drop: "calls (circling ctx v) (drop_relay (mv_name v)) (\<lambda>_. True)"
    unfolding drop_relay_def by (intro call_intros) simp_all
  show ?thesis
    unfolding abort_run_def Let_def st1 n [symmetric] same if_False bnd.simps sum.case
  proof (intro vc_bnd_circling [OF drop], rule vc_bnd_using [OF abort_target_circles [OF st]])
    fix early h'
    assume e: "restored ctx v h' \<longrightarrow> loops_back (Inr early :: error + action option)"
    show "vc (circles ctx v) (case early of Some a \<Rightarrow> ret a | None \<Rightarrow> p) (\<lambda>r h'. restored ctx v h' \<longrightarrow> retries r) h'" for p
    proof (cases early)
      case None
      then have "\<not> restored ctx v h'" using e by (simp add: loops_back_def)
      then show ?thesis unfolding None option.case by (rule vc_elsewhere)
    next
      case (Some a)
      then show ?thesis using e by (simp add: loops_back_def)
    qed
  qed simp_all
qed

text \<open>An evacuation in the middle of such an abort, whether or not its user deleted it meanwhile.\<close>

definition mid_abort :: "move \<Rightarrow> zfs_evacuation \<Rightarrow> bool" where
  "mid_abort v evac \<longleftrightarrow> ev_name evac = mv_name v \<and> (\<exists>st. ev_status evac = Some st \<and> aborting_move v st)
     \<and> (being_deleted (ev_meta evac) \<or> EVACUATION_FINALIZER \<in> set (meta_finalizers (ev_meta evac)))"

lemma reconcile_circles:
  assumes "mid_abort v evac"
  shows "vc (circles ctx v) (reconcile ctx evac) (\<lambda>r h'. restored ctx v h' \<longrightarrow> retries r) h"
proof -
  obtain st where st: "ev_status evac = Some st" "aborting_move v st" using assms by (auto simp: mid_abort_def)
  have "aborting_move v (st\<lparr>s_message := m\<rparr>)" for m using st(2) by (simp add: aborting_move_def)
  moreover have "mv_name v = ev_name evac" using assms by (simp add: mid_abort_def)
  ultimately have run: "vc (circles ctx v) (abort_run ctx evac st) (\<lambda>r h'. restored ctx v h' \<longrightarrow> retries r) h"
    "vc (circles ctx v) (abort_run ctx evac (st\<lparr>s_message := m\<rparr>)) (\<lambda>r h'. restored ctx v h' \<longrightarrow> retries r) h" for m
    by (simp_all add: abort_run_circles st(2))
  have "s_phase st = Aborting" "\<not> s_committed st" using st(2) by (simp_all add: aborting_move_def)
  then show ?thesis
    using run assms st(1) by (auto simp: reconcile_def Let_def ensure_evac_finalizer_def mid_abort_def)
qed

section \<open>Any number of reconciles\<close>

text \<open>A request that could take an object away: a delete, or an edit of it.\<close>

definition may_remove :: "kind \<Rightarrow> string \<Rightarrow> string \<Rightarrow> req \<Rightarrow> bool" where
  "may_remove k ns n q \<longleftrightarrow> q = Delete k ns n \<or> (\<exists>p. q = Patch_merge k ns n p) \<or> (\<exists>x. q = Replace k ns n x)"

text \<open>
  What is asked of the outside in the worlds \<open>here\<close>: the restore object is there and says Done, the source volume is there,
  and neither goes away unless this controller removes it; \<open>others w w'\<close> is what happens between two reconciles.
\<close>

definition keeps_restored :: "'w api \<Rightarrow> ('w \<Rightarrow> 'w \<Rightarrow> bool) \<Rightarrow> ('w \<Rightarrow> bool) \<Rightarrow> ctx \<Rightarrow> move \<Rightarrow> bool" where
  "keeps_restored api others here ctx v \<longleftrightarrow> (\<forall>w. here w \<longrightarrow>
     (\<exists>r. fst (api (Get K_ZFSRestore (openebs_ns ctx) (restore_of v)) w) = R_obj (O_rst r) \<and> rs_status r = Some BKP_STATUS_DONE)
   \<and> (\<exists>zv. fst (api (Get K_ZFSVolume (openebs_ns ctx) (si_volume_handle (mv_source v))) w) = R_obj (O_zv zv))
   \<and> (\<forall>q. \<not> may_remove K_ZFSRestore (openebs_ns ctx) (restore_of v) q
        \<longrightarrow> \<not> may_remove K_ZFSVolume (openebs_ns ctx) (si_volume_handle (mv_source v)) q \<longrightarrow> here (snd (api q w)))
   \<and> (\<forall>w'. others w w' \<longrightarrow> here w'))"

lemma circling_removes_nothing:
  assumes "circling ctx v q" and "ti_new_volume_handle (mv_target v) \<noteq> si_volume_handle (mv_source v)"
  shows "\<not> may_remove K_ZFSRestore ns n q" and "\<not> may_remove K_ZFSVolume (openebs_ns ctx) (si_volume_handle (mv_source v)) q"
  using assms by (auto simp: may_remove_def circling_def)

lemma exec_circles:
  assumes k: "keeps_restored api others here ctx v" and d: "ti_new_volume_handle (mv_target v) \<noteq> si_volume_handle (mv_source v)"
  shows "vc (circles ctx v) p Q h \<Longrightarrow> restored ctx v h \<Longrightarrow> here w \<Longrightarrow> exec api p w m = (r, tr, w', m')
    \<Longrightarrow> here w' \<and> (\<forall>(q, a) \<in> set tr. circling ctx v q) \<and> restored ctx v (h @ tr)"
proof (induction p arbitrary: h w m tr)
  case (Call q c)
  obtain a w1 where a: "api q w = (a, w1)" by fastforce
  have q: "circling ctx v q" using Call.prems(1,2) by (simp add: circles_def)
  have "here w1" using k Call.prems(3) circling_removes_nothing [OF q d] a unfolding keeps_restored_def by (metis snd_conv)
  moreover have "restored ctx v (h @ [(q, a)])"
    using k Call.prems(2,3) a unfolding keeps_restored_def restored_def by (auto dest!: spec [of _ w])
  moreover have "vc (circles ctx v) (c a) Q (h @ [(q, a)])" using Call.prems(1) by simp
  moreover obtain tr' where "exec api (c a) w1 m = (r, tr', w', m')" "tr = (q, a) # tr'"
    using Call.prems(4) a by (auto split: prod.splits)
  ultimately show ?case using Call.IH [OF rangeI, of a "h @ [(q, a)]" w1 m tr'] q by simp
next
  case (Mem g c)
  then show ?case using Mem.IH [OF rangeI, of m h w "g m" tr] by simp
qed simp

text \<open>
  A sequence of reconciles of one evacuation. Each starts from the status the object had, or from one the
  last reconcile wrote (a write may be lost); the rest of the object is anything.
\<close>

inductive lives :: "'w api \<Rightarrow> ('w \<Rightarrow> 'w \<Rightarrow> bool) \<Rightarrow> ctx \<Rightarrow> zfs_evacuation \<Rightarrow> 'w \<Rightarrow> ((error + action) \<times> trace) list \<Rightarrow> bool"
  for api others ctx where
  rest: "lives api others ctx evac w []"
| again: "exec api (reconcile ctx evac) w m = (r, tr, w1, m1) \<Longrightarrow> others w1 w2
    \<Longrightarrow> ev_name evac' = ev_name evac \<Longrightarrow> being_deleted (ev_meta evac') \<or> EVACUATION_FINALIZER \<in> set (meta_finalizers (ev_meta evac'))
    \<Longrightarrow> ev_status evac' = ev_status evac \<or> (\<exists>n st a. (Patch_status n st, a) \<in> set tr \<and> ev_status evac' = Some st)
    \<Longrightarrow> lives api others ctx evac' w2 xs \<Longrightarrow> lives api others ctx evac w ((r, tr) # xs)"

lemma lives_circle:
  assumes k: "keeps_restored api others here ctx v" and d: "ti_new_volume_handle (mv_target v) \<noteq> si_volume_handle (mv_source v)"
  shows "lives api others ctx evac w xs \<Longrightarrow> mid_abort v evac \<Longrightarrow> here w
    \<Longrightarrow> (r, tr) \<in> set xs \<Longrightarrow> retries r \<and> (\<forall>(q, a) \<in> set tr. circling ctx v q)"
proof (induction arbitrary: r tr rule: lives.induct)
  case (again evac w m r1 tr1 w1 m1 w2 evac' xs)
  have "restored ctx v []" by (simp add: restored_def)
  then have 1: "here w1 \<and> (\<forall>(q, a) \<in> set tr1. circling ctx v q) \<and> restored ctx v ([] @ tr1)"
    using exec_circles [OF k d reconcile_circles [OF again.prems(1)] _ again.prems(2) again.hyps(1)] by blast
  then have "retries r1" using vc_sound_post [OF reconcile_circles [OF again.prems(1)] again.hyps(1)] by blast
  moreover have "here w2" using k 1 again.hyps(2) unfolding keeps_restored_def by blast
  moreover have "mid_abort v evac'"
    using again.hyps(3-5) again.prems(1) 1 by (fastforce simp: mid_abort_def)
  ultimately show ?case using again.IH [of r tr] again.prems(3) 1 by (cases "(r, tr) \<in> set xs") (blast, simp)
qed simp

text \<open>Such sequences of any length exist: every reconcile returns.\<close>

lemma lives_any: "mid_abort v evac \<Longrightarrow> \<exists>xs. lives api (=) ctx evac w xs \<and> length xs = n"
proof (induction n arbitrary: w)
  case 0
  then show ?case by (auto intro: lives.rest)
next
  case (Suc n)
  obtain r tr w1 m1 where e: "exec api (reconcile ctx evac) w Map.empty = (r, tr, w1, m1)" using exec_total by metis
  obtain xs where xs: "lives api (=) ctx evac w1 xs" "length xs = n" using Suc by blast
  have "lives api (=) ctx evac w ((r, tr) # xs)"
    by (rule lives.again [OF e refl refl _ _ xs(1)]) (use Suc.prems in \<open>auto simp: mid_abort_def\<close>)
  then show ?case using xs(2) by (metis length_Cons)
qed

section \<open>A server for the scenario\<close>

text \<open>The world is whether the target volume exists; its agent destroys what is deleted at once.\<close>

definition move0 :: move where
  "move0 = \<lparr>mv_name = ''pv-1'', mv_source = src0, mv_target = target0, mv_attempt = attempt0\<rparr>"

definition agents :: "bool api" where
  "agents q w = (case q of
     Get k ns n \<Rightarrow> (if k = K_ZFSRestore then R_obj (O_rst (restore0\<lparr>rs_status := Some BKP_STATUS_DONE\<rparr>))
       else if k = K_ZFSVolume then (if n = handle_of 7 \<and> \<not> w then R_none else R_obj (O_zv (zv0 n ''n1'' []))) else R_none, w)
   | List_all k ns sel \<Rightarrow> (R_objs [], w)
   | Create k ns x \<Rightarrow> (R_ok, True)
   | Delete k ns n \<Rightarrow> (R_ok, False)
   | _ \<Rightarrow> (R_ok, w))"

lemma handle0: "handle_of 7 \<noteq> ''pvc-1''"
  by (simp add: handle_of_def)

lemma agents_keep: "keeps_restored agents (=) (\<lambda>_. True) ctx0 move0"
  using handle0 by (simp add: keeps_restored_def agents_def move0_def src0_def)

lemma mid_abort0: "mid_abort move0 (evac0 (late Aborting False))"
  by (simp add: mid_abort_def move0_def aborting_move_def late_def early_def default_status_def evac0_def meta_finalizers_def
      name_any_def named_meta_def default_meta_def evac_consts)

text \<open>The circle itself: without the target volume a reconcile creates it, with it a reconcile deletes it.\<close>

definition done_calls :: trace where
  "done_calls = [(Get K_ZFSRestore ''openebs'' (rst_name ''pv-1'' 1), R_obj (O_rst (restore0\<lparr>rs_status := Some BKP_STATUS_DONE\<rparr>)))]"

lemma creates_again: "runs (reconcile ctx0 (evac0 (late Aborting False)))
   (done_calls @ [(Get K_ZFSVolume ''openebs'' (handle_of 7), R_none),
      (Get K_ZFSVolume ''openebs'' ''pvc-1'', R_obj (O_zv (zv0 ''pvc-1'' ''n1'' []))),
      (Create K_ZFSVolume ''openebs'' (O_zv (target_zfsvolume (zv_spec (zv0 ''pvc-1'' ''n1'' [])) target0)), R_ok)])"
  by (rule fits_runs [where m = Map.empty])
    (simp add: run_defs abort_run_def abort_target_def drop_relay_def done_calls_def BKP_STATUS_DONE_def scene_defs cong: run_cong)

lemma deletes_again: "runs (reconcile ctx0 (evac0 (late Aborting False)))
   (done_calls @ [(Get K_ZFSVolume ''openebs'' (handle_of 7), R_obj (O_zv (zv0 (handle_of 7) ''n2'' []))),
      (Delete K_ZFSVolume ''openebs'' (handle_of 7), R_ok)])"
  by (rule fits_runs [where m = Map.empty])
    (simp add: run_defs abort_run_def abort_target_def drop_relay_def done_calls_def BKP_STATUS_DONE_def scene_defs cong: run_cong)

end
