(* ===== verification/Write_Once.thy ===== *)
theory Write_Once
  imports Swap_Safety
begin

text \<open>
  How often one reconcile writes the status: once, except on the abort path and in CleaningUp, where
  a first write records the phase or the progress. So what a reconcile writes can be compared with
  the status it started from, however its calls interleave with those of other reconciles.
\<close>

section \<open>At most one write\<close>

definition status_write :: "req \<Rightarrow> bool" where
  "status_write q \<longleftrightarrow> (\<exists>n st. q = Patch_status n st)"

definition silent :: "'a prog \<Rightarrow> bool" where
  "silent p \<longleftrightarrow> calls (\<lambda>q. \<not> status_write q) p (\<lambda>_. True)"

primrec once :: "'a prog \<Rightarrow> bool" where
  "once (Done r) \<longleftrightarrow> True"
| "once (Call q k) \<longleftrightarrow> (\<forall>a. if status_write q then silent (k a) else once (k a))"
| "once (Mem g k) \<longleftrightarrow> (\<forall>m. once (k m))"

definition written :: "trace \<Rightarrow> evac_status set" where
  "written h = {st. \<exists>n a. (Patch_status n st, a) \<in> set h}"

lemma written_simps [simp]:
  "written [] = {}" "written (h @ t) = written h \<union> written t"
  "written ((q, a) # t) = (case q of Patch_status n st \<Rightarrow> {st} | _ \<Rightarrow> {}) \<union> written t"
  by (auto simp: written_def split: req.split)

lemma status_write_simps [simp]:
  "status_write (Patch_status n st)" "\<not> status_write (Get k ns n)" "\<not> status_write (List_all k ns sel)"
  "\<not> status_write (Create k ns x)" "\<not> status_write (Replace k ns n x)" "\<not> status_write (Delete k ns n)"
  "\<not> status_write (Patch_merge k ns n p)" "\<not> status_write Now" "\<not> status_write Rand_u128" "\<not> status_write Rand_u16"
  "\<not> status_write (Spawn_relay bs rs)" "\<not> status_write (Relay_load t)" "\<not> status_write (Abort_task t)"
  "\<not> status_write Selection_lock" "\<not> status_write Selection_unlock"
  by (simp_all add: status_write_def)

lemma status_write_params [simp]: "params_req q \<Longrightarrow> \<not> status_write q"
  by (cases q) (simp_all add: params_req_def)

lemma status_write_cleanup [simp]: "attempt_cleanup ctx name a q \<Longrightarrow> \<not> status_write q"
  by (auto simp: attempt_cleanup_def strips_zfs_def)

named_theorems once_intros \<open>introduction rules for programs that write the status at most once\<close>

lemma silent_once: "silent p \<Longrightarrow> once p"
  by (induction p) (auto simp: silent_def)

lemma silent_bnd: "silent p \<Longrightarrow> (\<And>x. silent (f x)) \<Longrightarrow> silent (bnd p f)"
  unfolding silent_def by (intro calls_bndI) auto

lemma silent_try_with: "silent p \<Longrightarrow> (\<And>r. silent (f r)) \<Longrightarrow> silent (try_with p f)"
  unfolding silent_def by (intro calls_try_withI) auto

lemma once_try_with_last: "silent p \<Longrightarrow> (\<And>r. once (f r)) \<Longrightarrow> once (try_with p f)"
  by (induction p) (auto simp: silent_def)

lemma once_try_with_first: "once p \<Longrightarrow> (\<And>r. silent (f r)) \<Longrightarrow> once (try_with p f)"
  by (induction p) (auto simp: silent_once silent_try_with)

lemma once_bnd_last: "silent p \<Longrightarrow> (\<And>x. once (f x)) \<Longrightarrow> once (bnd p f)"
  unfolding bnd_try_with by (rule once_try_with_last) (auto split: sum.split)

lemma once_bnd_first: "once p \<Longrightarrow> (\<And>x. silent (f x)) \<Longrightarrow> once (bnd p f)"
  unfolding bnd_try_with by (rule once_try_with_first) (auto simp: silent_def split: sum.split)

lemma silent_basic [once_intros]:
  "silent (Done r)" "silent (requeue_secs k)" "silent (need msg o1)" "silent (get_pv n)" "silent (get_node n)"
  "silent (get_pvc ns n)" "silent (get_zv ctx n)" "silent (get_snap ctx n)" "silent (get_bkp ctx n)" "silent (get_rst ctx n)"
  "silent (get_evac n)" "silent (list_snaps ctx sel)" "silent list_evacs" "silent (node_by_id n)" "silent (pods_referencing_pvc ns n)"
  "silent (delete_obj k1 ns n)" "silent (patch_obj k1 ns n pt)" "silent (create_if_absent k1 ns x)" "silent now" "silent (now_rfc3339 ctx)"
  "silent (opt_secs_since ctx s)" "silent (set_finalizers k1 ns n g)" "silent (strip_zfs_finalizer_if_node_gone k1 ns n nid)"
  "silent (update_params mut)"
  "silent (observe_relay n)" "silent (drop_relay n)" "silent (register_relay n a)" "silent (relay_ports n)" "silent (spawn_relay bs rs)"
  "silent rand_u16" "silent (peers_of nd)" "silent (blocking_reason ctx evac st pods)" "silent (cleanup_transfer_crs ctx n att st)"
  "silent (create_restore ctx st n att port)" "silent (select_target ctx i)" "silent (resolve_group ctx me pref src pods)"
  "silent (ensure_evac_finalizer evac)" "silent (remove_evac_finalizer n)" "silent (unlock_pvc o2)" "silent (cancel_reason ctx evac st)"
  "silent (restore_policy n st)" "silent (release_source ctx n st)" "silent new_destination_handle"
  unfolding silent_def
  by (intro call_intros calls_select_target [THEN calls_mono] calls_handle [THEN calls_mono]; simp)+

lemma silent_with_context [once_intros]: "silent p \<Longrightarrow> silent (with_context c p)"
  unfolding silent_def by (intro call_intros) auto

lemma once_write: "once (write_status n st)"
  by (simp add: write_status_def with_context_def ask_def silent_def split: sum.split)

lemma once_leaves [once_intros]:
  "once (advance n st p)" "once (fail n st m)" "once (wait n st m k)" "once (go_abort n st m)" "once (requeue_msg n st m)"
  unfolding advance_def fail_def wait_def go_abort_def requeue_msg_def
  by (intro once_bnd_first; auto intro: once_write silent_basic)+

lemma once_cases [once_intros]:
  "(b \<Longrightarrow> once p) \<Longrightarrow> (\<not> b \<Longrightarrow> once p') \<Longrightarrow> once (if b then p else p')"
  "(o1 = None \<Longrightarrow> once p) \<Longrightarrow> (\<And>x. o1 = Some x \<Longrightarrow> once (f x)) \<Longrightarrow> once (case o1 of None \<Rightarrow> p | Some x \<Rightarrow> f x)"
  "(\<And>x y. z = (x, y) \<Longrightarrow> once (g x y)) \<Longrightarrow> once (case z of (x, y) \<Rightarrow> g x y)"
  "(\<And>x. s = Inl x \<Longrightarrow> once (k1 x)) \<Longrightarrow> (\<And>y. s = Inr y \<Longrightarrow> once (k2 y)) \<Longrightarrow> once (case s of Inl x \<Rightarrow> k1 x | Inr y \<Rightarrow> k2 y)"
  "(\<And>x. x = t \<Longrightarrow> once (l x)) \<Longrightarrow> once (Let t l)"
  by (auto split: option.split prod.split sum.split)

lemma once_MemI [once_intros]: "(\<And>m. once (k m)) \<Longrightarrow> once (Mem g k)"
  by simp

lemma once_Done [once_intros]: "once (Done r)" "once (requeue_secs n)"
  by (simp_all add: requeue_secs_def)

section \<open>The handlers\<close>

text \<open>A write followed by calls that write nothing, and a write that may be skipped.\<close>

lemma once_write_then: "(\<And>x. silent (f x)) \<Longrightarrow> once (bnd (write_status n st) f)"
  "(\<And>x. silent (f x)) \<Longrightarrow> once (bnd (if b then write_status n st else ret ()) f)"
  by (intro once_bnd_first; simp add: once_write)+

lemmas once_after = silent_basic [THEN once_bnd_last]
lemmas once_rules = once_cases once_Done once_MemI once_leaves once_write_then once_after

lemma once_pending: "once (pending ctx evac st)"
  unfolding pending_def pending_source_def by (intro once_rules)

lemma once_guarding: "once (guarding ctx evac st)"
  unfolding guarding_def by (intro once_rules once_bnd_last [OF silent_with_context] silent_basic)

lemma once_retaining: "once (retaining ctx evac st)"
  unfolding retaining_def by (intro once_rules once_bnd_last [OF silent_with_context] silent_basic)

lemma once_locking: "once (locking ctx evac st)"
  unfolding locking_def by (intro once_rules once_bnd_last [OF silent_with_context] silent_basic)

lemma once_quiescing: "once (quiescing ctx evac st)"
  unfolding quiescing_def by (intro once_rules silent_basic)

lemma once_target_selecting: "once (target_selecting ctx evac st)"
proof -
  have guarded: "once (with_selection_lock p)" if "once p" for p :: "action prog"
  proof -
    have "once (try_with p (\<lambda>r. Call Selection_unlock (\<lambda>_. Done r)))"
      by (rule once_try_with_first [OF that]) (simp add: silent_def)
    then show ?thesis by (simp add: with_selection_lock_def)
  qed
  have group: "once (bnd (if b then bnd (pods_referencing_pvc ns n) (\<lambda>pods. resolve_group ctx nm r nid pods) else ret None) f)"
    if "\<And>x. once (f x)" for b ns n nm r nid and f :: "group option \<Rightarrow> action prog"
    by (rule once_bnd_last [OF _ that]) (auto intro: silent_bnd silent_basic)
  have sel: "once (try_with (select_target ctx i) f)" if "\<And>r. once (f r)" for i and f :: "error + target_info \<Rightarrow> action prog"
    by (rule once_try_with_last [OF silent_basic(35) that])
  show ?thesis unfolding target_selecting_def by (intro once_rules guarded group sel)
qed

lemma once_start_attempt: "once (start_attempt ctx evac st a)"
  unfolding start_attempt_def by (intro once_rules silent_bnd silent_basic)

lemma once_retry_or_fail: "once (retry_or_fail ctx evac st t mx r)"
  unfolding retry_or_fail_def by (intro once_rules once_start_attempt)

lemma once_transferring: "once (transferring ctx evac st)"
proof -
  have "once (act_on_verdict ctx evac st t v)" for t v
    unfolding act_on_verdict_def
    by (cases v; simp only: attempt_verdict.simps; intro once_rules once_retry_or_fail silent_basic)
  then show ?thesis unfolding transferring_def by (intro once_rules once_start_attempt)
qed

lemma once_adopting: "once (adopting ctx evac st)"
  unfolding adopting_def by (intro once_rules)

lemma once_committing: "once (committing ctx evac st)"
  unfolding committing_def by (intro once_rules)

lemma once_swapping: "once (swapping ctx evac st)"
proof -
  have held: "once (bnd (if b then bnd (pods_referencing_pvc ns n) (\<lambda>pods. bnd (blocking_reason ctx evac st pods) (\<lambda>blocked. (case blocked of
        Some msg \<Rightarrow> bnd (wait nm st msg 10) (\<lambda>a. ret (Some a)) | None \<Rightarrow> bnd (delete_obj k ns' n') (\<lambda>_. ret None))))
      else ret None) (\<lambda>early. (case early of Some a \<Rightarrow> ret a | None \<Rightarrow> bnd (set_finalizers k' ns'' n'' g) (\<lambda>_. requeue_secs 2))))"
    for b ns n nm k ns' n' k' ns'' n'' g
  proof (rule once_bnd_first)
    show "once (if b then bnd (pods_referencing_pvc ns n) (\<lambda>pods. bnd (blocking_reason ctx evac st pods) (\<lambda>blocked. (case blocked of
        Some msg \<Rightarrow> bnd (wait nm st msg 10) (\<lambda>a. ret (Some a)) | None \<Rightarrow> bnd (delete_obj k ns' n') (\<lambda>_. ret None))))
      else ret None)"
      by (intro once_rules once_bnd_first [OF once_leaves(3)] silent_basic)
    show "silent (case early of Some a \<Rightarrow> ret a | None \<Rightarrow> bnd (set_finalizers k' ns'' n'' g) (\<lambda>_. requeue_secs 2))" for early
      by (auto intro: silent_bnd silent_basic split: option.split)
  qed
  have policy: "once (bnd (case o1 of Some p \<Rightarrow> patch_obj k ns n (pt p) | None \<Rightarrow> ret ()) f)"
    if "\<And>x. once (f x)" for o1 :: "string option" and k ns n pt and f :: "unit \<Rightarrow> action prog"
    by (rule once_bnd_last [OF _ that]) (auto intro: silent_basic split: option.split)
  show ?thesis
    unfolding swapping_def by (intro once_rules held policy once_bnd_last [OF silent_with_context] silent_basic)
qed

section \<open>Programs that write twice\<close>

text \<open>
  A second write of a reconcile comes only after one in Aborting or CleaningUp, and it stays on that
  path.
\<close>

definition ordered_write :: "trace \<Rightarrow> evac_status \<Rightarrow> bool" where
  "ordered_write h st' \<longleftrightarrow> (\<forall>s \<in> written h. s_phase s \<in> {Aborting, CleaningUp})
     \<and> (written h \<noteq> {} \<longrightarrow> s_phase st' \<in> {Aborting, Failed, CleaningUp, Completed})"

lemma silent_safe: "silent p \<Longrightarrow> safe (status_guard W) p h"
  unfolding silent_def by (erule safe_calls) (auto simp: status_guard_def status_write_def)

lemma once_safe:
  assumes "once p" and "writes (\<lambda>st'. \<forall>h'. written h' = written h \<longrightarrow> W h' st') p"
  shows "safe (status_guard W) p h"
  using assms
proof (induction p arbitrary: h)
  case (Done r)
  show ?case by (rule safe_Done)
next
  case (Call q k)
  show ?case
  proof (rule safe_CallI)
    show "status_guard W h q" using Call.prems(2) by (auto simp: writes_def status_guard_def)
    fix a
    show "safe (status_guard W) (k a) (h @ [(q, a)])"
    proof (cases "status_write q")
      case True
      then show ?thesis using Call.prems(1) by (intro silent_safe) simp
    next
      case False
      then have "written (h @ [(q, a)]) = written h" by (auto simp: status_write_def split: req.split)
      moreover have "once (k a)" using Call.prems(1) False by simp
      ultimately show ?thesis using Call.IH [OF rangeI, of a "h @ [(q, a)]"] Call.prems(2) by (simp add: writes_def)
    qed
  qed
next
  case (Mem g k)
  then show ?case by (auto intro!: safe_MemI Mem.IH simp: writes_def)
qed

text \<open>The two rules: a part that only writes on that path, then one that writes once more.\<close>

lemma safe_resumable:
  assumes "calls (status_req (\<lambda>s. s_phase s \<in> {Aborting, CleaningUp})) p S" and "\<forall>s \<in> written h. s_phase s \<in> {Aborting, CleaningUp}"
    and "\<And>x h'. S (Inr x) \<Longrightarrow> \<forall>s \<in> written h'. s_phase s \<in> {Aborting, CleaningUp} \<Longrightarrow> safe (status_guard ordered_write) (f x) h'"
  shows "safe (status_guard ordered_write) (bnd p f) h"
proof (rule safe_bnd_vc)
  show "vc (status_guard ordered_write) p (\<lambda>r h'. S r \<and> (\<forall>s \<in> written h'. s_phase s \<in> {Aborting, CleaningUp})) h"
  proof (rule vc_frame [OF assms(1)])
    have *: "\<forall>s \<in> written (h @ t). s_phase s \<in> {Aborting, CleaningUp}"
      if "list_all (\<lambda>(q, a). status_req (\<lambda>s. s_phase s \<in> {Aborting, CleaningUp}) q) t" for t
      using that assms(2) by (fastforce simp: written_def list_all_iff status_req_def)
    show "S r \<and> (\<forall>s \<in> written (h @ t). s_phase s \<in> {Aborting, CleaningUp})"
      if "S r" "list_all (\<lambda>(q, a). status_req (\<lambda>s. s_phase s \<in> {Aborting, CleaningUp}) q) t" for r t
      using that(1) * [OF that(2)] by simp
    show "status_guard ordered_write (h @ t) q" if "status_req (\<lambda>s. s_phase s \<in> {Aborting, CleaningUp}) q"
      "list_all (\<lambda>(q, a). status_req (\<lambda>s. s_phase s \<in> {Aborting, CleaningUp}) q) t" for q t
      using that(1) * [OF that(2)] by (auto simp: status_guard_def ordered_write_def)
  qed
qed (use assms(3) in blast)

lemma safe_last_write:
  assumes "once p" and "writes (\<lambda>s. s_phase s \<in> {Aborting, Failed, CleaningUp, Completed}) p"
    and "\<forall>s \<in> written h. s_phase s \<in> {Aborting, CleaningUp}"
  shows "safe (status_guard ordered_write) p h"
  by (rule once_safe [OF assms(1) writes_mono [OF assms(2)]]) (use assms(3) in \<open>simp add: ordered_write_def\<close>)

lemma safe_only_write:
  assumes "once p" and "written h = {}"
  shows "safe (status_guard ordered_write) p h"
proof -
  have "writes (\<lambda>_. True) p"
    unfolding writes_def by (rule calls_mono [OF calls_any]) (auto simp: status_req_def split: req.split)
  then show ?thesis
    by (intro once_safe [OF assms(1)]) (elim writes_mono, simp add: ordered_write_def assms(2))
qed

lemma safe_abort_order:
  assumes "\<forall>s \<in> written h. s_phase s \<in> {Aborting, CleaningUp}"
  shows "safe (status_guard ordered_write) (abort_run ctx evac st) h"
proof -
  have first: "writes (\<lambda>s. s_phase s \<in> {Aborting, CleaningUp}) (if b then write_status n (st\<lparr>s_phase := Aborting\<rparr>) else ret ())" for b n
    unfolding writes_def by (intro call_intros) simp_all
  have relay: "writes W (drop_relay n)" for W n unfolding writes_def by (intro call_intros) simp_all
  have target: "writes (\<lambda>s. s_phase s \<in> {Aborting, CleaningUp}) (abort_target ctx n (st\<lparr>s_phase := Aborting\<rparr>))" for n
    unfolding writes_def by (intro call_intros) simp_all
  have rest: "once (bnd (restore_policy pn st1) (\<lambda>_. bnd (unlock_pvc r) (\<lambda>_. bnd (release_source ctx pn st1) (\<lambda>_.
      if d then bnd (remove_evac_finalizer n) (\<lambda>_. ret Await_change)
      else bnd (write_status n (st1\<lparr>s_phase := Failed, s_message := m\<rparr>)) (\<lambda>_. ret Await_change)))))" for pn st1 r d n m
    by (intro once_rules silent_basic)
  have late: "writes (\<lambda>s. s_phase s \<in> {Aborting, Failed, CleaningUp, Completed})
      (bnd (restore_policy pn st1) (\<lambda>_. bnd (unlock_pvc r) (\<lambda>_. bnd (release_source ctx pn st1) (\<lambda>_.
      if d then bnd (remove_evac_finalizer n) (\<lambda>_. ret Await_change)
      else bnd (write_status n (st1\<lparr>s_phase := Failed, s_message := m\<rparr>)) (\<lambda>_. ret Await_change)))))" for pn st1 r d n m
    unfolding writes_def by (intro call_intros) simp_all
  show ?thesis
    unfolding abort_run_def Let_def
    by (intro safe_resumable [OF first [unfolded writes_def]] safe_resumable [OF relay [unfolded writes_def]]
      safe_resumable [OF target [unfolded writes_def]] safe_optionI safe_Done
      safe_last_write [OF rest late] assms)
qed

lemma safe_bnd_silent:
  assumes "silent p" and "written h = {}" and "\<And>x h'. written h' = {} \<Longrightarrow> safe (status_guard W) (f x) h'"
  shows "safe (status_guard W) (bnd p f) h"
proof (rule safe_bnd_vc)
  show "vc (status_guard W) p (\<lambda>r h'. written h' = {}) h"
    by (rule vc_frame [OF assms(1) [unfolded silent_def]])
      (use assms(2) in \<open>auto simp: written_def list_all_iff status_guard_def status_write_def\<close>)
qed (rule assms(3))

lemma safe_cleaning_up_order:
  assumes "written h = {}" and "s_phase st = CleaningUp"
  shows "safe (status_guard ordered_write) (cleaning_up ctx evac st) h"
proof -
  let ?name = "name_any (ev_meta evac)"
  have snap: "calls (status_req (\<lambda>s. s_phase s \<in> {Aborting, CleaningUp})) (destroy_target_snapshot ctx ?name st)
      (\<lambda>r. \<forall>m st'. r = Inr (m, st') \<longrightarrow> st' = st \<or> st' = note_delete_issued st)"
    by (rule calls_destroy_target_snapshot) (simp_all add: assms(2))
  have ds: "silent (destroy_source ctx n s d)" for n s d
    unfolding silent_def destroy_source_def by (intro call_intros) simp_all
  have fin: "once (finish evac st')" for st'
    unfolding finish_def untrigger_def
    by (intro once_rules once_bnd_first [OF once_leaves(1)] once_bnd_last [OF silent_bnd] silent_bnd silent_basic; simp add: silent_basic)
  have once_rest: "once (case msg_o of Some msg \<Rightarrow> wait ?name st' msg 5
        | None \<Rightarrow> bnd (get_zv ctx n) (\<lambda>zv_o. (case zv_o of
              Some zv \<Rightarrow> bnd (destroy_source ctx ?name src (being_deleted (zv_meta zv))) (\<lambda>_. wait ?name st' m 10)
            | None \<Rightarrow> finish evac st')))" for msg_o st' n src m
    by (intro once_rules fin once_bnd_last [OF ds])
  have late: "writes (\<lambda>s. s_phase s \<in> {Aborting, Failed, CleaningUp, Completed}) (case msg_o of Some msg \<Rightarrow> wait ?name st' msg 5
        | None \<Rightarrow> bnd (get_zv ctx n) (\<lambda>zv_o. (case zv_o of
              Some zv \<Rightarrow> bnd (destroy_source ctx ?name src (being_deleted (zv_meta zv))) (\<lambda>_. wait ?name st' m 10)
            | None \<Rightarrow> finish evac st')))" if "s_phase st' = CleaningUp" for msg_o st' n src m
    unfolding writes_def finish_def untrigger_def destroy_source_def
    by (intro call_intros) (simp_all add: that)
  have gone: "silent (case o1 of None \<Rightarrow> ret True | Some t \<Rightarrow> cleanup_transfer_crs ctx n (ts_attempt t) st)" for o1 n
    by (auto intro: silent_basic split: option.split)
  have rest: "safe (status_guard ordered_write) (bnd (destroy_target_snapshot ctx ?name st) (\<lambda>(msg_o, st'). (case msg_o of
          Some msg \<Rightarrow> wait ?name st' msg 5
        | None \<Rightarrow> bnd (get_zv ctx n) (\<lambda>zv_o. (case zv_o of
              Some zv \<Rightarrow> bnd (destroy_source ctx ?name src (being_deleted (zv_meta zv))) (\<lambda>_. wait ?name st' m 10)
            | None \<Rightarrow> finish evac st'))))) h'" if "written h' = {}" for n src m h'
  proof (rule safe_resumable [OF snap])
    fix x h''
    assume x: "\<forall>m st'. (Inr x :: error + string option \<times> evac_status) = Inr (m, st') \<longrightarrow> st' = st \<or> st' = note_delete_issued st"
      and h'': "\<forall>s \<in> written h''. s_phase s \<in> {Aborting, CleaningUp}"
    obtain msg_o st' where e: "x = (msg_o, st')" by (cases x)
    then have "s_phase st' = CleaningUp" using x assms(2) by auto
    then show "safe (status_guard ordered_write) (case x of (msg_o, st') \<Rightarrow> (case msg_o of
          Some msg \<Rightarrow> wait ?name st' msg 5
        | None \<Rightarrow> bnd (get_zv ctx n) (\<lambda>zv_o. (case zv_o of
              Some zv \<Rightarrow> bnd (destroy_source ctx ?name src (being_deleted (zv_meta zv))) (\<lambda>_. wait ?name st' m 10)
            | None \<Rightarrow> finish evac st')))) h''"
      unfolding e prod.case by (intro safe_last_write once_rest late h'')
  qed (simp add: that)
  show ?thesis
    unfolding cleaning_up_def Let_def
    by (intro safe_bnd_need safe_bnd_silent [OF gone] safe_ifI rest safe_only_write once_leaves assms)
qed

section \<open>A reconcile\<close>

lemma safe_handle_phase_order:
  "written h = {} \<Longrightarrow> safe (status_guard ordered_write) (handle_phase ctx evac st) h"
  by (cases "s_phase st")
    (simp_all add: handle_phase_def safe_only_write safe_cleaning_up_order safe_Done once_pending once_guarding once_retaining
      once_locking once_quiescing once_target_selecting once_transferring once_adopting once_committing once_swapping)

lemma safe_reconcile_order: "safe (status_guard ordered_write) (reconcile ctx evac) []"
proof -
  have fin: "silent (if b then remove_evac_finalizer n else ret ())" for b n by (simp add: silent_basic)
  have can: "once (bnd (write_status n st) (\<lambda>_. requeue_secs 1))" for n st by (intro once_write_then silent_basic)
  show ?thesis
    unfolding reconcile_def Let_def bnd_if_ret
    by (intro safe_ifI safe_bnd_silent [OF fin] safe_bnd_silent [OF silent_basic(37)] safe_bnd_silent [OF silent_basic(40)]
        safe_optionI safe_only_write [OF can] safe_abort_order safe_handle_phase_order safe_Done) simp_all
qed

end
