(* ===== verification/Settle_Anchor.thy ===== *)
theory Settle_Anchor
  imports Write_Once
begin

text \<open>
  The settle period and its interruptions: what a reconcile in Quiescing records of the anchor
  (\<open>quiescedAt\<close>) once it has listed pods that block.
\<close>

section \<open>The pods that block\<close>

definition blockers :: "zfs_evacuation \<Rightarrow> pvc_ref \<Rightarrow> pod list \<Rightarrow> pod list" where
  "blockers evac r all = (let pods = filter (\<lambda>p. pod_references_pvc p (pr_name r)) all in
     if es_mode (ev_spec evac) = WhenIdle then pods else filter pod_is_scheduled pods)"

lemma blocked_by:
  "blockers evac r all \<noteq> [] \<Longrightarrow> blocking_reason ctx evac st (filter (\<lambda>p. pod_references_pvc p (pr_name r)) all)
     = ret (Some (blocking_pods_message (blockers evac r all)))"
  by (auto simp: blockers_def blocking_reason_def Let_def split: if_splits)

abbreviation pods_of :: "pvc_ref \<Rightarrow> req" where
  "pods_of r \<equiv> List_all K_Pod (pr_namespace r) None"

text \<open>The status that drops the anchor, and the guard: once blockers were listed, nothing else is recorded, and
  that only with a new message; nothing was recorded before the list.\<close>

definition dropped :: "evac_status \<Rightarrow> string \<Rightarrow> evac_status" where
  "dropped st msg = st\<lparr>s_quiesced_at := None, s_message := Some msg\<rparr>"

definition anchor_ok :: "zfs_evacuation \<Rightarrow> evac_status \<Rightarrow> pvc_ref \<Rightarrow> trace \<Rightarrow> req \<Rightarrow> bool" where
  "anchor_ok evac st r h q \<longleftrightarrow>
     (\<forall>n st' all. q = Patch_status n st' \<and> (pods_of r, R_objs (map O_pod all)) \<in> set h \<and> blockers evac r all \<noteq> [] \<longrightarrow>
        st' = dropped st (blocking_pods_message (blockers evac r all))
        \<and> s_message st \<noteq> Some (blocking_pods_message (blockers evac r all)))
   \<and> (q = pods_of r \<longrightarrow> list_all (\<lambda>(q', b). \<not> status_write q') h)"

definition no_list :: "pvc_ref \<Rightarrow> req \<Rightarrow> bool" where
  "no_list r q \<longleftrightarrow> q \<noteq> pods_of r"

lemma no_list_simps [simp]:
  "no_list r (Get k ns n)" "no_list r (Create k ns x)" "no_list r (Replace k ns n x)" "no_list r (Delete k ns n)"
  "no_list r (Patch_merge k ns n p)" "no_list r (Patch_status n st)" "no_list r Now" "no_list r (Abort_task t)"
  "no_list r (Relay_load t)" "k \<noteq> K_Pod \<Longrightarrow> no_list r (List_all k ns sel)"
  by (simp_all add: no_list_def)

lemma no_list_members [simp]: "attempt_cleanup ctx n a q \<Longrightarrow> no_list r q" "params_req q \<Longrightarrow> no_list r q"
  by (auto simp: no_list_def attempt_cleanup_def strips_zfs_def params_req_def)

text \<open>A program that lists no pods, after lists that showed no blockers.\<close>

definition unblocked :: "zfs_evacuation \<Rightarrow> pvc_ref \<Rightarrow> trace \<Rightarrow> bool" where
  "unblocked evac r h \<longleftrightarrow> (\<forall>all. (pods_of r, R_objs (map O_pod all)) \<in> set h \<longrightarrow> blockers evac r all = [])"

lemma safe_unblocked:
  assumes "calls (no_list r) p (\<lambda>_. True)" and "unblocked evac r h"
  shows "safe (anchor_ok evac st r) p h"
  unfolding safe_def
proof (rule vc_frame [OF assms(1)])
  fix q and t :: trace assume q: "no_list r q" and "list_all (\<lambda>(q, a). no_list r q) t"
  then have "(pods_of r, b) \<notin> set t" for b by (auto simp: list_all_iff no_list_def)
  then show "anchor_ok evac st r (h @ t) q"
    using assms(2) q by (auto simp: anchor_ok_def unblocked_def no_list_def)
qed simp

text \<open>Calls before the list that neither list nor write.\<close>

definition before_list :: "pvc_ref \<Rightarrow> req \<Rightarrow> bool" where
  "before_list r q \<longleftrightarrow> no_list r q \<and> \<not> status_write q"

lemma safe_bnd_before:
  assumes "calls (before_list r) p (\<lambda>_. True)" and "list_all (\<lambda>(q, b). before_list r q) h"
    and "\<And>x h'. list_all (\<lambda>(q, b). before_list r q) h' \<Longrightarrow> safe (anchor_ok evac st r) (f x) h'"
  shows "safe (anchor_ok evac st r) (bnd p f) h"
proof (rule safe_bnd_vc)
  show "vc (anchor_ok evac st r) p (\<lambda>_ h'. list_all (\<lambda>(q, b). before_list r q) h') h"
    by (rule vc_frame [OF assms(1)])
      (use assms(2) in \<open>auto simp: anchor_ok_def before_list_def no_list_def list_all_iff status_write_def\<close>)
qed (rule assms(3))

lemma before_unblocked: "list_all (\<lambda>(q, b). before_list r q) h \<Longrightarrow> unblocked evac r h"
  by (auto simp: unblocked_def list_all_iff before_list_def no_list_def)

section \<open>Quiescing\<close>

lemma safe_wait_blocked:
  assumes "unblocked evac r h" and "msg = blocking_pods_message (blockers evac r all)"
  shows "safe (anchor_ok evac st r) (wait n (st\<lparr>s_quiesced_at := None\<rparr>) msg k) (h @ [(pods_of r, R_objs (map O_pod all))])"
proof -
  have inj: "map O_pod xs = map O_pod ys \<Longrightarrow> xs = ys" for xs ys by (simp add: inj_map_eq_map inj_def)
  have "anchor_ok evac st r (h @ [(pods_of r, R_objs (map O_pod all))]) (Patch_status n (dropped st msg))" if "s_message st \<noteq> Some msg"
    using assms that inj by (fastforce simp: anchor_ok_def unblocked_def)
  then show ?thesis
    by (auto simp: wait_def write_status_def with_context_def ask_def requeue_secs_def safe_def dropped_def split: sum.split)
qed

text \<open>After the list: blocked by some pods, or whatever follows.\<close>

lemma safe_after_list:
  assumes "unblocked evac r h" and "calls (no_list r) (bnd (blocking_reason ctx evac st pods) f) (\<lambda>_. True)"
    and "pods = filter (\<lambda>p. pod_references_pvc p (pr_name r)) all"
    and "\<And>msg. f (Some msg) = wait n (st\<lparr>s_quiesced_at := None\<rparr>) msg k"
  shows "safe (anchor_ok evac st r) (bnd (blocking_reason ctx evac st pods) f) (h @ [(pods_of r, R_objs (map O_pod all))])"
proof (cases "blockers evac r all = []")
  case True
  then have "unblocked evac r (h @ [(pods_of r, R_objs (map O_pod all))])"
    using assms(1) by (auto simp: unblocked_def inj_map_eq_map inj_def)
  then show ?thesis by (rule safe_unblocked [OF assms(2)])
next
  case False
  then show ?thesis unfolding assms(3) by (simp add: blocked_by assms(1,4) safe_wait_blocked)
qed

lemma safe_listing:
  assumes "list_all (\<lambda>(q, b). before_list r q) h" and "\<And>pods. calls (no_list r) (bnd (blocking_reason ctx evac st pods) f) (\<lambda>_. True)"
    and "\<And>msg. f (Some msg) = wait n (st\<lparr>s_quiesced_at := None\<rparr>) msg k"
  shows "safe (anchor_ok evac st r) (bnd (pods_referencing_pvc (pr_namespace r) (pr_name r)) (\<lambda>pods. bnd (blocking_reason ctx evac st pods) f)) h"
proof (rule safe_bnd_pods)
  show "anchor_ok evac st r h (pods_of r)"
    using assms(1) by (auto simp: anchor_ok_def list_all_iff before_list_def)
qed (rule safe_after_list [OF before_unblocked [OF assms(1)] assms(2) refl assms(3)])

lemma safe_quiescing_anchor:
  assumes "s_pvc_ref st = Some r" and "list_all (\<lambda>(q, b). before_list r q) h"
  shows "safe (anchor_ok evac st r) (quiescing ctx evac st) h"
  unfolding quiescing_def Let_def
  apply (rule safe_bnd_need)
  apply (rule safe_bnd_before [OF _ assms(2)])
   apply (intro call_intros; simp add: before_list_def)
  apply (rule safe_ifI)
   apply (rule safe_unblocked, intro call_intros TrueI, erule before_unblocked)
  apply (simp only: assms(1) option.inject)
  apply (hypsubst, rule safe_listing, assumption)
   apply (intro call_intros; simp)
  apply simp
  done

section \<open>A reconcile\<close>

lemma no_list_abort: "calls (no_list r) (abort_run ctx evac st) (\<lambda>_. True)"
  unfolding abort_run_def Let_def by (intro call_intros) simp_all

lemma safe_reconcile_anchor:
  assumes "s_phase (recorded_status evac) = Quiescing" and "s_pvc_ref (recorded_status evac) = Some r"
  shows "safe (anchor_ok evac (recorded_status evac) r) (reconcile ctx evac) []"
proof -
  let ?G = "anchor_ok evac (recorded_status evac) r"
  have plain: "safe ?G p h" if "calls (no_list r) p (\<lambda>_. True)" "list_all (\<lambda>(q, b). before_list r q) h" for p :: "action prog" and h
    using safe_unblocked [OF that(1) before_unblocked [OF that(2)]] .
  have early: "calls (before_list r) (if being_deleted (ev_meta evac) then ret () else ensure_evac_finalizer evac) (\<lambda>_. True)"
    "calls (before_list r) (if s_committed (recorded_status evac) then ret None else cancel_reason ctx evac (recorded_status evac)) (\<lambda>_. True)"
    by (intro call_intros; simp add: before_list_def)+
  have run: "safe ?G (handle_phase ctx evac (recorded_status evac)) h" if "list_all (\<lambda>(q, b). before_list r q) h" for h
    using safe_quiescing_anchor [OF assms(2) that] by (simp add: handle_phase_def assms(1))
  show ?thesis
    unfolding reconcile_def Let_def
    by (rule safe_ifI, simp add: assms(1), rule safe_ifI, rule plain [OF no_list_abort], simp,
        rule safe_bnd_before [OF early(1)], simp, rule safe_ifI, simp add: assms(1),
        rule safe_bnd_before [OF early(2)], assumption, rule safe_optionI, erule run,
        rule plain, intro call_intros, simp_all)
qed

lemma anchor_dropped_with_news:
  assumes "runs (reconcile ctx evac) tr" and "s_phase (recorded_status evac) = Quiescing"
    and "s_pvc_ref (recorded_status evac) = Some r"
    and "(pods_of r, R_objs (map O_pod all)) \<in> set tr" and "blockers evac r all \<noteq> []" and "(Patch_status n st', a) \<in> set tr"
  shows "st' = dropped (recorded_status evac) (blocking_pods_message (blockers evac r all))
     \<and> s_message (recorded_status evac) \<noteq> Some (blocking_pods_message (blockers evac r all))"
proof -
  obtain h t where tr: "tr = h @ (Patch_status n st', a) # t" using assms(6) by (meson split_list)
  have G: "xs @ (q, b) # ys = tr \<Longrightarrow> anchor_ok evac (recorded_status evac) r xs q" for xs q b ys
    using safe_runs [OF safe_reconcile_anchor [OF assms(2,3)]] assms(1) by metis
  have "(pods_of r, R_objs (map O_pod all)) \<notin> set t"
  proof
    assume "(pods_of r, R_objs (map O_pod all)) \<in> set t"
    then obtain t1 t2 where "t = t1 @ (pods_of r, R_objs (map O_pod all)) # t2" by (meson split_list)
    then have "anchor_ok evac (recorded_status evac) r (h @ (Patch_status n st', a) # t1) (pods_of r)"
      using G [of "h @ (Patch_status n st', a) # t1"] tr by simp
    then show False by (simp add: anchor_ok_def)
  qed
  then have "(pods_of r, R_objs (map O_pod all)) \<in> set h" using assms(4) tr by auto
  moreover have "anchor_ok evac (recorded_status evac) r h (Patch_status n st')" using G tr by metis
  ultimately show ?thesis using assms(5) unfolding anchor_ok_def by blast
qed

end
