(* ===== verification/Reconcile_Properties.thy ===== *)
theory Reconcile_Properties
  imports Swap_Progress First_Attempt End_Safety Copy_Safety Abort_Loop Settle_Anchor
begin

text \<open>
  Properties of a whole reconcile. A run \<open>h @ (q, a) # t\<close> of \<open>reconcile ctx evac\<close> is any sequence of
  requests and answers it may go through, cut anywhere; the statements say what the calls \<open>h\<close> before
  a request \<open>q\<close> have shown, whatever the API server, the clock and the other controllers did. Each is
  applied to a run of the cluster of \<open>Scenario\<close>.
\<close>

section \<open>The old PV and the commit\<close>

text \<open>C1 The old PV is deleted only by a reconcile that found the phase Swapping, that read the PV in
  this run as the recorded one (same UID) and not already being deleted, and that found the claim
  quiet: no pod that could write to the volume. No other PV is ever deleted.\<close>

theorem old_pv_delete_guard:
  assumes "runs (reconcile ctx evac) (h @ (Delete K_PV ns n, a) # t)"
  shows "n = es_pv_name (ev_spec evac) \<and> s_phase (recorded_status evac) = Swapping
    \<and> seen_quiet ctx evac (recorded_status evac) h
    \<and> (\<exists>src pv. s_source (recorded_status evac) = Some src \<and> (Get K_PV [] n, R_obj (O_pv pv)) \<in> set h
         \<and> m_uid (pv_meta pv) = Some (si_pv_uid src) \<and> \<not> being_deleted (pv_meta pv))"
  using safe_runs [OF safe_reconcile_delete assms] unfolding old_pv_delete_ok_def by blast

lemma old_pv_delete_guard_witness: "seen_quiet ctx0 (evac0 (late Swapping True)) (late Swapping True) swap_delete"
  using old_pv_delete_guard [OF swap_delete_run] by simp

text \<open>C2 The commit point: a reconcile moves from Committing to Swapping only after it has seen, in this
  run, the claim with its recorded UID, the claim quiet, and the old PV with its recorded UID; and
  the one status write that does so carries the commit flag together with the manifests of exactly
  that old PV and of the PV rendered from it for the recorded target.\<close>

theorem commit_after_checks:
  assumes "runs (reconcile ctx evac) (h @ (Patch_status n st', a) # t)"
    and "s_phase (recorded_status evac) = Committing" and "s_phase st' = Swapping"
  shows "seen_quiet ctx evac (recorded_status evac) h \<and> (\<exists>src pref tg pvc pv new_pv oj nj.
       s_source (recorded_status evac) = Some src \<and> s_pvc_ref (recorded_status evac) = Some pref
     \<and> s_target (recorded_status evac) = Some tg
     \<and> (Get K_PVC (pr_namespace pref) (pr_name pref), R_obj (O_pvc pvc)) \<in> set h \<and> m_uid (pvc_meta pvc) = Some (pr_uid pref)
     \<and> (Get K_PV [] (es_pv_name (ev_spec evac)), R_obj (O_pv pv)) \<in> set h \<and> m_uid (pv_meta pv) = Some (si_pv_uid src)
     \<and> render_new_pv pv pref tg = Inr new_pv
     \<and> pv_to_json (c_libs ctx) pv = Inr oj \<and> pv_to_json (c_libs ctx) new_pv = Inr nj
     \<and> st' = (commit_record (recorded_status evac) oj nj)\<lparr>s_phase := Swapping, s_message := None\<rparr>)"
  using safe_runs [OF safe_reconcile_commit assms(1)] assms(2,3)
  unfolding status_guard_simps commit_seen_def by blast

lemma commit_after_checks_witness: "seen_quiet ctx0 (evac0 (late Committing False)) (late Committing False) commit_calls"
  using commit_after_checks [OF commit_run] by simp

text \<open>C16 A swap is declared done (Swapping to CleaningUp) only when the PV under the old name is a new
  object (another UID), is Bound, and is bound to the recorded claim.\<close>

theorem swap_verified:
  assumes "runs (reconcile ctx evac) (h @ (Patch_status n st', a) # t)"
    and "s_phase (recorded_status evac) = Swapping" and "s_phase st' = CleaningUp"
  shows "\<exists>src pref pv. s_source (recorded_status evac) = Some src \<and> s_pvc_ref (recorded_status evac) = Some pref
     \<and> (Get K_PV [] (es_pv_name (ev_spec evac)), R_obj (O_pv pv)) \<in> set h \<and> m_uid (pv_meta pv) \<noteq> Some (si_pv_uid src)
     \<and> pv_phase pv = ''Bound'' \<and> pv_claim_uid pv = pr_uid pref"
  using safe_runs [OF safe_reconcile_swapped assms(1)] assms(2,3)
  unfolding status_guard_simps swap_seen_def by blast

lemma swap_verified_witness: "\<exists>pv. (Get K_PV [] ''pv-1'', R_obj (O_pv pv)) \<in> set swapped_calls \<and> m_uid (pv_meta pv) \<noteq> Some ''uid-pv''"
  using swap_verified [OF swapped_run] by (auto simp: src0_def spec0_def)

section \<open>The source volume\<close>

text \<open>C3 The source volume, the only copy of the data until the swap, is deleted in two situations only.
  Either in CleaningUp of a committed evacuation, after both transfer objects of the recorded attempt
  and the snapshot on the target were seen to be gone; or on the abort path of an evacuation that
  never committed, after the claim was unlocked, and then only in the user's stead: the claim and the
  PV are gone and the PV's own policy was Delete.\<close>

theorem source_volume_deletion:
  assumes "status_inv mx (recorded_status evac)" and "handles_differ (recorded_status evac)"
    and "s_source (recorded_status evac) = Some src"
    and "runs (reconcile ctx evac) (h @ (Delete K_ZFSVolume (openebs_ns ctx) (si_volume_handle src), a) # t)"
  shows "(s_phase (recorded_status evac) = CleaningUp \<and> s_committed (recorded_status evac)
        \<and> (\<forall>t. s_transfer (recorded_status evac) = Some t \<longrightarrow> attempt_gone ctx (name_any (ev_meta evac)) (ts_attempt t) h)
        \<and> snapshot_settled ctx (recorded_status evac) h)
   \<or> (\<not> s_committed (recorded_status evac) \<and> pvc_unlocked (recorded_status evac) h
        \<and> deleted_by_user evac (recorded_status evac) h)"
  using safe_runs [OF safe_reconcile_kept [OF assms(1,2)] assms(4)] assms(3)
  by (simp add: source_kept_ok_def source_may_go_def)

lemma source_volume_deletion_witness: "attempt_gone ctx0 ''pv-1'' 1 cleanup_calls"
proof -
  have "runs (reconcile ctx0 (evac0 (late CleaningUp True)))
      (cleanup_calls @ (Delete K_ZFSVolume (openebs_ns ctx0) (si_volume_handle src0), R_ok) # [])"
    using cleanup_run by (simp add: ctx0_def src0_def)
  from source_volume_deletion [OF _ _ _ this, of 3] show ?thesis
    by (simp add: inv_late)
qed

text \<open>C19 On the abort path nothing about the source volume is released before the lock: outside Guarding
  and CleaningUp, a patch of the source ZFSVolume (which takes the guard finalizer away) is sent only
  after the claim's key was seen to be in neither list of the admission parameters.\<close>

theorem unlock_before_release:
  assumes "handles_differ (recorded_status evac)" and "s_phase (recorded_status evac) \<notin> {Guarding, CleaningUp}"
    and "s_source (recorded_status evac) = Some src" and "s_pvc_ref (recorded_status evac) = Some r"
    and "runs (reconcile ctx evac) (h @ (Patch_merge K_ZFSVolume (openebs_ns ctx) (si_volume_handle src) p, a) # t)"
  shows "\<exists>sp. params_seen h sp \<and> locked_mode sp (pvc_key r) = None"
  using safe_runs [OF safe_reconcile_released [OF assms(1,2)] assms(5)] assms(3,4)
  by (simp add: source_released_ok_def pvc_unlocked_def)

lemma unlock_before_release_witness: "\<exists>sp. params_seen (abort_calls @ deleted_calls) sp \<and> locked_mode sp ''app/data'' = None"
proof -
  have "runs (reconcile ctx0 (evac0 (early Aborting)))
      ((abort_calls @ deleted_calls) @ (Patch_merge K_ZFSVolume (openebs_ns ctx0) (si_volume_handle src0) (P_finalizers []), R_ok) # [])"
    using abort_run_once by (simp add: ctx0_def src0_def)
  from unlock_before_release [OF _ _ _ _ this, of pref0] show ?thesis
    by (simp add: pvc_key_def pref0_def)
qed

text \<open>C8 What was seen before an end. Before an evacuation is recorded as Completed, the same reconcile saw both
  transfer objects of the attempt, the snapshot on the target and the source volume gone, and the claim
  unlocked. Failed is recorded in two ways only: from Aborting, after the reconcile saw the target volume
  and both transfer objects gone, gave the PV its policy back (or saw that it is not the recorded PV any
  more), unlocked the claim and took the guard off the source volume; or straight from Pending,
  TargetSelecting or Committing, where nothing of this is undone. The controller gives
  its own finalizer back only after everything is done or undone, or when the recorded phase is Completed
  or Failed already.\<close>

theorem nothing_left_behind:
  assumes "runs (reconcile ctx evac) (h @ (q, a) # t)"
  shows "(\<forall>n st'. q = Patch_status n st' \<and> s_phase st' = Completed \<longrightarrow> all_done ctx evac (recorded_status evac) h)
     \<and> (\<forall>n st'. q = Patch_status n st' \<and> s_phase st' = Failed \<longrightarrow>
            s_phase (recorded_status evac) = Aborting \<and> undone ctx evac (recorded_status evac) h
          \<or> s_phase (recorded_status evac) \<in> {Pending, TargetSelecting, Committing})
     \<and> (\<forall>ns n fs. q = Patch_merge K_Evacuation ns n (P_finalizers fs) \<and> EVACUATION_FINALIZER \<notin> set fs
          \<longrightarrow> s_phase (recorded_status evac) \<in> {Completed, Failed}
            \<or> all_done ctx evac (recorded_status evac) h \<or> undone ctx evac (recorded_status evac) h)"
proof -
  have "s_phase (recorded_status evac) \<in> {Aborting, Pending, TargetSelecting, Committing}"
    if "q = Patch_status n st'" "s_phase st' = Failed" for n st'
    using failed_record_origin(1) [OF assms] that by (cases "s_phase (recorded_status evac) = Aborting") auto
  moreover note safe_runs [OF safe_reconcile_end assms]
  ultimately show ?thesis unfolding end_ok_def by blast
qed

lemma nothing_left_behind_witness: "all_done ctx0 (evac0 (late CleaningUp True)) (late CleaningUp True) completed_calls"
  using nothing_left_behind [OF completed_run] by simp

section \<open>The order of the phases\<close>

text \<open>C9 The lock is in place before Quiescing begins: the write that leaves Locking records the time of
  the lock and comes after the claim's key was read, or written without an error, in the admission
  parameters under the evacuation's own mode.\<close>

theorem lock_before_quiescing:
  assumes "runs (reconcile ctx evac) (h @ (Patch_status n st', a) # t)"
    and "s_phase (recorded_status evac) = Locking" and "s_phase st' = Quiescing"
  shows "s_locked_at st' \<noteq> None \<and> (\<exists>r sp. s_pvc_ref (recorded_status evac) = Some r \<and> params_seen h sp
     \<and> locked_mode sp (pvc_key r) = Some (es_mode (ev_spec evac)))"
  using safe_runs [OF safe_reconcile_locked assms(1)] assms(2,3)
  unfolding status_guard_simps lock_seen_def by blast

lemma lock_before_quiescing_witness: "\<exists>sp. params_seen locking_calls sp \<and> locked_mode sp ''app/data'' = Some WhenClaimed"
  using lock_before_quiescing [OF locking_run] by (auto simp: pvc_key_def pref0_def spec0_def)

text \<open>C4 No copy starts before the claim is quiet for long enough: TargetSelecting is entered only by a
  reconcile that saw the claim quiet itself, at least \<open>LOCK_PROPAGATION_SECONDS\<close> after the lock and at
  least the settle time after the recorded start of the quiet period.\<close>

theorem copy_after_quiet:
  assumes "runs (reconcile ctx evac) (h @ (Patch_status n st', a) # t)"
    and "s_phase (recorded_status evac) = Quiescing" and "s_source (recorded_status evac) = Some src"
    and "s_phase st' = TargetSelecting"
  shows "seen_quiet ctx evac (recorded_status evac) h
     \<and> (\<exists>r. since_seen ctx (s_locked_at (recorded_status evac)) r h \<and> LOCK_PROPAGATION_SECONDS \<le> unwrap_or r (- 1))
     \<and> (\<exists>e. since_seen ctx (s_quiesced_at (recorded_status evac)) (Some e) h
          \<and> unwrap_or (es_settle_seconds (ev_spec evac)) DEFAULT_SETTLE_SECONDS \<le> e)"
proof -
  have "safe (status_guard (settled_seen ctx evac (recorded_status evac))) (reconcile ctx evac) []"
    using safe_reconcile_settled assms(3) by blast
  from safe_runs [OF this assms(1)] assms(2,4) show ?thesis
    unfolding status_guard_simps settled_seen_def by blast
qed

lemma copy_after_quiet_witness: "seen_quiet ctx0 (evac0 (early Quiescing)) (early Quiescing) quiet_calls"
  using copy_after_quiet [OF quiet_run] by simp

text \<open>C11 The objects that make the agents act come in order. A backup object, which makes the source agent
  open its stream, is created only after the status that records its attempt was written without an
  error; it has the name and the snapshot of that record, so a restarted controller knows what to look
  for and what to clean up. A restore object is created only after the relay of this process was seen
  with the source agent connected, so the target agent never meets an idle stream.\<close>

theorem attempt_objects_in_order:
  assumes "runs (reconcile ctx evac) (h @ (Create k ns x, a) # t)"
  shows "(\<forall>b. x = O_bkp b \<and> k = K_ZFSBackup \<longrightarrow> (\<exists>n st r ts. (Patch_status n st, r) \<in> set h \<and> (\<forall>e. r \<noteq> R_err e) \<and> s_transfer st = Some ts
       \<and> bk_meta b = named_meta (bkp_name n (ts_attempt ts)) \<and> bks_snap_name (bk_spec b) = Some (ts_snap_name ts)))
   \<and> (k = K_ZFSRestore \<longrightarrow> (\<exists>task l. (Relay_load task, R_load l) \<in> set h \<and> rl_source_connected l))"
  using safe_runs [OF safe_reconcile_attempt assms] unfolding attempt_ok_def backup_recorded_def restore_connected_def by blast

lemma attempt_objects_in_order_witness:
  "(\<exists>st r ts. (Patch_status ''pv-1'' st, r) \<in> set (start_calls @ [(Patch_status ''pv-1'' started0, R_ok)]) \<and> s_transfer st = Some ts
     \<and> ts_snap_name ts = snap_name_of 1 42) \<and> (\<exists>task l. (Relay_load task, R_load l) \<in> set restore_calls \<and> rl_source_connected l)"
proof
  have "runs (reconcile ctx0 (evac0 ((late Transferring False)\<lparr>s_transfer := None\<rparr>)))
      ((start_calls @ [(Patch_status ''pv-1'' started0, R_ok)])
       @ (Create K_ZFSBackup ''openebs'' (O_bkp (attempt_backup ctx0 ''pv-1'' src0 1 (snap_name_of 1 42) 4001)), R_ok) # [])"
    using start_run by simp
  from attempt_objects_in_order [OF this] show "\<exists>st r ts. (Patch_status ''pv-1'' st, r) \<in> set (start_calls @ [(Patch_status ''pv-1'' started0, R_ok)])
     \<and> s_transfer st = Some ts \<and> ts_snap_name ts = snap_name_of 1 42"
    by (auto simp: attempt_backup_def start_calls_def not_cancelled_def seen_pv_def seen_pvc_def seen_time_def)
  show "\<exists>task l. (Relay_load task, R_load l) \<in> set restore_calls \<and> rl_source_connected l"
    using attempt_objects_in_order [OF restore_run] by simp
qed

text \<open>C10 The copy is complete before anything depends on it. Transferring is left for Adopting only by a
  reconcile that read both transfer objects of the recorded attempt and found both agents reporting
  Done; Adopting is left for Committing only by one that read the volume under the recorded handle on the
  target and found it Ready. No swap can begin otherwise, since the phases have no other way there.\<close>

theorem copy_before_cutover:
  assumes "runs (reconcile ctx evac) (h @ (Patch_status n st', a) # t)"
  shows "(s_phase (recorded_status evac) = Transferring \<and> s_phase st' = Adopting \<longrightarrow> (\<exists>ts b r. s_transfer (recorded_status evac) = Some ts
        \<and> (Get K_ZFSBackup (openebs_ns ctx) (bkp_name (name_any (ev_meta evac)) (ts_attempt ts)), R_obj (O_bkp b)) \<in> set h
        \<and> (Get K_ZFSRestore (openebs_ns ctx) (rst_name (name_any (ev_meta evac)) (ts_attempt ts)), R_obj (O_rst r)) \<in> set h
        \<and> bk_status b = Some BKP_STATUS_DONE \<and> rs_status r = Some BKP_STATUS_DONE))
   \<and> (s_phase (recorded_status evac) = Adopting \<and> s_phase st' = Committing \<longrightarrow> (\<exists>tg zv. s_target (recorded_status evac) = Some tg
        \<and> (Get K_ZFSVolume (openebs_ns ctx) (ti_new_volume_handle tg), R_obj (O_zv zv)) \<in> set h \<and> zv_state zv = ZFS_STATUS_READY))
   \<and> (s_phase st' = Swapping \<longrightarrow> s_phase (recorded_status evac) \<in> {Committing, Swapping})
   \<and> (s_phase st' = Committing \<longrightarrow> s_phase (recorded_status evac) \<in> {Adopting, Committing})
   \<and> (s_phase st' = Adopting \<longrightarrow> s_phase (recorded_status evac) \<in> {Transferring, Adopting})"
proof -
  have "copy_seen ctx evac (recorded_status evac) h st'" using safe_runs [OF safe_reconcile_copy assms] by simp
  moreover have "reaches (recorded_status evac) st'" by (rule writes_run [OF reaches_reconcile assms, of n st' a]) simp
  ultimately show ?thesis unfolding copy_seen_def reaches_def by blast
qed

lemma copy_before_cutover_witness: "\<exists>r. (Get K_ZFSRestore ''openebs'' (rst_name ''pv-1'' 1), R_obj (O_rst r)) \<in> set copied_calls \<and> rs_status r = Some BKP_STATUS_DONE"
  using copy_before_cutover [OF copied_run] by (auto simp: ctx0_def)

section \<open>The recorded status\<close>

text \<open>C5 Refinement of the abstract machine: started from a status that satisfies the invariant, every
  status a reconcile ever writes is reached from it by steps of the documented phase graph with its
  side conditions (\<open>status_step\<close>), and it is written under the evacuation's own name. Progress is
  monotone: no write goes back in the order of the phases, so the phase changes at most thirteen times.\<close>

theorem reconcile_refines_machine:
  assumes "status_inv mx (recorded_status evac)" and "mx = max_attempts evac"
    and "runs (reconcile ctx evac) tr" and "(Patch_status n st', a) \<in> set tr"
  shows "(status_step mx)\<^sup>*\<^sup>* (recorded_status evac) st' \<and> n = name_any (ev_meta evac)
     \<and> s_phase (recorded_status evac) \<le> s_phase st' \<and> phase_rank (s_phase st') \<le> 13"
proof (intro conjI)
  show steps: "(status_step mx)\<^sup>*\<^sup>* (recorded_status evac) st'"
    using writes_run [OF writes_reconcile assms(3,4)] assms(1,2) by blast
  from calls_sound [OF frame_reconcile assms(3,4)] show "n = name_any (ev_meta evac)"
    using abort_may_no_status phase_may_no_status by fastforce
  from steps show "s_phase (recorded_status evac) \<le> s_phase st'" by (rule status_steps_advance)
  show "phase_rank (s_phase st') \<le> 13" by (cases "s_phase st'") simp_all
qed

lemma reconcile_refines_machine_witness: "(status_step 3)\<^sup>*\<^sup>* (late Committing False) committed0"
  using reconcile_refines_machine [OF _ max0 [symmetric] commit_run sent0] inv_late [of False Committing] by simp

text \<open>C6 The invariant of every status ever recorded, over any number of reconciles that may each start
  from a stale view and stop anywhere: the commit flag is set exactly in Swapping, CleaningUp and
  Completed, and then both PV manifests are there; after Pending the source and the claim are
  recorded; a recorded target is another node than the source with a handle of its own, and only
  exists from Transferring on; attempts are counted from 1 and never pass the maximum; a cancelled
  evacuation is aborting or failed; and a completed one has no message, so the text
  \<open>evacuation complete\<close> that CleaningUp puts in its copy of the status never gets recorded.\<close>

theorem recorded_invariant:
  assumes "recorded ctx S st" and "\<forall>s \<in> S. unwrap_or (es_max_attempts s) DEFAULT_MAX_ATTEMPTS = mx"
  shows "(s_committed st \<longleftrightarrow> s_phase st \<in> {Swapping, CleaningUp, Completed})
   \<and> (s_committed st \<longrightarrow> s_old_pv_manifest st \<noteq> None \<and> s_new_pv_manifest st \<noteq> None)
   \<and> (s_phase st \<notin> {Pending, Aborting, Failed} \<longrightarrow> s_source st \<noteq> None \<and> s_pvc_ref st \<noteq> None)
   \<and> (\<forall>tg. s_target st = Some tg \<longrightarrow> s_phase st > TargetSelecting \<and> (\<exists>src r. s_source st = Some src
        \<and> ti_node_id tg \<noteq> si_node_id src \<and> ti_new_volume_handle tg = handle_of r))
   \<and> (\<forall>ts. s_transfer st = Some ts \<longrightarrow> 1 \<le> ts_attempt ts \<and> ts_attempt ts \<le> max 1 mx)
   \<and> (s_cancelled st \<longrightarrow> s_phase st \<in> {Aborting, Failed})
   \<and> (s_phase st = Completed \<longrightarrow> s_message st = None)"
  using recorded_inv [OF assms(1)] assms(2) unfolding status_inv_def good_target_def by fastforce

lemma recorded_invariant_witness: "recorded ctx0 {spec0} failed0 \<and> \<not> s_committed failed0"
proof
  show r: "recorded ctx0 {spec0} failed0"
    by (rule recorded.sent [OF _ _ pending_run, where n = "''pv-1''" and a = R_ok]) (auto intro: recorded.new)
  show "\<not> s_committed failed0"
    using recorded_invariant [OF r, of 3] by (simp add: spec0_def DEFAULT_MAX_ATTEMPTS_def)
qed

text \<open>C18 No way back: once an evacuation is committed, every status a reconcile writes is committed and in
  Swapping, CleaningUp or Completed; nothing aborts it or lets it fail.\<close>

theorem committed_no_return:
  assumes "status_inv mx (recorded_status evac)" and "mx = max_attempts evac" and "s_committed (recorded_status evac)"
    and "runs (reconcile ctx evac) tr" and "(Patch_status n st', a) \<in> set tr"
  shows "s_committed st' \<and> s_phase st' \<in> {Swapping, CleaningUp, Completed}"
proof -
  have "(status_step mx)\<^sup>*\<^sup>* (recorded_status evac) st'"
    using writes_run [OF writes_reconcile assms(4,5)] assms(1,2) by blast
  from status_steps_committed [OF this assms(1,3)] status_inv_steps [OF this assms(1)] show ?thesis
    by (simp add: status_inv_def)
qed

lemma committed_no_return_witness: "s_committed swapped0"
  using committed_no_return [OF _ max0 [symmetric] _ swapped_run sent0] inv_late [of True Swapping] by simp

text \<open>C17 The swap completes. From every state in which a crash can have left it (the old PV, the old PV
  being deleted, no PV at all, the replacement), three reconciles of a committed evacuation are enough
  to reach CleaningUp, provided that the API server keeps the PV as documented, the PV controller binds
  the replacement between them, the claim stays quiet and the recorded manifest is the rendered
  replacement's text.\<close>

theorem swap_completes:
  assumes "rolling evac st" and "s_source st = Some src" and "s_pvc_ref st = Some r" and "s_new_pv_manifest st = Some nj"
    and "render_new_pv old_pv r tg = Inr new_pv" and "pv_from_json (c_libs ctx) nj = Inr new_pv"
    and "m_name (pv_meta old_pv) = Some (es_pv_name (ev_spec evac))"
    and "keeps_pv api pv (es_pv_name (ev_spec evac)) (si_pv_uid src)" and "binds env pv (si_pv_uid src) (pr_uid r)"
    and "stays_quiet api pv ctx evac st r" and "swap_state (si_pv_uid src) (pr_uid r) (pv w)"
  shows "(Patch_status (name_any (ev_meta evac)) (st\<lparr>s_phase := CleaningUp, s_message := None\<rparr>), R_ok)
     \<in> set (rounds api env (reconcile ctx evac) 3 w m)"
  using swapping_rounds [OF assms(8,9,2,3) refl assms(10,4,6) _ _ assms(11)] rendered_for_claim [OF assms(5)] assms(7)
  by (simp add: reconcile_rolling [OF assms(1)])

lemma swap_completes_witness:
  "(Patch_status ''pv-1'' swapped0, R_ok) \<in> set (rounds pv_store bind_pv (reconcile ctx_swap (evac0 (late Swapping True))) 3
     (Some (with_finalizers [''kubernetes.io/pv-protection''] (pv0 ''uid-pv'' ''pvc-1''))) Map.empty)"
proof -
  let ?w = "Some (with_finalizers [''kubernetes.io/pv-protection''] (pv0 ''uid-pv'' ''pvc-1''))"
  let ?st = "late Swapping True"
  have roll: "rolling (evac0 ?st) ?st" by (simp add: rolling_def evac0_def meta_finalizers_def evac_consts)
  have nj: "s_new_pv_manifest ?st = Some ''{}''" by (simp add: late_def)
  have json: "pv_from_json (c_libs ctx_swap) ''{}'' = Inr rendered0" by (simp add: ctx_swap_def)
  have name: "m_name (pv_meta (pv0 ''uid-pv'' ''pvc-1'')) = Some (es_pv_name (ev_spec (evac0 ?st)))"
    by (simp add: pv0_def meta0_def named_meta_def spec0_def)
  have keeps: "keeps_pv pv_store id (es_pv_name (ev_spec (evac0 ?st))) (si_pv_uid src0)"
    using pv_store_keeps by (simp add: src0_def)
  have state: "swap_state (si_pv_uid src0) (pr_uid pref0) (id ?w)"
    by (simp add: swap_state_def with_finalizers_def pv0_def meta0_def src0_def meta_finalizers_def being_deleted_def
        named_meta_def default_meta_def PV_PROTECTION_def)
  show ?thesis
    using swap_completes [where pv = id and api = pv_store and env = bind_pv and w = ?w and evac = "evac0 ?st" and st = ?st
        and ctx = ctx_swap, OF roll status0(8,9) nj rendered0 json name keeps bind_pv_binds pv_store_quiet [OF status0(8)] state]
    by (simp add: swapped0_def)
qed

section \<open>What a reconcile may touch\<close>

text \<open>C33 The frame: every request of a reconcile is a read (of the API, the clock, the relay) or a status
  write of this evacuation, an edit of the evacuation's own finalizers, one of the few writes of the
  recorded phase (\<open>phase_may\<close>), or, while nothing is committed, one of the abort path's (\<open>abort_may\<close>).
  Everything else in the cluster is left alone.\<close>

theorem reconcile_frame:
  assumes "runs (reconcile ctx evac) tr" and "(q, a) \<in> set tr"
  shows "harmless (name_any (ev_meta evac)) q
    \<or> (\<not> s_committed (recorded_status evac) \<or> s_phase (recorded_status evac) = Aborting)
        \<and> abort_may ctx evac (recorded_status evac) q
    \<or> phase_may ctx evac (recorded_status evac) q
    \<or> (\<exists>fs. q = Patch_merge K_Evacuation [] (name_any (ev_meta evac)) (P_finalizers fs))"
  using calls_sound [OF frame_reconcile assms] .

lemma reconcile_frame_witness: "phase_may ctx0 (evac0 (late Swapping True)) (late Swapping True) (Delete K_PV [] ''pv-1'')"
  using reconcile_frame [OF swap_delete_run sent0] by simp

section \<open>Three paths that leave something behind\<close>

text \<open>C25 An abort after the copy is done never ends. As long as the restore object of the attempt says
  Done and the source volume is there (and nobody but this controller removes them), every reconcile of
  the Aborting evacuation creates the target volume when it is absent and deletes it when it is there,
  then asks to be called again in 5 seconds, or ends in an error; it reads, rewrites the message, edits
  that volume's finalizer, and does nothing else. In particular the restore object is never deleted, so
  the circle does not end: the claim stays locked, the reclaim policy Retain, the source volume guarded,
  and a deleted evacuation keeps its finalizer, however many reconciles follow and whatever other
  writers do to the rest. The step that deletes the restore object comes after the check of its status.\<close>

theorem late_abort_never_ends:
  assumes "keeps_restored api others here ctx v" and "here w" and "mid_abort v evac"
    and "ti_new_volume_handle (mv_target v) \<noteq> si_volume_handle (mv_source v)"
    and "lives api others ctx evac w xs" and "(r, tr) \<in> set xs"
  shows "(r = Inr (Requeue (Secs 5)) \<or> (\<exists>e. r = Inl e)) \<and> ((q, a) \<in> set tr \<longrightarrow> (case q of
       Get k ns n \<Rightarrow> True
     | List_all k ns sel \<Rightarrow> True
     | Abort_task t \<Rightarrow> True
     | Patch_status n st \<Rightarrow> n = mv_name v \<and> aborting_move v st
     | Create k ns x \<Rightarrow> k = K_ZFSVolume \<and> ns = openebs_ns ctx \<and> (\<exists>info. x = O_zv (target_zfsvolume info (mv_target v)))
     | Delete k ns n \<Rightarrow> k = K_ZFSVolume \<and> ns = openebs_ns ctx \<and> n = ti_new_volume_handle (mv_target v)
     | Patch_merge k ns n p \<Rightarrow> k = K_ZFSVolume \<and> ns = openebs_ns ctx \<and> n = ti_new_volume_handle (mv_target v)
         \<and> (\<exists>cur. p = P_finalizers (remove_from [ZFS_FINALIZER] cur))
     | _ \<Rightarrow> False))"
proof -
  have all: "retries r \<and> (\<forall>(q, a) \<in> set tr. circling ctx v q)" by (rule lives_circle [OF assms(1,4,5,3,2,6)])
  then have "(q, a) \<in> set tr \<longrightarrow> circling ctx v q" by blast
  from conjI [OF conjunct1 [OF all, unfolded retries_def] this [unfolded circling_def]] show ?thesis .
qed

lemma late_abort_never_ends_witness:
  "\<exists>xs. lives agents (=) ctx0 (evac0 (late Aborting False)) False xs \<and> length xs = 100
     \<and> (fst (xs ! 99) = Inr (Requeue (Secs 5)) \<or> (\<exists>e. fst (xs ! 99) = Inl e))"
proof -
  have d: "ti_new_volume_handle (mv_target move0) \<noteq> si_volume_handle (mv_source move0)"
    using handle0 by (simp add: move0_def target0_def src0_def)
  obtain xs where xs: "lives agents (=) ctx0 (evac0 (late Aborting False)) False xs" "length xs = 100"
    using lives_any [OF mid_abort0, of agents ctx0 False 100] by (elim exE conjE)
  obtain r tr where last: "xs ! 99 = (r, tr)" by fastforce
  have "(r, tr) \<in> set xs" using xs(2) nth_mem [of 99 xs] last by simp
  from late_abort_never_ends [OF agents_keep TrueI mid_abort0 d xs(1) this] xs last show ?thesis by auto
qed

text \<open>C26 A failed write of the first attempt's record wedges the evacuation. The relay is entered in the
  table before the record is written; when that write fails, the status has no attempt and the table
  has one. From then on a reconcile of a Transferring evacuation that has no attempt recorded does
  nothing at all, whatever the world answers: it only reads, leaves the table as it is and asks to be
  called again in 5 seconds, until the evacuation is cancelled or the process restarted.\<close>

theorem failed_record_wedges:
  assumes "ev_status evac = Some st" and "s_phase st = Transferring" and "s_transfer st = None" and "\<not> s_committed st"
    and "s_source st = Some src" and "s_target st = Some tg"
    and "\<not> being_deleted (ev_meta evac)" and "EVACUATION_FINALIZER \<in> set (meta_finalizers (ev_meta evac))"
    and "m (ev_name evac) = Some a" and "1 \<le> at_attempt a"
    and "exec api (reconcile ctx evac) w m = (r, tr, w', m')"
  shows "m' = m \<and> (only_gets tr \<and> (r = Inr (Requeue (Secs 5)) \<or> (\<exists>e. r = Inl e))
     \<or> (\<exists>s b. (Patch_status (ev_name evac) s, b) \<in> set tr \<and> s_phase s = Aborting))"
  by (rule unrecorded_stuck [OF assms])

lemma failed_record_wedges_witness:
  "snd (snd (snd (exec replay (reconcile ctx0 (evac0 fresh0)) (map snd refused_calls) Map.empty))) = table0
   \<and> snd (snd (snd (exec replay (reconcile ctx0 (evac0 fresh0)) (map snd not_cancelled) table0))) = table0"
proof
  obtain r tr w' m' where e: "exec replay (reconcile ctx0 (evac0 fresh0)) (map snd not_cancelled) table0 = (r, tr, w', m')" by (metis prod_cases4)
  have "m' = table0"
    using failed_record_wedges [OF _ _ _ _ _ _ _ _ _ _ e, of fresh0 src0 target0]
    by (simp add: fresh0_def table0_def) (simp add: evac0_def being_deleted_def meta_finalizers_def named_meta_def default_meta_def evac_consts)
  with e show "snd (snd (snd (exec replay (reconcile ctx0 (evac0 fresh0)) (map snd not_cancelled) table0))) = table0" by simp
qed (simp add: refused_run)

text \<open>C40 A settle period that is interrupted need not start again. When a reconcile in Quiescing lists pods that
  block (for WhenIdle all that reference the claim, for WhenClaimed the scheduled ones), the only status it may
  write is the recorded one without the anchor and with their message, and it writes it only if that
  message is new. So when the message of an earlier interruption is still recorded, nothing is written
  and the recorded anchor stays. In the witness the same pod comes back and goes, and a
  reconcile that finds the claim quiet again leaves Quiescing on the old anchor.\<close>

theorem settle_anchor_survives:
  assumes "runs (reconcile ctx evac) tr" and "s_phase (recorded_status evac) = Quiescing"
    and "s_pvc_ref (recorded_status evac) = Some r"
    and "(List_all K_Pod (pr_namespace r) None, R_objs (map O_pod all)) \<in> set tr" and "blockers evac r all \<noteq> []"
    and "msg = blocking_pods_message (blockers evac r all)"
  shows "(\<forall>n st' a. (Patch_status n st', a) \<in> set tr \<longrightarrow>
            st' = (recorded_status evac)\<lparr>s_quiesced_at := None, s_message := Some msg\<rparr>)
     \<and> (s_message (recorded_status evac) = Some msg \<longrightarrow> (\<forall>(q, a) \<in> set tr. \<not> status_write q))"
  using anchor_dropped_with_news [OF assms(1-5)] assms(6) unfolding dropped_def status_write_def by auto

lemma settle_anchor_survives_witness:
  "s_quiesced_at anchored0 = Some (dec 200)
   \<and> runs (reconcile ctx0 (evac0 anchored0)) blocked_again \<and> filter (\<lambda>(q, a). status_write q) blocked_again = []
   \<and> runs (reconcile ctx0 (evac0 anchored0)) (quiet_calls @ [(Patch_status ''pv-1'' (anchored0\<lparr>s_phase := TargetSelecting, s_message := None\<rparr>), R_ok)])"
proof (intro conjI)
  show run: "runs (reconcile ctx0 (evac0 anchored0)) blocked_again" by (rule blocked_again_run)
  have "blockers (evac0 anchored0) pref0 [pod1] = [pod1]"
    by (simp add: blockers_def pod1_def pref0_def spec0_def pod_defs default_pod_spec_def List.map_filter_simps)
  then have "\<forall>(q, a) \<in> set blocked_again. \<not> status_write q"
    using settle_anchor_survives [OF run _ _ _ _ refl, of pref0 "[pod1]"]
    by (simp add: anchored0_def interrupted0_def blocked_again_def early_def pref0_def)
  then show "filter (\<lambda>(q, a). status_write q) blocked_again = []" by (auto simp: filter_empty_conv)
qed (simp_all add: anchored0_def anchored_quiet_run [unfolded anchored0_def])

text \<open>C39 A failure outside the abort path strands what the evacuation holds. Whenever a reconcile records Failed from
  a phase other than Pending and Aborting, that phase is TargetSelecting or Committing; the record still names
  the claim, the source and the reclaim policy to give back; and neither this reconcile nor any
  later one that starts from the record sends a request that could change the lock table, the label of
  the claim, the guard of the source volume or the policy of the PV. In the witness the PV was replaced
  under its name before the commit.\<close>

theorem commit_failure_strands_lock:
  assumes "runs (reconcile ctx evac) tr" and "(Patch_status n st', a) \<in> set tr" and "s_phase st' = Failed"
    and "s_phase (recorded_status evac) \<notin> {Pending, Aborting}"
  shows "s_phase (recorded_status evac) \<in> {TargetSelecting, Committing}
     \<and> s_pvc_ref st' = s_pvc_ref (recorded_status evac) \<and> s_source st' = s_source (recorded_status evac)
     \<and> s_original_reclaim_policy st' = s_original_reclaim_policy (recorded_status evac)
     \<and> (\<forall>(q, b) \<in> set tr. \<not> changes_holds q)
     \<and> (\<forall>evac' tr' q b. recorded_status evac' = st' \<and> runs (reconcile ctx evac') tr' \<and> (q, b) \<in> set tr' \<longrightarrow> \<not> changes_holds q)"
  using failed_record_origin(1) [OF assms(1-3)] failed_record_keeps [OF assms(1-3)] terminal_keeps assms(3,4) by fastforce

lemma commit_failure_strands_lock_witness:
  "s_source stranded0 = Some src0 \<and> s_pvc_ref stranded0 = Some pref0 \<and> s_original_reclaim_policy stranded0 = Some ''Delete''
   \<and> filter (\<lambda>(q, b). changes_holds q) stranded_calls = []
   \<and> {q. \<exists>evac' tr' b. recorded_status evac' = stranded0 \<and> runs (reconcile ctx0 evac') tr' \<and> (q, b) \<in> set tr' \<and> changes_holds q} = {}"
proof -
  have st: "s_phase stranded0 = Failed" "s_phase (late Committing False) = Committing" "s_source (late Committing False) = Some src0"
    "s_pvc_ref (late Committing False) = Some pref0" "s_original_reclaim_policy (late Committing False) = Some ''Delete''"
    by (simp_all add: stranded0_def late_def early_def)
  note * = commit_failure_strands_lock [OF stranded_run, of "''pv-1''" stranded0 R_ok]
  have "\<forall>(q, b) \<in> set stranded_calls. \<not> changes_holds q"
    "\<forall>evac' tr' q b. recorded_status evac' = stranded0 \<and> runs (reconcile ctx0 evac') tr' \<and> (q, b) \<in> set tr' \<longrightarrow> \<not> changes_holds q"
    using * st by simp_all
  moreover have "s_pvc_ref stranded0 = Some pref0 \<and> s_source stranded0 = Some src0 \<and> s_original_reclaim_policy stranded0 = Some ''Delete''"
    using * st by simp
  ultimately show ?thesis unfolding filter_empty_conv by blast
qed

end
