(* ===== verification/Trigger_Loop.thy ===== *)
theory Trigger_Loop
  imports Trace_Rules
begin

text \<open>
  The trigger (\<open>src/src/controller/trigger.rs\<close>): every tick lists the annotated PVs and the
  volumes of tainted nodes and creates the evacuation that is missing. A tick never fails because
  of one volume: the helpers log an error and go on, which is a handled error here.
\<close>

section \<open>The conditions\<close>

definition wants_evacuation :: "persistent_volume \<Rightarrow> bool" where
  "wants_evacuation pv \<longleftrightarrow>
     unwrap_or (map_option (\<lambda>v. v = ''true'') (meta_annotation (pv_meta pv) EVACUATE_ANNOTATION)) False
   \<and> unwrap_or (map_option (\<lambda>c. csi_driver c = ZFS_DRIVER) (Option.bind (pv_spec pv) pvs_csi)) False
   \<and> m_deletion_timestamp (pv_meta pv) = None"

definition replaceable :: "zfs_evacuation \<Rightarrow> bool" where
  "replaceable e = is_some_and (ev_status e) (\<lambda>s. s_phase s = Completed \<or> s_phase s = Failed \<and> s_cancelled s)"

definition is_not_found :: "kube_error \<Rightarrow> bool" where
  "is_not_found e = (case e of Api_error code _ \<Rightarrow> code = 404 | Kube_other _ \<Rightarrow> False)"

text \<open>Whether an evacuation may be created under this name; a finished one is deleted first.\<close>

definition clear_for_creation :: "string \<Rightarrow> bool prog" where
  "clear_for_creation pv_name = try_with (get_evac pv_name) (\<lambda>r. (case r of
     Inr (Some existing) \<Rightarrow>
       if \<not> replaceable existing then ret False
       else Call (Delete K_Evacuation [] pv_name) (\<lambda>a.
         ret (case a of R_err e \<Rightarrow> is_not_found e | _ \<Rightarrow> True))
   | Inr None \<Rightarrow> ret True
   | Inl e \<Rightarrow> ret False))"

definition annotation_condition_fresh :: "string \<Rightarrow> bool prog" where
  "annotation_condition_fresh pv_name = try_with (get_pv pv_name) (\<lambda>r. ret (case r of
     Inr (Some pv) \<Rightarrow> wants_evacuation pv
   | Inr None \<Rightarrow> False
   | Inl e \<Rightarrow> False))"

definition has_handle :: "string \<Rightarrow> persistent_volume option \<Rightarrow> bool" where
  "has_handle handle pv_o = is_some_and (Option.bind pv_o (\<lambda>pv. Option.bind (pv_spec pv) pvs_csi))
     (\<lambda>csi. csi_volume_handle csi = handle)"

definition taint_condition_checked :: "ctx \<Rightarrow> string \<Rightarrow> string \<Rightarrow> bool prog" where
  "taint_condition_checked ctx pv_name handle =
     bnd (get_pv pv_name) (\<lambda>pv_o.
     if \<not> has_handle handle pv_o then ret False
     else bnd (get_zv ctx handle) (\<lambda>zv_o. (case zv_o of
        None \<Rightarrow> ret False
      | Some zv \<Rightarrow> bnd (node_by_id (vi_owner_node_id (zv_spec zv))) (\<lambda>node_o. (case node_o of
           None \<Rightarrow> ret False
         | Some n \<Rightarrow> ret (node_has_evacuate_taint n (taint_key ctx)))))))"

definition taint_condition_fresh :: "ctx \<Rightarrow> string \<Rightarrow> string \<Rightarrow> bool prog" where
  "taint_condition_fresh ctx pv_name handle =
     try_with (taint_condition_checked ctx pv_name handle) (\<lambda>r. ret (case r of Inr v \<Rightarrow> v | Inl e \<Rightarrow> False))"

section \<open>Creating\<close>

definition evacuation_for :: "string \<Rightarrow> evacuation_trigger \<Rightarrow> evacuation_mode \<Rightarrow> zfs_evacuation" where
  "evacuation_for pv_name trigger mode = \<lparr>
     ev_meta = named_meta pv_name,
     ev_spec = \<lparr>es_pv_name = pv_name, es_trigger = trigger, es_mode = mode, es_target_node = None,
       es_target_pool = None, es_settle_seconds = None, es_transfer_timeout_seconds = None,
       es_max_attempts = None, es_headroom_percent = None\<rparr>,
     ev_status = None\<rparr>"

text \<open>Success, "already exists" and any other error all end in a log line at most.\<close>

definition create_evacuation :: "string \<Rightarrow> evacuation_trigger \<Rightarrow> evacuation_mode \<Rightarrow> unit prog" where
  "create_evacuation pv_name trigger mode =
     Call (Create K_Evacuation [] (O_evac (evacuation_for pv_name trigger mode))) (\<lambda>_. ret ())"

section \<open>A tick\<close>

fun for_each :: "'a list \<Rightarrow> ('a \<Rightarrow> unit prog) \<Rightarrow> unit prog" where
  "for_each [] f = ret ()"
| "for_each (x # xs) f = bnd (f x) (\<lambda>_. for_each xs f)"

definition create_when :: "bool prog \<Rightarrow> bool prog \<Rightarrow> unit prog \<Rightarrow> unit prog" where
  "create_when clear fresh create =
     bnd clear (\<lambda>c. if \<not> c then ret () else bnd fresh (\<lambda>f. if f then create else ret ()))"

definition annotated_pv :: "persistent_volume \<Rightarrow> unit prog" where
  "annotated_pv pv =
     (let n = name_any (pv_meta pv) in
      if wants_evacuation pv
      then create_when (clear_for_creation n) (annotation_condition_fresh n)
             (create_evacuation n Annotation WhenIdle)
      else ret ())"

text \<open>Collecting pairs into a \<open>HashMap\<close>: the last pair of a key stays.\<close>

definition handle_to_pv :: "persistent_volume list \<Rightarrow> string \<rightharpoonup> persistent_volume" where
  "handle_to_pv pvs = map_of (rev (List.map_filter (\<lambda>pv.
     Option.bind (Option.bind (pv_spec pv) pvs_csi) (\<lambda>csi.
       if csi_driver csi = ZFS_DRIVER then Some (csi_volume_handle csi, pv) else None)) pvs))"

definition tainted_volume :: "ctx \<Rightarrow> string list \<Rightarrow> (string \<rightharpoonup> persistent_volume) \<Rightarrow> zfs_volume \<Rightarrow> unit prog" where
  "tainted_volume ctx tainted_ids by_handle zv =
     (if vi_owner_node_id (zv_spec zv) \<notin> set tainted_ids then ret ()
      else case by_handle (name_any (zv_meta zv)) of
        None \<Rightarrow> ret ()
      | Some pv \<Rightarrow>
          (let n = name_any (pv_meta pv) in
           create_when (clear_for_creation n) (taint_condition_fresh ctx n (name_any (zv_meta zv)))
             (create_evacuation n NodeTaint WhenClaimed)))"

definition tick :: "ctx \<Rightarrow> unit prog" where
  "tick ctx =
     bnd list_pvs (\<lambda>pv_list.
     bnd (for_each pv_list annotated_pv) (\<lambda>_.
     bnd list_nodes (\<lambda>nodes.
     let tainted_ids = map node_id_of (filter (\<lambda>n. node_has_evacuate_taint n (taint_key ctx)) nodes) in
     if tainted_ids = [] then ret ()
     else bnd (list_zvs ctx) (\<lambda>zvs.
       for_each zvs (tainted_volume ctx tainted_ids (handle_to_pv pv_list))))))"

text \<open>The loop, cut after \<open>n\<close> ticks; it sleeps between them and logs a failed tick.\<close>

fun trigger_rounds :: "nat \<Rightarrow> ctx \<Rightarrow> unit prog" where
  "trigger_rounds 0 ctx = ret ()"
| "trigger_rounds (Suc n) ctx = try_with (tick ctx) (\<lambda>_. trigger_rounds n ctx)"

section \<open>What was seen before a delete and before a create\<close>

text \<open>
  \<open>cleared n h\<close>: the calls \<open>h\<close> end with finding no evacuation of that name, or with deleting one
  that may be replaced. The conditions of the two triggers then follow immediately.
\<close>

definition clear_calls :: "string \<Rightarrow> trace \<Rightarrow> bool" where
  "clear_calls n c \<longleftrightarrow> c = [(Get K_Evacuation [] n, R_none)]
     \<or> (\<exists>e a. c = [(Get K_Evacuation [] n, R_obj (O_evac e)), (Delete K_Evacuation [] n, a)]
          \<and> replaceable e \<and> (\<forall>err. a = R_err err \<longrightarrow> is_not_found err))"

definition annotation_seen :: "string \<Rightarrow> trace \<Rightarrow> bool" where
  "annotation_seen n h \<longleftrightarrow> (\<exists>h0 c pv. h = h0 @ c @ [(Get K_PV [] n, R_obj (O_pv pv))]
     \<and> clear_calls n c \<and> wants_evacuation pv)"

definition found_node :: "string \<Rightarrow> node \<Rightarrow> trace \<Rightarrow> bool" where
  "found_node i nd t \<longleftrightarrow> node_id_of nd = i
     \<and> (t = [(Get K_Node [] i, R_obj (O_node nd))]
      \<or> (\<exists>q objs. t = [q, (List_all K_Node [] None, R_objs objs)] \<and> O_node nd \<in> set objs))"

definition taint_seen :: "ctx \<Rightarrow> string \<Rightarrow> trace \<Rightarrow> bool" where
  "taint_seen ctx n h \<longleftrightarrow> (\<exists>h0 c pv handle zv t nd.
     h = h0 @ c @ [(Get K_PV [] n, R_obj (O_pv pv)), (Get K_ZFSVolume (openebs_ns ctx) handle, R_obj (O_zv zv))] @ t
   \<and> clear_calls n c \<and> has_handle handle (Some pv)
   \<and> found_node (vi_owner_node_id (zv_spec zv)) nd t \<and> node_has_evacuate_taint nd (taint_key ctx))"

lemma taint_seenI:
  "clear_calls n c \<Longrightarrow> has_handle handle (Some pv) \<Longrightarrow> found_node (vi_owner_node_id (zv_spec zv)) nd t
     \<Longrightarrow> node_has_evacuate_taint nd (taint_key ctx)
     \<Longrightarrow> taint_seen ctx n ((((h0 @ c) @ [(Get K_PV [] n, R_obj (O_pv pv))])
          @ [(Get K_ZFSVolume (openebs_ns ctx) handle, R_obj (O_zv zv))]) @ t)"
  unfolding taint_seen_def
  by (rule exI [of _ h0], rule exI [of _ c], rule exI [of _ pv], rule exI [of _ handle], rule exI [of _ zv],
      rule exI [of _ t], rule exI [of _ nd]) simp

definition trigger_ok :: "ctx \<Rightarrow> trace \<Rightarrow> req \<Rightarrow> bool" where
  "trigger_ok ctx h q \<longleftrightarrow> (case q of
     Get _ _ _ \<Rightarrow> True
   | List_all _ _ _ \<Rightarrow> True
   | Delete k ns n \<Rightarrow> k = K_Evacuation \<and> ns = []
       \<and> (\<exists>h0 e. h = h0 @ [(Get K_Evacuation [] n, R_obj (O_evac e))] \<and> replaceable e)
   | Create k ns x \<Rightarrow> k = K_Evacuation \<and> ns = [] \<and> (\<exists>n.
         (x = O_evac (evacuation_for n Annotation WhenIdle) \<and> annotation_seen n h)
       \<or> (x = O_evac (evacuation_for n NodeTaint WhenClaimed) \<and> taint_seen ctx n h))
   | _ \<Rightarrow> False)"

lemma trigger_ok_reads [simp]:
  "trigger_ok ctx h (Get k ns n)" "trigger_ok ctx h (List_all k ns sel)"
  by (simp_all add: trigger_ok_def)

lemma clear_for_creation_vc:
  "vc (trigger_ok ctx) (clear_for_creation n) (\<lambda>r h'. r = Inr True \<longrightarrow> (\<exists>c. h' = h @ c \<and> clear_calls n c)) h"
  unfolding clear_for_creation_def get_evac_def vc_try_with vc_ask
  by (auto simp: as_opt_Inr trigger_ok_def clear_calls_def split: sum.splits option.splits resp.splits)

lemma annotation_condition_fresh_vc:
  "vc (trigger_ok ctx) (annotation_condition_fresh n)
     (\<lambda>r h'. r = Inr True \<longrightarrow> (\<exists>pv. h' = h @ [(Get K_PV [] n, R_obj (O_pv pv))] \<and> wants_evacuation pv)) h"
  unfolding annotation_condition_fresh_def get_pv_def vc_try_with vc_ask
  by (auto simp: as_opt_Inr split: sum.splits option.splits)

lemma node_by_id_vc:
  "vc (trigger_ok ctx) (node_by_id i) (\<lambda>r h'. \<forall>nd. r = Inr (Some nd) \<longrightarrow> (\<exists>t. h' = h @ t \<and> found_node i nd t)) h"
proof -
  let ?Q = "\<lambda>r h'. \<forall>nd. r = Inr (Some nd) \<longrightarrow> (\<exists>t. h' = h @ t \<and> found_node i nd t)"
  have listed: "\<exists>t. (h @ [q]) @ [(List_all K_Node [] None, R_objs objs)] = h @ t \<and> found_node i nd t"
    if "as_list un_node (R_objs objs) = Inr all" "find (\<lambda>n. node_id_of n = i) all = Some nd" for q objs all nd
  proof (rule exI [of _ "[q, (List_all K_Node [] None, R_objs objs)]"])
    have "map un_node objs = map Some all" using that(1) by (auto simp: as_list_Inr those_Some)
    moreover have "nd \<in> set all" "node_id_of nd = i" using that(2) by (auto simp: find_Some_iff)
    ultimately have "Some nd \<in> un_node ` set objs" by (metis image_eqI list.set_map)
    then have "O_node nd \<in> set objs" by (metis image_iff un_Some(2))
    with \<open>node_id_of nd = i\<close> show "(h @ [q]) @ [(List_all K_Node [] None, R_objs objs)] = h @ [q, (List_all K_Node [] None, R_objs objs)]
        \<and> found_node i nd [q, (List_all K_Node [] None, R_objs objs)]"
      by (simp add: found_node_def)
  qed
  have l: "vc (trigger_ok ctx) (bnd list_nodes (\<lambda>all. ret (find (\<lambda>n. node_id_of n = i) all))) ?Q (h @ [q])" for q
    unfolding list_nodes_def
  proof (rule vc_bnd_using [where S = "\<lambda>r h'. \<forall>all. r = Inr all \<longrightarrow> (\<exists>objs. as_list un_node (R_objs objs) = Inr all
      \<and> h' = (h @ [q]) @ [(List_all K_Node [] None, R_objs objs)])"])
    show "vc (trigger_ok ctx) (ask (List_all K_Node [] None) (as_list un_node))
        (\<lambda>r h'. \<forall>all. r = Inr all \<longrightarrow> (\<exists>objs. as_list un_node (R_objs objs) = Inr all
          \<and> h' = (h @ [q]) @ [(List_all K_Node [] None, R_objs objs)])) (h @ [q])"
      unfolding vc_ask by (auto simp: as_list_Inr)
  qed (use listed [of _ _ _ q] in auto)
  show ?thesis
    unfolding node_by_id_def
  proof (rule vc_bnd_using [where S = "\<lambda>r h'. \<forall>x. r = Inr x \<longrightarrow> h' = h @ [(Get K_Node [] i, opt_obj O_node x)]"])
    fix x h' assume "\<forall>y. (Inr x :: error + node option) = Inr y \<longrightarrow> h' = h @ [(Get K_Node [] i, opt_obj O_node y)]"
    then have h': "h' = h @ [(Get K_Node [] i, opt_obj O_node x)]" by simp
    show "vc (trigger_ok ctx) (case x of
        Some n \<Rightarrow> if node_id_of n = i then ret (Some n) else bnd list_nodes (\<lambda>all. ret (find (\<lambda>n. node_id_of n = i) all))
      | None \<Rightarrow> bnd list_nodes (\<lambda>all. ret (find (\<lambda>n. node_id_of n = i) all))) ?Q h'"
      unfolding h' using l by (cases x) (simp_all add: found_node_def)
  qed (auto simp: get_node_def vc_ask as_opt_Inr split: option.splits)
qed

lemma taint_condition_fresh_vc:
  "vc (trigger_ok ctx) (taint_condition_fresh ctx n handle)
     (\<lambda>r h'. r = Inr True \<longrightarrow> (\<forall>c. clear_calls n c \<longrightarrow> (\<forall>h0. h = h0 @ c \<longrightarrow> taint_seen ctx n h'))) h"
proof -
  let ?Q = "\<lambda>r h'. r = Inr True \<longrightarrow> (\<forall>c. clear_calls n c \<longrightarrow> (\<forall>h0. h = h0 @ c \<longrightarrow> taint_seen ctx n h'))"
  have get: "vc (trigger_ok ctx) (get_pv n) (\<lambda>r h'. \<forall>x. r = Inr x \<longrightarrow> h' = h @ [(Get K_PV [] n, opt_obj O_pv x)]) h"
    "vc (trigger_ok ctx) (get_zv ctx handle) (\<lambda>r h'. \<forall>x. r = Inr x \<longrightarrow> h' = g @ [(Get K_ZFSVolume (openebs_ns ctx) handle, opt_obj O_zv x)]) g" for g
    by (auto simp: call_defs vc_ask as_opt_Inr split: option.splits)
  have "vc (trigger_ok ctx) (taint_condition_checked ctx n handle) ?Q h"
    unfolding taint_condition_checked_def
  proof (rule vc_bnd_using [OF get(1)])
    fix pv_o h1 assume "\<forall>x. (Inr pv_o :: error + persistent_volume option) = Inr x \<longrightarrow> h1 = h @ [(Get K_PV [] n, opt_obj O_pv x)]"
    then have h1: "h1 = h @ [(Get K_PV [] n, opt_obj O_pv pv_o)]" by simp
    show "vc (trigger_ok ctx) (if \<not> has_handle handle pv_o then ret False
     else bnd (get_zv ctx handle) (\<lambda>zv_o. (case zv_o of
        None \<Rightarrow> ret False
      | Some zv \<Rightarrow> bnd (node_by_id (vi_owner_node_id (zv_spec zv))) (\<lambda>node_o. (case node_o of
           None \<Rightarrow> ret False
         | Some n \<Rightarrow> ret (node_has_evacuate_taint n (taint_key ctx))))))) ?Q h1"
    proof (cases "has_handle handle pv_o")
      case True
      then obtain pv where pv: "pv_o = Some pv" by (cases pv_o) (auto simp: has_handle_def)
      have "vc (trigger_ok ctx) (bnd (get_zv ctx handle) (\<lambda>zv_o. (case zv_o of
        None \<Rightarrow> ret False
      | Some zv \<Rightarrow> bnd (node_by_id (vi_owner_node_id (zv_spec zv))) (\<lambda>node_o. (case node_o of
           None \<Rightarrow> ret False
         | Some n \<Rightarrow> ret (node_has_evacuate_taint n (taint_key ctx))))))) ?Q h1"
      proof (rule vc_bnd_using [OF get(2)])
        fix zv_o h2 assume "\<forall>x. (Inr zv_o :: error + zfs_volume option) = Inr x \<longrightarrow> h2 = h1 @ [(Get K_ZFSVolume (openebs_ns ctx) handle, opt_obj O_zv x)]"
        then have h2: "h2 = h1 @ [(Get K_ZFSVolume (openebs_ns ctx) handle, opt_obj O_zv zv_o)]" by simp
        show "vc (trigger_ok ctx) (case zv_o of
            None \<Rightarrow> ret False
          | Some zv \<Rightarrow> bnd (node_by_id (vi_owner_node_id (zv_spec zv))) (\<lambda>node_o. (case node_o of
               None \<Rightarrow> ret False
             | Some n \<Rightarrow> ret (node_has_evacuate_taint n (taint_key ctx))))) ?Q h2"
        proof (cases zv_o)
          case (Some zv)
          have "vc (trigger_ok ctx) (bnd (node_by_id (vi_owner_node_id (zv_spec zv))) (\<lambda>node_o. (case node_o of
               None \<Rightarrow> ret False
             | Some n \<Rightarrow> ret (node_has_evacuate_taint n (taint_key ctx))))) ?Q h2"
          proof (rule vc_bnd_using [OF node_by_id_vc])
            fix node_o h3 assume n: "\<forall>nd. (Inr node_o :: error + node option) = Inr (Some nd) \<longrightarrow>
                (\<exists>t. h3 = h2 @ t \<and> found_node (vi_owner_node_id (zv_spec zv)) nd t)"
            show "vc (trigger_ok ctx) (case node_o of None \<Rightarrow> ret False | Some n \<Rightarrow> ret (node_has_evacuate_taint n (taint_key ctx))) ?Q h3"
            proof (cases node_o)
              case (Some nd)
              with n obtain t where t: "h3 = h2 @ t" "found_node (vi_owner_node_id (zv_spec zv)) nd t" by auto
              have "taint_seen ctx n h3" if "node_has_evacuate_taint nd (taint_key ctx)" "clear_calls n c" "h = h0 @ c" for h0 c
                using taint_seenI [OF that(2) True [unfolded pv] t(2) that(1), of h0]
                unfolding t(1) h2 h1 \<open>zv_o = Some zv\<close> pv that(3) by (simp only: opt_obj_simps)
              with Some show ?thesis by auto
            qed simp
          qed simp
          with Some show ?thesis by simp
        qed simp
      qed simp
      with True show ?thesis by simp
    qed simp
  qed simp
  then show ?thesis
    unfolding taint_condition_fresh_def vc_try_with by (rule vc_conseq) (auto split: sum.splits)
qed

section \<open>Every tick\<close>

lemma create_evacuation_vc:
  "(trig = Annotation \<and> mode = WhenIdle \<and> annotation_seen n h \<or> trig = NodeTaint \<and> mode = WhenClaimed \<and> taint_seen ctx n h)
     \<Longrightarrow> safe (trigger_ok ctx) (create_evacuation n trig mode) h"
  unfolding create_evacuation_def safe_def by (auto simp: trigger_ok_def)

lemma safe_create_when:
  assumes "\<And>c. clear_calls n c \<Longrightarrow> vc (trigger_ok ctx) fresh (\<lambda>r h'. r = Inr True \<longrightarrow> safe (trigger_ok ctx) create h') (h @ c)"
  shows "safe (trigger_ok ctx) (create_when (clear_for_creation n) fresh create) h"
  unfolding create_when_def
proof (rule safe_bnd_vc [OF clear_for_creation_vc])
  fix c h' assume c: "(Inr c :: error + bool) = Inr True \<longrightarrow> (\<exists>t. h' = h @ t \<and> clear_calls n t)"
  show "safe (trigger_ok ctx) (if \<not> c then ret () else bnd fresh (\<lambda>f. if f then create else ret ())) h'"
  proof (cases c)
    case True
    with c obtain t where t: "h' = h @ t" "clear_calls n t" by auto
    have "safe (trigger_ok ctx) (bnd fresh (\<lambda>f. if f then create else ret ())) h'"
      unfolding t(1) by (rule safe_bnd_vc [OF assms [OF t(2)]]) (simp add: safe_Done)
    with True show ?thesis by simp
  qed (simp add: safe_Done)
qed

lemma safe_annotated_pv: "safe (trigger_ok ctx) (annotated_pv pv) h"
proof -
  let ?n = "name_any (pv_meta pv)"
  have "safe (trigger_ok ctx) (create_when (clear_for_creation ?n) (annotation_condition_fresh ?n) (create_evacuation ?n Annotation WhenIdle)) h"
  proof (rule safe_create_when [where n = ?n])
    fix c assume c: "clear_calls ?n c"
    show "vc (trigger_ok ctx) (annotation_condition_fresh ?n)
        (\<lambda>r h'. r = Inr True \<longrightarrow> safe (trigger_ok ctx) (create_evacuation ?n Annotation WhenIdle) h') (h @ c)"
    proof (rule vc_conseq [OF annotation_condition_fresh_vc], rule impI)
      fix r :: "error + bool" and h' assume "r = Inr True \<longrightarrow>
          (\<exists>pv. h' = (h @ c) @ [(Get K_PV [] ?n, R_obj (O_pv pv))] \<and> wants_evacuation pv)" "r = Inr True"
      then obtain pv' where p: "h' = h @ c @ [(Get K_PV [] ?n, R_obj (O_pv pv'))]" "wants_evacuation pv'" by auto
      then have "annotation_seen ?n h'" unfolding annotation_seen_def using c by blast
      then show "safe (trigger_ok ctx) (create_evacuation ?n Annotation WhenIdle) h'"
        by (intro create_evacuation_vc) simp
    qed
  qed
  then show ?thesis unfolding annotated_pv_def Let_def by (simp add: safe_Done)
qed

lemma safe_tainted_volume: "safe (trigger_ok ctx) (tainted_volume ctx ids by_handle zv) h"
proof -
  have "safe (trigger_ok ctx) (create_when (clear_for_creation n) (taint_condition_fresh ctx n handle) (create_evacuation n NodeTaint WhenClaimed)) h"
    for n handle
  proof (rule safe_create_when [where n = n])
    fix c assume c: "clear_calls n c"
    show "vc (trigger_ok ctx) (taint_condition_fresh ctx n handle)
        (\<lambda>r h'. r = Inr True \<longrightarrow> safe (trigger_ok ctx) (create_evacuation n NodeTaint WhenClaimed) h') (h @ c)"
      by (rule vc_conseq [OF taint_condition_fresh_vc]) (use c in \<open>auto intro: create_evacuation_vc\<close>)
  qed
  then show ?thesis unfolding tainted_volume_def Let_def by (auto intro: safe_Done split: option.split)
qed

lemma safe_for_each: "(\<And>x h. safe G (f x) h) \<Longrightarrow> safe G (for_each xs f) h"
  by (induction xs arbitrary: h) (auto intro: safe_Done safe_bnd)

lemma safe_tick: "safe (trigger_ok ctx) (tick ctx) h"
proof -
  have reads: "safe (trigger_ok ctx) list_pvs h'" "safe (trigger_ok ctx) list_nodes h'" "safe (trigger_ok ctx) (list_zvs ctx) h'" for h'
    by (simp_all add: call_defs safe_def vc_ask)
  show ?thesis
    unfolding tick_def Let_def
    by (intro safe_bnd [OF reads(1)] safe_bnd [OF reads(2)] safe_bnd [OF reads(3)] safe_bnd [OF safe_for_each]
        safe_annotated_pv safe_ifI safe_Done safe_for_each safe_tainted_volume)
qed

lemma safe_try_with:
  assumes "safe G p h" and "\<And>r h'. safe G (f r) h'"
  shows "safe G (try_with p f) h"
  using assms unfolding safe_def vc_try_with by (auto intro: vc_conseq)

lemma safe_trigger_rounds: "safe (trigger_ok ctx) (trigger_rounds n ctx) h"
  by (induction n arbitrary: h) (auto intro: safe_Done safe_try_with safe_tick)

end
