(* ===== verification/Leader_Lease.thy ===== *)
theory Leader_Lease
  imports Trace_Rules
begin

text \<open>
  Leader election (\<open>src/src/leader.rs\<close>): one attempt to take or renew the lease, as a program over
  the API, and the renewal loop that ends the process when it can no longer prove that it leads.
\<close>

section \<open>One attempt\<close>

definition LEASE_NAME :: string where "LEASE_NAME = ''zfs-evacuation-controller''"
definition LEASE_DURATION_SECS :: "32 word" where "LEASE_DURATION_SECS = 30"
definition RENEW_EVERY :: nat where "RENEW_EVERY = 10"

definition default_lease_spec :: lease_spec where
  "default_lease_spec = \<lparr>ls_holder_identity = None, ls_lease_duration_seconds = None, ls_acquire_time = None,
     ls_renew_time = None, ls_lease_transitions = None, ls_others = []\<rparr>"

text \<open>A timestamp to the second, the reading \<open>as_second\<close> makes of it.\<close>

definition now_micro :: "int prog" where
  "now_micro = bnd now (\<lambda>t. ret (int (t div 10 ^ 9)))"

definition get_lease :: "string \<Rightarrow> lease option prog" where
  "get_lease ns = ask (Get K_Lease ns LEASE_NAME) (as_opt un_lease)"

definition new_lease :: "string \<Rightarrow> int \<Rightarrow> int \<Rightarrow> lease" where
  "new_lease identity acquired renewed = \<lparr>
     le_meta = named_meta LEASE_NAME,
     le_spec = Some (default_lease_spec\<lparr>
       ls_holder_identity := Some identity,
       ls_lease_duration_seconds := Some LEASE_DURATION_SECS,
       ls_acquire_time := Some acquired,
       ls_renew_time := Some renewed,
       ls_lease_transitions := Some 0\<rparr>)\<rparr>"

definition lease_spec_of :: "lease \<Rightarrow> lease_spec" where
  "lease_spec_of l = unwrap_or (le_spec l) default_lease_spec"

definition holder_of :: "lease \<Rightarrow> string" where
  "holder_of l = unwrap_or (ls_holder_identity (lease_spec_of l)) []"

definition expired_at :: "lease \<Rightarrow> int \<Rightarrow> bool" where
  "expired_at l n = (case ls_renew_time (lease_spec_of l) of
     None \<Rightarrow> True
   | Some t \<Rightarrow> n - t > sint (unwrap_or (ls_lease_duration_seconds (lease_spec_of l)) LEASE_DURATION_SECS))"

text \<open>The clock is read only when there is a renew time to compare with.\<close>

definition lease_expired :: "lease \<Rightarrow> bool prog" where
  "lease_expired l = (case ls_renew_time (lease_spec_of l) of
     None \<Rightarrow> ret True
   | Some _ \<Rightarrow> bnd now_micro (\<lambda>n. ret (expired_at l n)))"

text \<open>The update of the observed lease; its metadata, the resource version included, is kept.\<close>

definition taken_over :: "lease_spec \<Rightarrow> int \<Rightarrow> lease_spec" where
  "taken_over s n = s\<lparr>ls_lease_transitions := Some (unwrap_or (ls_lease_transitions s) 0 + 1), ls_acquire_time := Some n\<rparr>"

definition renewed :: "lease \<Rightarrow> lease_spec \<Rightarrow> string \<Rightarrow> int \<Rightarrow> lease" where
  "renewed l s identity n = l\<lparr>le_spec := Some (s\<lparr>ls_holder_identity := Some identity,
     ls_lease_duration_seconds := Some LEASE_DURATION_SECS, ls_renew_time := Some n\<rparr>)\<rparr>"

definition create_lease :: "string \<Rightarrow> string \<Rightarrow> bool prog" where
  "create_lease ns identity =
     bnd now_micro (\<lambda>acquired. bnd now_micro (\<lambda>renew.
     Call (Create K_Lease ns (O_lease (new_lease identity acquired renew))) (\<lambda>a. (case a of
       R_err e \<Rightarrow> if is_conflict e then ret False else throw (E_ctx ''creating lease'' (E_kube e))
     | _ \<Rightarrow> ret True))))"

definition put_lease :: "string \<Rightarrow> string \<Rightarrow> lease \<Rightarrow> lease_spec \<Rightarrow> bool prog" where
  "put_lease ns identity lease s =
     bnd now_micro (\<lambda>n.
     Call (Replace K_Lease ns LEASE_NAME (O_lease (renewed lease s identity n))) (\<lambda>a. (case a of
       R_err e \<Rightarrow>
         if is_conflict e \<and> holder_of lease = identity then throw (E_msg ''conflict renewing own lease'')
         else if is_conflict e then ret False
         else throw (E_ctx ''renewing lease'' (E_kube e))
     | _ \<Rightarrow> ret True)))"

definition base_spec :: "string \<Rightarrow> lease \<Rightarrow> lease_spec prog" where
  "base_spec identity lease =
     (if holder_of lease \<noteq> identity
      then bnd now_micro (\<lambda>n. ret (taken_over (lease_spec_of lease) n))
      else ret (lease_spec_of lease))"

definition update_lease :: "string \<Rightarrow> string \<Rightarrow> lease \<Rightarrow> bool prog" where
  "update_lease ns identity lease =
     bnd (lease_expired lease) (\<lambda>expired.
     if holder_of lease \<noteq> identity \<and> \<not> expired then ret False
     else bnd (base_spec identity lease) (put_lease ns identity lease))"

definition try_acquire :: "string \<Rightarrow> string \<Rightarrow> bool prog" where
  "try_acquire ns identity = bnd (get_lease ns) (\<lambda>o1. (case o1 of
     None \<Rightarrow> create_lease ns identity
   | Some lease \<Rightarrow> update_lease ns identity lease))"

section \<open>The acquisition loop\<close>

text \<open>
  \<open>run\<close> tries until it holds the lease, sleeping between attempts whether they failed or were
  refused; here it gives up after the fuel, which \<open>None\<close> reports.
\<close>

fun acquire_loop :: "nat \<Rightarrow> string \<Rightarrow> string \<Rightarrow> unit option prog" where
  "acquire_loop 0 ns identity = ret None"
| "acquire_loop (Suc n) ns identity = try_with (try_acquire ns identity) (\<lambda>r. (case r of
     Inr True \<Rightarrow> ret (Some ())
   | _ \<Rightarrow> acquire_loop n ns identity))"

section \<open>The renewal loop\<close>

text \<open>
  One round of the background task: \<open>t\<close> is the monotonic clock, in nanoseconds, when the attempt
  has returned. \<open>None\<close> is the exit of the process; the state is the time of the last renewal.
\<close>

definition renew_step :: "nat \<Rightarrow> nat \<times> (error + bool) \<Rightarrow> nat option" where
  "renew_step last_renewed x = (case x of (t, r) \<Rightarrow> (case r of
     Inr True \<Rightarrow> Some t
   | Inr False \<Rightarrow> None
   | Inl e \<Rightarrow> if (word_of_nat ((t - last_renewed) div 10 ^ 9) :: u64) > ucast LEASE_DURATION_SECS then None
              else Some last_renewed))"

fun renew_rounds :: "nat \<Rightarrow> (nat \<times> (error + bool)) list \<Rightarrow> nat option" where
  "renew_rounds last_renewed [] = Some last_renewed"
| "renew_rounds last_renewed (x # xs) = (case renew_step last_renewed x of
     None \<Rightarrow> None | Some l \<Rightarrow> renew_rounds l xs)"

section \<open>Who may write the lease\<close>

text \<open>
  The lease is written only by the process that holds it in the lease just read, or after a lease
  that is expired by the clock; and what is written names this process, with the duration of the
  source and a renew time.
\<close>

definition names :: "string \<Rightarrow> lease \<Rightarrow> bool" where
  "names me l \<longleftrightarrow> holder_of l = me \<and> ls_lease_duration_seconds (lease_spec_of l) = Some LEASE_DURATION_SECS
     \<and> ls_renew_time (lease_spec_of l) \<noteq> None"

definition lease_write_ok :: "string \<Rightarrow> string \<Rightarrow> trace \<Rightarrow> req \<Rightarrow> bool" where
  "lease_write_ok ns me h q \<longleftrightarrow> (case q of
     Get k n' x \<Rightarrow> k = K_Lease
   | Now \<Rightarrow> True
   | Create k n' x \<Rightarrow> k = K_Lease \<and> n' = ns \<and> (Get K_Lease ns LEASE_NAME, R_none) \<in> set h
       \<and> (\<exists>l. x = O_lease l \<and> names me l)
   | Replace k n' n x \<Rightarrow> k = K_Lease \<and> n' = ns \<and> n = LEASE_NAME
       \<and> (\<exists>l l'. x = O_lease l' \<and> (Get K_Lease ns LEASE_NAME, R_obj (O_lease l)) \<in> set h
            \<and> names me l' \<and> le_meta l' = le_meta l
            \<and> (holder_of l = me \<or> ls_renew_time (lease_spec_of l) = None
                 \<or> (\<exists>t. (Now, t) \<in> set h \<and> expired_at l (int (of_time t div 10 ^ 9)))))
   | _ \<Rightarrow> False)"

lemma lease_write_ok_reads [simp]: "lease_write_ok ns me h (Get K_Lease n x)" "lease_write_ok ns me h Now"
  by (simp_all add: lease_write_ok_def)

lemma names_written [simp]:
  "names me (new_lease me a b)" "names me (renewed l s me n)" "le_meta (renewed l s me n) = le_meta l"
  by (simp_all add: names_def holder_of_def lease_spec_of_def new_lease_def renewed_def)

text \<open>The lease is ours after a write that was not refused, and it is the last call.\<close>

definition lease_written :: "string \<Rightarrow> trace \<Rightarrow> bool" where
  "lease_written ns h \<longleftrightarrow> (\<exists>h0 q a. h = h0 @ [(q, a)] \<and> (\<forall>e. a \<noteq> R_err e)
     \<and> ((\<exists>x. q = Create K_Lease ns x) \<or> (\<exists>x. q = Replace K_Lease ns LEASE_NAME x)))"

definition may_take :: "string \<Rightarrow> lease \<Rightarrow> trace \<Rightarrow> bool" where
  "may_take me l h \<longleftrightarrow> holder_of l = me \<or> ls_renew_time (lease_spec_of l) = None
     \<or> (\<exists>t. (Now, t) \<in> set h \<and> expired_at l (int (of_time t div 10 ^ 9)))"

lemma may_take_mono: "may_take me l h \<Longrightarrow> may_take me l (h @ t)"
  by (auto simp: may_take_def)

lemma vc_create_lease:
  assumes "(Get K_Lease ns LEASE_NAME, R_none) \<in> set h"
  shows "vc (lease_write_ok ns me) (create_lease ns me) (\<lambda>r h'. r = Inr True \<longrightarrow> lease_written ns h') h"
  using assms
  by (auto simp: create_lease_def now_micro_def now_def vc_bnd vc_ask on_ok_def lease_write_ok_def lease_written_def
      split: resp.split)

lemma vc_put_lease:
  assumes "(Get K_Lease ns LEASE_NAME, R_obj (O_lease l)) \<in> set h" and "may_take me l h"
  shows "vc (lease_write_ok ns me) (put_lease ns me l s) (\<lambda>r h'. r = Inr True \<longrightarrow> lease_written ns h') h"
proof -
  have ok: "lease_write_ok ns me (h @ t) (Replace K_Lease ns LEASE_NAME (O_lease (renewed l s me n)))" for t n
    unfolding lease_write_ok_def req.case
    by (intro conjI refl exI [of _ l] exI [of _ "renewed l s me n"]) (use assms in \<open>auto simp: may_take_def\<close>)
  show ?thesis
    by (auto simp: put_lease_def now_micro_def now_def vc_bnd vc_ask on_ok_def ok lease_written_def split: resp.split)
qed

lemma vc_update_lease:
  assumes got: "(Get K_Lease ns LEASE_NAME, R_obj (O_lease l)) \<in> set h"
  shows "vc (lease_write_ok ns me) (update_lease ns me l) (\<lambda>r h'. r = Inr True \<longrightarrow> lease_written ns h') h"
proof -
  have base: "vc (lease_write_ok ns me) (base_spec me l) (\<lambda>_ h''. \<exists>t. h'' = h' @ t) h'" for h'
    by (auto simp: base_spec_def now_micro_def now_def vc_bnd vc_ask on_ok_def)
  have expired: "vc (lease_write_ok ns me) (lease_expired l) (\<lambda>r h'. \<exists>t. h' = h @ t \<and>
      (r = Inr True \<longrightarrow> may_take me l h')) h"
    by (auto simp: lease_expired_def may_take_def now_micro_def now_def vc_bnd vc_ask on_ok_def split: option.split)
  show ?thesis
    unfolding update_lease_def
  proof (rule vc_bnd_using [OF expired])
    fix x h' assume e: "\<exists>t. h' = h @ t \<and> ((Inr x :: error + bool) = Inr True \<longrightarrow> may_take me l h')"
    have "vc (lease_write_ok ns me) (bnd (base_spec me l) (put_lease ns me l)) (\<lambda>r h'. r = Inr True \<longrightarrow> lease_written ns h') h'"
      if "holder_of l = me \<or> x"
    proof (rule vc_bnd_using [OF base], rule vc_put_lease)
      fix s h'' assume "\<exists>t. h'' = h' @ t"
      with e that show "(Get K_Lease ns LEASE_NAME, R_obj (O_lease l)) \<in> set h''" "may_take me l h''"
        using got may_take_mono by (auto simp: may_take_def)
    qed simp
    then show "vc (lease_write_ok ns me) (if holder_of l \<noteq> me \<and> \<not> x then ret False
        else bnd (base_spec me l) (put_lease ns me l)) (\<lambda>r h'. r = Inr True \<longrightarrow> lease_written ns h') h'"
      by simp
  qed simp
qed

lemma try_acquire_vc:
  "vc (lease_write_ok ns me) (try_acquire ns me) (\<lambda>r h'. r = Inr True \<longrightarrow> lease_written ns h') h"
  unfolding try_acquire_def get_lease_def
proof (rule vc_bnd_using [where S = "\<lambda>r h'. \<forall>x. r = Inr x \<longrightarrow> h' = h @ [(Get K_Lease ns LEASE_NAME, opt_obj O_lease x)]"])
  fix o1 h1 assume "\<forall>x. (Inr o1 :: error + lease option) = Inr x \<longrightarrow> h1 = h @ [(Get K_Lease ns LEASE_NAME, opt_obj O_lease x)]"
  then have h1: "h1 = h @ [(Get K_Lease ns LEASE_NAME, opt_obj O_lease o1)]" by simp
  then show "vc (lease_write_ok ns me) (case o1 of None \<Rightarrow> create_lease ns me | Some lease \<Rightarrow> update_lease ns me lease)
      (\<lambda>r h'. r = Inr True \<longrightarrow> lease_written ns h') h1"
    by (cases o1) (simp_all add: vc_create_lease vc_update_lease)
qed (auto simp: vc_ask as_opt_Inr split: option.splits)

text \<open>
  So the lease is replaced only by a process that read it in this attempt and found itself its holder,
  or found it expired by the clock (or never renewed), with the metadata it read.
\<close>

lemma lease_writes: "runs (try_acquire ns me) (h @ (q, a) # t) \<Longrightarrow> lease_write_ok ns me h q"
proof (rule safe_runs)
  show "safe (lease_write_ok ns me) (try_acquire ns me) []"
    unfolding safe_def by (rule vc_conseq [OF try_acquire_vc]) simp
qed

lemma lease_taken_rightly:
  "runs (try_acquire ns me) (h @ (Replace k ns' n x, a) # t) \<Longrightarrow> k = K_Lease \<and> ns' = ns \<and> n = LEASE_NAME
     \<and> (\<exists>l l'. x = O_lease l' \<and> (Get K_Lease ns LEASE_NAME, R_obj (O_lease l)) \<in> set h
          \<and> names me l' \<and> le_meta l' = le_meta l
          \<and> (holder_of l = me \<or> ls_renew_time (lease_spec_of l) = None
               \<or> (\<exists>c. (Now, c) \<in> set h \<and> expired_at l (int (of_time c div 10 ^ 9)))))"
  by (drule lease_writes) (simp only: lease_write_ok_def req.case)

section \<open>How long an unrenewed process runs\<close>

text \<open>
  The process ends within 31 seconds of its last renewal, plus the time one round takes: the check is
  made only when an attempt returns, and on whole seconds.
\<close>

lemma secs_le: "n < 2 ^ 64 \<Longrightarrow> (word_of_nat n :: u64) > ucast LEASE_DURATION_SECS \<longleftrightarrow> 30 < n"
proof -
  assume "n < 2 ^ 64"
  then have "unat (word_of_nat n :: u64) = n" by (simp add: unat_of_nat take_bit_nat_eq_self)
  moreover have "unat (ucast LEASE_DURATION_SECS :: u64) = 30" by (simp add: LEASE_DURATION_SECS_def)
  ultimately show ?thesis by (simp add: word_less_nat_alt)
qed

lemma renew_step_Some:
  assumes "renew_step s (t, r) = Some l" and "t < 2 ^ 64"
  shows "l = t \<and> r = Inr True \<or> l = s \<and> (\<exists>e. r = Inl e) \<and> (t - s) div 10 ^ 9 \<le> 30"
proof (cases r)
  case (Inl e)
  have "(t - s) div 10 ^ 9 < 2 ^ 64" using assms(2) by simp
  from secs_le [OF this] show ?thesis using assms(1) Inl by (auto simp: renew_step_def split: if_splits)
next
  case (Inr b)
  then show ?thesis using assms(1) by (cases b) (simp_all add: renew_step_def)
qed

lemma renew_rounds_append:
  "renew_rounds s (xs @ ys) = (case renew_rounds s xs of None \<Rightarrow> None | Some l \<Rightarrow> renew_rounds l ys)"
  by (induction xs arbitrary: s) (simp_all split: option.split)

text \<open>A process still running after a round has renewed, or found its last renewal recent enough.\<close>

lemma renew_rounds_recent:
  assumes "renew_rounds s (xs @ [(t, r)]) = Some l" and "t < 2 ^ 64"
  shows "(l = t \<and> r = Inr True) \<or> (t - l) div 10 ^ 9 \<le> 30"
proof -
  obtain l' where "renew_step l' (t, r) = Some l"
    using assms(1) by (auto simp: renew_rounds_append split: option.splits)
  from renew_step_Some [OF this assms(2)] show ?thesis by auto
qed

lemma renew_rounds_renewal:
  "renew_rounds s xs = Some l \<Longrightarrow> \<forall>x \<in> set xs. fst x < 2 ^ 64 \<Longrightarrow> l = s \<or> (l, Inr True) \<in> set xs"
proof (induction xs arbitrary: s)
  case (Cons x xs)
  obtain t r where x: "x = (t, r)" by (cases x)
  obtain l' where l': "renew_step s (t, r) = Some l'" "renew_rounds l' xs = Some l"
    using Cons.prems(1) by (auto simp: x split: option.splits)
  have "t < 2 ^ 64" using Cons.prems(2) x by simp
  from renew_step_Some [OF l'(1) this] Cons.IH [OF l'(2)] Cons.prems(2) show ?case by (auto simp: x)
qed simp

text \<open>How late that is: three failed renewals, and the fourth ends the process.\<close>

lemma fence_is_late:
  "renew_rounds 0 [(10 * 10 ^ 9, Inl e), (20 * 10 ^ 9, Inl e), (30 * 10 ^ 9, Inl e)] = Some 0
   \<and> renew_rounds 0 [(10 * 10 ^ 9, Inl e), (20 * 10 ^ 9, Inl e), (30 * 10 ^ 9, Inl e), (40 * 10 ^ 9, Inl e)] = None
   \<and> expired_at (new_lease me 0 0) 31 \<and> \<not> expired_at (new_lease me 0 0) 30"
  by (simp add: renew_step_def LEASE_DURATION_SECS_def word_less_nat_alt unat_of_nat expired_at_def lease_spec_of_def new_lease_def)

end
