(* ===== verification/Startup.thy ===== *)
theory Startup
  imports Leader_Lease Trigger_Loop
begin

text \<open>
  The process (\<open>src/src/main.rs\<close>): the configuration read from the environment, the identity for
  leader election, the order of the start (configuration, leadership, then the loops), the flag that
  only prints the CRDs, and the task that supervises the trigger. The environment is a map; the text
  of the CRDs, logging and the wiring of the runtime are not modelled.
\<close>

definition env_or :: "(string \<rightharpoonup> string) \<Rightarrow> string \<Rightarrow> string \<Rightarrow> string" where
  "env_or env k d = unwrap_or (env k) d"

definition config_from_env :: "(string \<rightharpoonup> string) \<Rightarrow> error + config" where
  "config_from_env env =
     (case env ''POD_IP'' of
        None \<Rightarrow> Inl (E_ctx ''POD_IP must be set (downward API)'' (E_msg ''environment variable not found''))
      | Some ip \<Rightarrow> Inr \<lparr>cfg_openebs_ns = env_or env ''OPENEBS_NAMESPACE'' ''openebs'',
          cfg_pod_ip = ip,
          cfg_pod_namespace = env_or env ''POD_NAMESPACE'' ''zfs-evacuation-system'',
          cfg_stall_seconds = (case Option.bind (env ''TRANSFER_STALL_SECONDS'') (parse_unsigned 64) of
            None \<Rightarrow> 120 | Some n \<Rightarrow> word_of_nat n),
          cfg_taint_key = env_or env ''EVACUATE_TAINT_KEY'' ''zfsevac.alumino.us/evacuate''\<rparr>)"

definition identity_of :: "(string \<rightharpoonup> string) \<Rightarrow> nat \<Rightarrow> string" where
  "identity_of env pid = (case env ''POD_NAME'' of
     Some n \<Rightarrow> n
   | None \<Rightarrow> (case env ''HOSTNAME'' of Some n \<Rightarrow> n | None \<Rightarrow> ''zfs-evac-'' @ dec pid))"

text \<open>
  Up to the loops: \<open>None\<close> when leadership was not gained within the fuel. The reconciler and the trigger
  start with the context this returns.
\<close>

definition startup :: "libs \<Rightarrow> nat \<Rightarrow> (string \<rightharpoonup> string) \<Rightarrow> nat \<Rightarrow> ctx option prog" where
  "startup libs fuel env pid =
     bnd (Done (config_from_env env)) (\<lambda>cfg.
     bnd (acquire_loop fuel (cfg_pod_namespace cfg) (identity_of env pid)) (\<lambda>o1.
       ret (map_option (\<lambda>_. \<lparr>c_cfg = cfg, c_libs = libs\<rparr>) o1)))"

text \<open>The process: with the flag it prints the CRDs and ends, before it reads or contacts anything.\<close>

definition print_crds :: "string list \<Rightarrow> bool" where
  "print_crds args = list_ex (\<lambda>a. a = ''--print-crds'') args"

definition main_start :: "libs \<Rightarrow> string list \<Rightarrow> nat \<Rightarrow> (string \<rightharpoonup> string) \<Rightarrow> nat \<Rightarrow> ctx option prog" where
  "main_start libs args fuel env pid = (if print_crds args then ret None else startup libs fuel env pid)"

text \<open>
  The trigger's supervisor, cut after \<open>n\<close> starts of the trigger that run \<open>k\<close> rounds each; it sleeps 5
  seconds between them.
\<close>

primrec trigger_task :: "nat \<Rightarrow> nat \<Rightarrow> ctx \<Rightarrow> unit prog" where
  "trigger_task 0 k ctx = ret ()"
| "trigger_task (Suc n) k ctx = try_with (trigger_rounds k ctx) (\<lambda>_. trigger_task n k ctx)"

lemma safe_trigger_task: "safe (trigger_ok ctx) (trigger_task n k ctx) h"
  by (induction n arbitrary: h) (auto intro: safe_Done safe_try_with safe_trigger_rounds)

lemma config_from_env_iff: "(\<exists>c. config_from_env env = Inr c) \<longleftrightarrow> env ''POD_IP'' \<noteq> None"
  by (auto simp: config_from_env_def split: option.split)

lemma config_ip: "config_from_env env = Inr c \<Longrightarrow> env ''POD_IP'' = Some (cfg_pod_ip c)"
  by (auto simp: config_from_env_def split: option.splits)

text \<open>A stall limit that is missing or not a number in range is the default, never an error.\<close>

lemma stall_default:
  "config_from_env env = Inr c \<Longrightarrow> Option.bind (env ''TRANSFER_STALL_SECONDS'') (parse_unsigned 64) = None
     \<Longrightarrow> cfg_stall_seconds c = 120"
  by (auto simp: config_from_env_def split: option.splits)

text \<open>No loop starts before this process has written the lease.\<close>

lemma acquire_loop_post:
  "vc (\<lambda>_ _. True) (acquire_loop fuel ns me) (\<lambda>r h'. r = Inr (Some ()) \<longrightarrow> lease_written ns h') h"
proof (induction fuel arbitrary: h)
  case (Suc n)
  have "vc (\<lambda>_ _. True) (try_acquire ns me) (\<lambda>r h'. r = Inr True \<longrightarrow> lease_written ns h') h"
    by (rule vc_mono [OF try_acquire_vc]) simp_all
  then show ?case
    unfolding acquire_loop.simps vc_try_with
    by (rule vc_conseq) (use Suc.IH in \<open>auto split: sum.split bool.split\<close>)
qed simp

lemma startup_leads:
  "vc (\<lambda>_ _. True) (startup libs fuel env pid)
     (\<lambda>r h'. \<forall>ctx. r = Inr (Some ctx) \<longrightarrow> config_from_env env = Inr (c_cfg ctx) \<and> lease_written (cfg_pod_namespace (c_cfg ctx)) h') h"
proof (cases "config_from_env env")
  case (Inr cfg)
  show ?thesis
    unfolding startup_def Inr bnd.simps sum.case
    by (rule vc_bnd_using [OF acquire_loop_post]) (auto simp: Inr)
qed (simp add: startup_def)

lemma main_start_leads:
  "vc (\<lambda>_ _. True) (main_start libs args fuel env pid)
     (\<lambda>r h'. \<forall>ctx. r = Inr (Some ctx) \<longrightarrow> \<not> print_crds args
        \<and> config_from_env env = Inr (c_cfg ctx) \<and> lease_written (cfg_pod_namespace (c_cfg ctx)) h') h"
proof (cases "print_crds args")
  case False
  then show ?thesis unfolding main_start_def by (auto intro: vc_conseq [OF startup_leads])
qed (simp add: main_start_def)

end
