(* ===== verification/Relay_Splice.thy ===== *)
theory Relay_Splice
  imports Relay_Net "HOL-Library.Sublist"
begin

text \<open>
  The relay task (\<open>src/src/transfer/relay.rs\<close>): accept the source, pump it into a bounded queue,
  accept the target, drain the queue into it. Two tasks run concurrently, the reader and the
  main one; an event is one step of either of them, with what the network did at that step. The
  source's stream is whatever it sends before it closes: \<open>sp_unread\<close> is the part not yet read.
\<close>

section \<open>State and steps\<close>

definition CHUNK :: nat where "CHUNK = 256 * 1024"
definition BUFFER_CHUNKS :: nat where "BUFFER_CHUNKS = 256"

datatype reader =
    Not_started
  | Reading
  | Sending string                \<comment> \<open>a chunk read and not yet taken by the queue\<close>
  | Returned "error + unit"

datatype main_task =
    Accepting_source
  | Accepting_target
  | Draining "string option"      \<comment> \<open>the chunk being written\<close>
  | Finished "error + u64"
  | Aborted

record splice =
  sp_main :: main_task
  sp_reader :: reader
  sp_queue :: "string list"
  sp_unread :: string
  sp_delivered :: string
  sp_total :: u64
  sp_bytes :: u64
  sp_last_activity :: u64
  sp_source_connected :: bool
  sp_source_peer :: "ip_addr option"
  sp_target_peer :: "ip_addr option"

definition spawn :: "string \<Rightarrow> u64 \<Rightarrow> splice" where
  "spawn stream t = \<lparr>sp_main = Accepting_source, sp_reader = Not_started, sp_queue = [], sp_unread = stream,
     sp_delivered = [], sp_total = 0, sp_bytes = 0, sp_last_activity = t, sp_source_connected = False,
     sp_source_peer = None, sp_target_peer = None\<rparr>"

datatype relay_event =
    Dial_backup ip_addr u64
  | Dial_restore ip_addr u64
  | Listener_error error
  | Read nat u64                  \<comment> \<open>so many bytes; none is end of file\<close>
  | Read_error error
  | Send
  | Receive
  | Write_all u64
  | Write_error nat error         \<comment> \<open>the target took so many bytes of the chunk first\<close>
  | Closed
  | Abort

text \<open>The main task ends; dropping its locals aborts the reader.\<close>

definition finish_with :: "error + u64 \<Rightarrow> splice \<Rightarrow> splice" where
  "finish_with r s = s\<lparr>sp_main := Finished r\<rparr>"

definition ended :: "splice \<Rightarrow> bool" where
  "ended s = (case sp_main s of Finished _ \<Rightarrow> True | Aborted \<Rightarrow> True | _ \<Rightarrow> False)"

text \<open>\<open>None\<close>: the event cannot happen in this state.\<close>

fun splice_step :: "ip_net list \<Rightarrow> ip_net list \<Rightarrow> relay_event \<Rightarrow> splice \<Rightarrow> splice option" where
  "splice_step bps rps (Dial_backup peer t) s =
     (if sp_main s \<noteq> Accepting_source then None
      else if accepts bps peer
      then Some (s\<lparr>sp_main := Accepting_target, sp_reader := Reading, sp_last_activity := t,
                   sp_source_connected := True, sp_source_peer := Some peer\<rparr>)
      else Some s)"
| "splice_step bps rps (Dial_restore peer t) s =
     (if sp_main s \<noteq> Accepting_target then None
      else if accepts rps peer
      then Some (s\<lparr>sp_main := Draining None, sp_last_activity := t, sp_target_peer := Some peer\<rparr>)
      else Some s)"
| "splice_step bps rps (Listener_error e) s =
     (if sp_main s = Accepting_source \<or> sp_main s = Accepting_target then Some (finish_with (Inl e) s) else None)"
| "splice_step bps rps (Read n t) s =
     (if ended s \<or> sp_reader s \<noteq> Reading then None
      else if n = 0
      then (if sp_unread s = [] then Some (s\<lparr>sp_reader := Returned (Inr ())\<rparr>) else None)
      else if n \<le> CHUNK \<and> n \<le> length (sp_unread s)
      then Some (s\<lparr>sp_reader := Sending (take n (sp_unread s)), sp_unread := drop n (sp_unread s), sp_last_activity := t\<rparr>)
      else None)"
| "splice_step bps rps (Read_error e) s =
     (if ended s \<or> sp_reader s \<noteq> Reading then None
      else Some (s\<lparr>sp_reader := Returned (Inl (E_ctx ''relay read'' e))\<rparr>))"
| "splice_step bps rps Send s =
     (case sp_reader s of
        Sending c \<Rightarrow>
          if ended s \<or> BUFFER_CHUNKS \<le> length (sp_queue s) then None
          else Some (s\<lparr>sp_queue := sp_queue s @ [c], sp_reader := Reading\<rparr>)
      | _ \<Rightarrow> None)"
| "splice_step bps rps Receive s =
     (case (sp_main s, sp_queue s) of
        (Draining None, c # q) \<Rightarrow> Some (s\<lparr>sp_main := Draining (Some c), sp_queue := q\<rparr>)
      | _ \<Rightarrow> None)"
| "splice_step bps rps (Write_all t) s =
     (case sp_main s of
        Draining (Some c) \<Rightarrow>
          (let total = sp_total s + word_of_nat (length c) in
           Some (s\<lparr>sp_main := Draining None, sp_delivered := sp_delivered s @ c, sp_total := total,
                   sp_bytes := total, sp_last_activity := t\<rparr>))
      | _ \<Rightarrow> None)"
| "splice_step bps rps (Write_error n e) s =
     (case sp_main s of
        Draining (Some c) \<Rightarrow>
          Some (finish_with (Inl (E_ctx ''relay write'' e)) (s\<lparr>sp_delivered := sp_delivered s @ take n c\<rparr>))
      | _ \<Rightarrow> None)"
| "splice_step bps rps Closed s =
     (case (sp_main s, sp_queue s, sp_reader s) of
        (Draining None, [], Returned r) \<Rightarrow>
          Some (finish_with (case r of
             Inl e \<Rightarrow> Inl e
           | Inr _ \<Rightarrow> if sp_total s = 0 then Inl (E_msg ''relay stream closed with zero bytes transferred'')
                       else Inr (sp_total s)) s)
      | _ \<Rightarrow> None)"
| "splice_step bps rps Abort s = (if ended s then None else Some (s\<lparr>sp_main := Aborted\<rparr>))"

fun splice_run :: "ip_net list \<Rightarrow> ip_net list \<Rightarrow> relay_event list \<Rightarrow> splice \<Rightarrow> splice option" where
  "splice_run bps rps [] s = Some s"
| "splice_run bps rps (e # es) s = Option.bind (splice_step bps rps e s) (splice_run bps rps es)"

text \<open>What the state machine reads of the relay.\<close>

definition load_of :: "splice \<Rightarrow> relay_load" where
  "load_of s = \<lparr>rl_bytes = sp_bytes s, rl_last_activity = sp_last_activity s, rl_task_finished = ended s,
     rl_source_connected = sp_source_connected s\<rparr>"

section \<open>Reachable states\<close>

inductive spliced :: "ip_net list \<Rightarrow> ip_net list \<Rightarrow> string \<Rightarrow> splice \<Rightarrow> bool" for bps rps stream where
  spawned: "spliced bps rps stream (spawn stream t)"
| stepped: "spliced bps rps stream s \<Longrightarrow> splice_step bps rps e s = Some s' \<Longrightarrow> spliced bps rps stream s'"

lemma spliced_run: "splice_run bps rps es s = Some s' \<Longrightarrow> spliced bps rps stream s \<Longrightarrow> spliced bps rps stream s'"
proof (induction es arbitrary: s)
  case (Cons e es)
  then obtain s1 where "splice_step bps rps e s = Some s1" "splice_run bps rps es s1 = Some s'"
    by (auto split: Option.bind_splits)
  with Cons show ?case by (blast intro: spliced.stepped)
qed simp

section \<open>Accepting a peer\<close>

text \<open>
  \<open>accept_from\<close> as the code has it, on the connections a listener hands out one by one (\<open>Inl\<close>: the
  listener's error): who was accepted, or \<open>None\<close> while it still listens, and the activity time it
  leaves. The events of the step function play exactly the connections it looks at.
\<close>

fun accept_from :: "ip_net list \<Rightarrow> u64 \<Rightarrow> (error + ip_addr \<times> u64) list \<Rightarrow> (error + ip_addr) option \<times> u64" where
  "accept_from allowed la [] = (None, la)"
| "accept_from allowed la (Inl e # ds) = (Some (Inl e), la)"
| "accept_from allowed la (Inr (peer, t) # ds) =
     (if accepts allowed peer then (Some (Inr peer), t) else accept_from allowed la ds)"

definition dialled :: "(ip_addr \<Rightarrow> u64 \<Rightarrow> relay_event) \<Rightarrow> error + ip_addr \<times> u64 \<Rightarrow> relay_event" where
  "dialled dial d = (case d of Inl e \<Rightarrow> Listener_error e | Inr (peer, t) \<Rightarrow> dial peer t)"

lemma accept_from_source:
  "sp_main s = Accepting_source \<Longrightarrow> accept_from bps (sp_last_activity s) ds = (r, t) \<Longrightarrow>
   \<exists>k \<le> length ds. splice_run bps rps (map (dialled Dial_backup) (take k ds)) s = Some (case r of
       None \<Rightarrow> s
     | Some (Inl e) \<Rightarrow> finish_with (Inl e) s
     | Some (Inr peer) \<Rightarrow> s\<lparr>sp_main := Accepting_target, sp_reader := Reading, sp_last_activity := t,
         sp_source_connected := True, sp_source_peer := Some peer\<rparr>)"
proof (induction bps "sp_last_activity s" ds rule: accept_from.induct)
  case (2 allowed e ds)
  then show ?case by (intro exI [of _ 1]) (auto simp: dialled_def)
next
  case (3 allowed peer t' ds)
  show ?case
  proof (cases "accepts allowed peer")
    case True
    with 3 show ?thesis by (intro exI [of _ 1]) (auto simp: dialled_def)
  next
    case False
    with 3 obtain k where "k \<le> length ds" "splice_run allowed rps (map (dialled Dial_backup) (take k ds)) s = Some (case r of
       None \<Rightarrow> s
     | Some (Inl e) \<Rightarrow> finish_with (Inl e) s
     | Some (Inr peer) \<Rightarrow> s\<lparr>sp_main := Accepting_target, sp_reader := Reading, sp_last_activity := t,
         sp_source_connected := True, sp_source_peer := Some peer\<rparr>)" by auto
    with False 3(2) show ?thesis by (intro exI [of _ "Suc k"]) (simp add: dialled_def)
  qed
qed auto

lemma accept_from_target:
  "sp_main s = Accepting_target \<Longrightarrow> accept_from rps (sp_last_activity s) ds = (r, t) \<Longrightarrow>
   \<exists>k \<le> length ds. splice_run bps rps (map (dialled Dial_restore) (take k ds)) s = Some (case r of
       None \<Rightarrow> s
     | Some (Inl e) \<Rightarrow> finish_with (Inl e) s
     | Some (Inr peer) \<Rightarrow> s\<lparr>sp_main := Draining None, sp_last_activity := t, sp_target_peer := Some peer\<rparr>)"
proof (induction rps "sp_last_activity s" ds rule: accept_from.induct)
  case (2 allowed e ds)
  then show ?case by (intro exI [of _ 1]) (auto simp: dialled_def)
next
  case (3 allowed peer t' ds)
  show ?case
  proof (cases "accepts allowed peer")
    case True
    with 3 show ?thesis by (intro exI [of _ 1]) (auto simp: dialled_def)
  next
    case False
    with 3 obtain k where "k \<le> length ds" "splice_run bps allowed (map (dialled Dial_restore) (take k ds)) s = Some (case r of
       None \<Rightarrow> s
     | Some (Inl e) \<Rightarrow> finish_with (Inl e) s
     | Some (Inr peer) \<Rightarrow> s\<lparr>sp_main := Draining None, sp_last_activity := t, sp_target_peer := Some peer\<rparr>)" by auto
    with False 3(2) show ?thesis by (intro exI [of _ "Suc k"]) (simp add: dialled_def)
  qed
qed auto

section \<open>The stream\<close>

text \<open>The bytes on the way, in order: in the writer's hand, in the queue, in the reader's hand.\<close>

definition in_hand :: "splice \<Rightarrow> string" where
  "in_hand s = (case sp_main s of Draining (Some c) \<Rightarrow> c | _ \<Rightarrow> [])"

definition just_read :: "splice \<Rightarrow> string" where
  "just_read s = (case sp_reader s of Sending c \<Rightarrow> c | _ \<Rightarrow> [])"

definition on_the_way :: "splice \<Rightarrow> string" where
  "on_the_way s = in_hand s @ concat (sp_queue s) @ just_read s"

text \<open>The effect of every event, one case each.\<close>

lemma splice_step_cases [consumes 1, case_names
    refuse source target listener read eof read_error send receive wrote write_error closed abort]:
  assumes "splice_step bps rps e s = Some s'"
  obtains
    "s' = s"
  | peer t where "sp_main s = Accepting_source" "accepts bps peer"
      "s' = s\<lparr>sp_main := Accepting_target, sp_reader := Reading, sp_last_activity := t,
              sp_source_connected := True, sp_source_peer := Some peer\<rparr>"
  | peer t where "sp_main s = Accepting_target" "accepts rps peer"
      "s' = s\<lparr>sp_main := Draining None, sp_last_activity := t, sp_target_peer := Some peer\<rparr>"
  | err where "sp_main s = Accepting_source \<or> sp_main s = Accepting_target" "s' = s\<lparr>sp_main := Finished (Inl err)\<rparr>"
  | n t where "\<not> ended s" "sp_reader s = Reading" "0 < n" "n \<le> CHUNK" "n \<le> length (sp_unread s)"
      "s' = s\<lparr>sp_reader := Sending (take n (sp_unread s)), sp_unread := drop n (sp_unread s), sp_last_activity := t\<rparr>"
  | "\<not> ended s" "sp_reader s = Reading" "sp_unread s = []" "s' = s\<lparr>sp_reader := Returned (Inr ())\<rparr>"
  | err where "\<not> ended s" "sp_reader s = Reading" "s' = s\<lparr>sp_reader := Returned (Inl err)\<rparr>"
  | c where "\<not> ended s" "sp_reader s = Sending c" "length (sp_queue s) < BUFFER_CHUNKS"
      "s' = s\<lparr>sp_queue := sp_queue s @ [c], sp_reader := Reading\<rparr>"
  | c q where "sp_main s = Draining None" "sp_queue s = c # q" "s' = s\<lparr>sp_main := Draining (Some c), sp_queue := q\<rparr>"
  | c t where "sp_main s = Draining (Some c)"
      "s' = s\<lparr>sp_main := Draining None, sp_delivered := sp_delivered s @ c,
              sp_total := sp_total s + word_of_nat (length c), sp_bytes := sp_total s + word_of_nat (length c), sp_last_activity := t\<rparr>"
  | c n err where "sp_main s = Draining (Some c)"
      "s' = s\<lparr>sp_delivered := sp_delivered s @ take n c, sp_main := Finished (Inl err)\<rparr>"
  | r where "sp_main s = Draining None" "sp_queue s = []" "sp_reader s = Returned r"
      "s' = s\<lparr>sp_main := Finished (case r of Inl e \<Rightarrow> Inl e
         | Inr _ \<Rightarrow> if sp_total s = 0 then Inl (E_msg ''relay stream closed with zero bytes transferred'') else Inr (sp_total s))\<rparr>"
  | "\<not> ended s" "s' = s\<lparr>sp_main := Aborted\<rparr>"
proof (cases e)
  case (Dial_backup peer t)
  then show ?thesis using assms that(1,2) by (simp split: if_splits; metis not_less neq0_conv)
next
  case (Dial_restore peer t)
  then show ?thesis using assms that(1,3) by (simp split: if_splits; metis not_less neq0_conv)
next
  case (Listener_error err)
  then show ?thesis using assms that(4) by (simp add: finish_with_def split: if_splits; metis not_less neq0_conv)
next
  case (Read n t)
  then show ?thesis using assms that(5,6) by (simp split: if_splits; metis not_less neq0_conv)
next
  case (Read_error err)
  then show ?thesis using assms that(7) by (simp split: if_splits; metis not_less neq0_conv)
next
  case Send
  then show ?thesis using assms that(8) by (simp split: if_splits reader.splits; metis not_less neq0_conv)
next
  case Receive
  then show ?thesis using assms that(9) by (simp split: main_task.splits list.splits option.splits; metis not_less neq0_conv)
next
  case (Write_all t)
  then show ?thesis using assms that(10) by (simp add: Let_def split: main_task.splits option.splits; metis not_less neq0_conv)
next
  case (Write_error n err)
  then show ?thesis using assms that(11) by (simp add: finish_with_def split: main_task.splits option.splits; metis not_less neq0_conv)
next
  case Closed
  then show ?thesis using assms that(12) by (simp add: finish_with_def split: main_task.splits list.splits option.splits reader.splits; metis not_less neq0_conv)
next
  case Abort
  then show ?thesis using assms that(13) by (simp split: if_splits; metis not_less neq0_conv)
qed

definition chunk_ok :: "string \<Rightarrow> bool" where
  "chunk_ok c \<longleftrightarrow> c \<noteq> [] \<and> length c \<le> CHUNK"

text \<open>Where the bytes are, and who is connected.\<close>

definition stream_inv :: "string \<Rightarrow> splice \<Rightarrow> bool" where
  "stream_inv stream s \<longleftrightarrow> prefix (sp_delivered s) stream
   \<and> (\<not> ended s \<longrightarrow> sp_delivered s @ on_the_way s @ sp_unread s = stream \<and> sp_total s = word_of_nat (length (sp_delivered s)))
   \<and> (sp_reader s = Returned (Inr ()) \<longrightarrow> sp_unread s = [])
   \<and> (\<forall>n. sp_main s = Finished (Inr n) \<longrightarrow> sp_delivered s = stream \<and> n = word_of_nat (length stream) \<and> n \<noteq> 0)
   \<and> (\<not> ended s \<longrightarrow> (sp_main s = Accepting_source \<longleftrightarrow> sp_reader s = Not_started))"

definition buffer_inv :: "splice \<Rightarrow> bool" where
  "buffer_inv s \<longleftrightarrow> length (sp_queue s) \<le> BUFFER_CHUNKS
   \<and> list_all chunk_ok (sp_queue s)
   \<and> (\<forall>c. sp_reader s = Sending c \<longrightarrow> chunk_ok c) \<and> (\<forall>c. sp_main s = Draining (Some c) \<longrightarrow> chunk_ok c)"

definition peer_inv :: "ip_net list \<Rightarrow> ip_net list \<Rightarrow> splice \<Rightarrow> bool" where
  "peer_inv bps rps s \<longleftrightarrow>
     (sp_source_connected s \<longleftrightarrow> sp_source_peer s \<noteq> None)
   \<and> (\<forall>p. sp_source_peer s = Some p \<longrightarrow> accepts bps p) \<and> (\<forall>p. sp_target_peer s = Some p \<longrightarrow> accepts rps p)
   \<and> (sp_main s = Accepting_target \<or> (\<exists>c. sp_main s = Draining c) \<longrightarrow> sp_source_connected s)
   \<and> ((\<exists>c. sp_main s = Draining c) \<longrightarrow> sp_target_peer s \<noteq> None)
   \<and> (sp_bytes s \<noteq> 0 \<or> sp_delivered s \<noteq> [] \<longrightarrow> sp_source_peer s \<noteq> None \<and> sp_target_peer s \<noteq> None)
   \<and> ((\<exists>n. sp_main s = Finished (Inr n)) \<longrightarrow> sp_source_peer s \<noteq> None \<and> sp_target_peer s \<noteq> None)"

lemma stream_inv_step:
  assumes "splice_step bps rps e s = Some s'" and "stream_inv stream s"
  shows "stream_inv stream s'"
  using assms(1)
proof (cases rule: splice_step_cases)
  case (write_error c n err)
  have "sp_delivered s @ c @ concat (sp_queue s) @ just_read s @ sp_unread s = stream"
    using assms(2) write_error(1) by (simp add: stream_inv_def ended_def on_the_way_def in_hand_def)
  then have "(sp_delivered s @ take n c) @ (drop n c @ concat (sp_queue s) @ just_read s @ sp_unread s) = stream"
    by (metis append.assoc append_take_drop_id)
  then have "prefix (sp_delivered s @ take n c) stream" by (metis prefixI)
  then show ?thesis using assms(2) write_error by (simp add: stream_inv_def ended_def)
next
  case (wrote c t)
  have "sp_delivered s @ c @ concat (sp_queue s) @ just_read s @ sp_unread s = stream"
    using assms(2) wrote(1) by (simp add: stream_inv_def ended_def on_the_way_def in_hand_def)
  then have "prefix (sp_delivered s @ c) stream" by (metis append.assoc prefixI)
  then show ?thesis using assms(2) wrote
    by (simp add: stream_inv_def ended_def on_the_way_def in_hand_def just_read_def)
next
  case (closed r)
  then show ?thesis using assms(2)
    by (cases r) (auto simp: stream_inv_def ended_def on_the_way_def in_hand_def just_read_def)
qed (use assms(2) in \<open>auto simp: stream_inv_def ended_def on_the_way_def in_hand_def just_read_def split: main_task.splits\<close>)

lemma buffer_inv_step: "splice_step bps rps e s = Some s' \<Longrightarrow> buffer_inv s \<Longrightarrow> buffer_inv s'"
  by (cases rule: splice_step_cases, assumption) (auto simp: buffer_inv_def chunk_ok_def)

lemma peer_inv_step: "splice_step bps rps e s = Some s' \<Longrightarrow> peer_inv bps rps s \<Longrightarrow> peer_inv bps rps s'"
  by (cases rule: splice_step_cases, assumption) (auto simp: peer_inv_def split: sum.splits if_splits)

lemma spliced_inv:
  "spliced bps rps stream s \<Longrightarrow> stream_inv stream s \<and> buffer_inv s \<and> peer_inv bps rps s"
proof (induction rule: spliced.induct)
  case (spawned t)
  show ?case by (simp add: spawn_def stream_inv_def buffer_inv_def peer_inv_def on_the_way_def in_hand_def just_read_def)
next
  case (stepped s e s')
  then show ?case by (blast intro: stream_inv_step buffer_inv_step peer_inv_step)
qed

section \<open>Termination\<close>

text \<open>
  A relay does not run forever on a finite stream: every event but a refused connection brings
  the bytes, the chunks or the tasks closer to their end.
\<close>

definition main_rank :: "main_task \<Rightarrow> nat" where
  "main_rank m = (case m of Accepting_source \<Rightarrow> 4 | Accepting_target \<Rightarrow> 3 | Draining None \<Rightarrow> 1 | Draining (Some _) \<Rightarrow> 2
     | Finished _ \<Rightarrow> 0 | Aborted \<Rightarrow> 0)"

definition reader_rank :: "reader \<Rightarrow> nat" where
  "reader_rank r = (case r of Not_started \<Rightarrow> 1 | Reading \<Rightarrow> 1 | Sending _ \<Rightarrow> 4 | Returned _ \<Rightarrow> 0)"

definition relay_measure :: "splice \<Rightarrow> nat" where
  "relay_measure s = main_rank (sp_main s) + reader_rank (sp_reader s) + 2 * length (sp_queue s) + 4 * length (sp_unread s)"

lemma ended_iff: "ended s \<longleftrightarrow> (\<exists>r. sp_main s = Finished r) \<or> sp_main s = Aborted"
  by (simp add: ended_def split: main_task.split)

lemma relay_measure_decreases:
  assumes "splice_step bps rps e s = Some s'" and "stream_inv stream s"
  shows "s' = s \<or> relay_measure s' < relay_measure s"
  using assms(1)
proof (cases rule: splice_step_cases)
  case (abort)
  then have "0 < main_rank (sp_main s)" by (cases "sp_main s") (auto simp: ended_def main_rank_def split: option.split)
  with abort show ?thesis by (simp add: relay_measure_def main_rank_def)
next
  case (read n t)
  then show ?thesis by (auto simp: relay_measure_def reader_rank_def)
next
  case (source peer t)
  then have "sp_reader s = Not_started" using assms(2) by (simp add: stream_inv_def ended_def)
  with source show ?thesis by (simp add: relay_measure_def reader_rank_def main_rank_def)
qed (auto simp: relay_measure_def reader_rank_def main_rank_def)

text \<open>How many events of a run change the state.\<close>

fun changes :: "ip_net list \<Rightarrow> ip_net list \<Rightarrow> relay_event list \<Rightarrow> splice \<Rightarrow> nat" where
  "changes bps rps [] s = 0"
| "changes bps rps (e # es) s = (case splice_step bps rps e s of
     None \<Rightarrow> 0
   | Some s' \<Rightarrow> (if s' = s then 0 else 1) + changes bps rps es s')"

lemma changes_le: "splice_run bps rps es s = Some s' \<Longrightarrow> stream_inv stream s \<Longrightarrow> changes bps rps es s \<le> relay_measure s"
proof (induction es arbitrary: s)
  case (Cons e es)
  then obtain s1 where s1: "splice_step bps rps e s = Some s1" "splice_run bps rps es s1 = Some s'"
    by (auto split: Option.bind_splits)
  have "changes bps rps es s1 \<le> relay_measure s1" using Cons.IH [OF s1(2)] stream_inv_step [OF s1(1)] Cons.prems(2) by blast
  with relay_measure_decreases [OF s1(1) Cons.prems(2)] s1(1) show ?case by auto
qed simp

lemma length_concat_chunks: "list_all chunk_ok cs \<Longrightarrow> length (concat cs) \<le> length cs * CHUNK"
  by (induction cs) (auto simp: chunk_ok_def)

section \<open>Completion\<close>

text \<open>With a target connected and nothing failing, the next event of a run that completes.\<close>

definition drive :: "splice \<Rightarrow> relay_event" where
  "drive s = (case sp_main s of
     Draining (Some c) \<Rightarrow> Write_all 0
   | _ \<Rightarrow> (case sp_queue s of
       c # q \<Rightarrow> Receive
     | [] \<Rightarrow> (case sp_reader s of
         Sending c \<Rightarrow> Send
       | Reading \<Rightarrow> Read (min CHUNK (length (sp_unread s))) 0
       | _ \<Rightarrow> Closed)))"

definition on_course :: "string \<Rightarrow> splice \<Rightarrow> bool" where
  "on_course stream s \<longleftrightarrow> stream_inv stream s \<and> (\<exists>c. sp_main s = Draining c) \<and> (\<forall>e. sp_reader s \<noteq> Returned (Inl e))"

lemma CHUNK_pos [simp]: "0 < CHUNK" "CHUNK \<noteq> 0"
  by (simp_all add: CHUNK_def)

lemma BUFFER_pos [simp]: "0 < BUFFER_CHUNKS" "BUFFER_CHUNKS \<noteq> 0"
  by (simp_all add: BUFFER_CHUNKS_def)

lemma drive_step:
  assumes "on_course stream s" and "(word_of_nat (length stream) :: u64) \<noteq> 0"
  shows "\<exists>s'. splice_step bps rps (drive s) s = Some s' \<and> s' \<noteq> s
    \<and> (on_course stream s' \<or> sp_main s' = Finished (Inr (word_of_nat (length stream))))"
proof -
  obtain c where m: "sp_main s = Draining c" using assms(1) by (auto simp: on_course_def)
  have inv: "stream_inv stream s" and ok: "\<And>e. sp_reader s \<noteq> Returned (Inl e)" using assms(1) by (auto simp: on_course_def)
  have nn: "sp_reader s \<noteq> Not_started" using inv m by (auto simp: stream_inv_def ended_def)
  have stays: "on_course stream s'" if "splice_step bps rps e s = Some s'" "\<exists>c. sp_main s' = Draining c" "\<forall>e. sp_reader s' \<noteq> Returned (Inl e)" for e s'
    using that stream_inv_step inv unfolding on_course_def by blast
  consider (hand) x where "c = Some x" | (queue) x q where "c = None" "sp_queue s = x # q"
    | (send) x where "c = None" "sp_queue s = []" "sp_reader s = Sending x"
    | (read) "c = None" "sp_queue s = []" "sp_reader s = Reading"
    | (last) "c = None" "sp_queue s = []" "sp_reader s = Returned (Inr ())"
  proof (cases c)
    case None
    show ?thesis
    proof (cases "sp_queue s")
      case Nil
      show ?thesis
      proof (cases "sp_reader s")
        case (Returned r)
        with ok obtain u where "r = Inr u" by (cases r) auto
        then show ?thesis using last None Nil Returned by simp
      qed (use send read nn None Nil in auto)
    qed (use queue None in auto)
  qed (use hand in auto)
  then show ?thesis
  proof cases
    case hand
    let ?s = "s\<lparr>sp_main := Draining None, sp_delivered := sp_delivered s @ x,
              sp_total := sp_total s + word_of_nat (length x), sp_bytes := sp_total s + word_of_nat (length x), sp_last_activity := 0\<rparr>"
    have st: "splice_step bps rps (drive s) s = Some ?s" by (simp add: drive_def m hand Let_def)
    moreover have "sp_main ?s \<noteq> sp_main s" using m hand by simp
    then have "?s \<noteq> s" by metis
    ultimately show ?thesis using stays [OF st] ok by simp
  next
    case queue
    let ?s = "s\<lparr>sp_main := Draining (Some x), sp_queue := q\<rparr>"
    have st: "splice_step bps rps (drive s) s = Some ?s" by (simp add: drive_def m queue)
    moreover have "sp_main ?s \<noteq> sp_main s" using m queue by simp
    then have "?s \<noteq> s" by metis
    ultimately show ?thesis using stays [OF st] ok by auto
  next
    case send
    let ?s = "s\<lparr>sp_queue := sp_queue s @ [x], sp_reader := Reading\<rparr>"
    have st: "splice_step bps rps (drive s) s = Some ?s" by (simp add: drive_def m send ended_def)
    moreover have "sp_reader ?s \<noteq> sp_reader s" using send by simp
    then have "?s \<noteq> s" by metis
    ultimately show ?thesis using stays [OF st] m by auto
  next
    case read
    show ?thesis
    proof (cases "sp_unread s = []")
      case True
      let ?s = "s\<lparr>sp_reader := Returned (Inr ())\<rparr>"
      have st: "splice_step bps rps (drive s) s = Some ?s" using read True m by (simp add: drive_def ended_def)
      moreover have "sp_reader ?s \<noteq> sp_reader s" using read by simp
      then have "?s \<noteq> s" by metis
      ultimately show ?thesis using stays [OF st] m by auto
    next
      case False
      let ?n = "min CHUNK (length (sp_unread s))"
      let ?s = "s\<lparr>sp_reader := Sending (take ?n (sp_unread s)), sp_unread := drop ?n (sp_unread s), sp_last_activity := 0\<rparr>"
      have st: "splice_step bps rps (drive s) s = Some ?s" using read False m by (simp add: drive_def ended_def)
      moreover have "sp_reader ?s \<noteq> sp_reader s" using read by simp
      then have "?s \<noteq> s" by metis
      ultimately show ?thesis using stays [OF st] m by auto
    qed
  next
    case last
    have "sp_delivered s = stream" "sp_total s = word_of_nat (length stream)"
      using inv m last by (auto simp: stream_inv_def ended_def on_the_way_def in_hand_def just_read_def)
    then have st: "splice_step bps rps (drive s) s = Some (finish_with (Inr (word_of_nat (length stream))) s)"
      using last m assms(2) by (simp add: drive_def)
    have "sp_main (finish_with (Inr (word_of_nat (length stream))) s) \<noteq> sp_main s" using m by (simp add: finish_with_def)
    then have "finish_with (Inr (word_of_nat (length stream))) s \<noteq> s" by metis
    then show ?thesis using st by (auto simp: finish_with_def)
  qed
qed

lemma on_course_completes:
  assumes "on_course stream s" and "(word_of_nat (length stream) :: u64) \<noteq> 0"
  shows "\<exists>es s'. splice_run bps rps es s = Some s' \<and> sp_main s' = Finished (Inr (word_of_nat (length stream)))"
  using assms
proof (induction "relay_measure s" arbitrary: s rule: less_induct)
  case less
  obtain s1 where s1: "splice_step bps rps (drive s) s = Some s1" "s1 \<noteq> s"
      "on_course stream s1 \<or> sp_main s1 = Finished (Inr (word_of_nat (length stream)))"
    using drive_step [OF less.prems] by blast
  from s1(3) show ?case
  proof
    assume c: "on_course stream s1"
    have "relay_measure s1 < relay_measure s"
      using relay_measure_decreases [OF s1(1)] less.prems(1) s1(2) by (auto simp: on_course_def)
    from less.hyps [OF this c less.prems(2)] obtain es s' where
      "splice_run bps rps es s1 = Some s'" "sp_main s' = Finished (Inr (word_of_nat (length stream)))" by blast
    then show ?thesis using s1(1) by (intro exI [of _ "drive s # es"] exI [of _ s']) simp
  next
    assume "sp_main s1 = Finished (Inr (word_of_nat (length stream)))"
    then show ?thesis using s1(1) by (intro exI [of _ "[drive s]"] exI [of _ s1]) simp
  qed
qed

end
