(* ===== verification/Lease_System.thy ===== *)
theory Lease_System
  imports Leader_Lease
begin

text \<open>
  Several processes at one lease: their attempts interleave at every API call, writes may be reported
  as failed and have taken effect, or take effect later, reads may be stale, and the processes' clocks
  may run ahead of each other by a bounded number of seconds.
\<close>

section \<open>The system\<close>

record lease_sys =
  ly_clock :: nat                            \<comment> \<open>the slowest clock, nanoseconds since the epoch\<close>
  ly_versions :: "lease list"                \<comment> \<open>everything the lease has been, the stored object first\<close>
  ly_running :: "string \<rightharpoonup> trace"           \<comment> \<open>each process's attempt, its calls so far\<close>
  ly_delayed :: "(string \<times> req) set"        \<comment> \<open>writes reported as failed that may still arrive\<close>
  ly_renewed :: "string \<rightharpoonup> int"             \<comment> \<open>the renew time in the last accepted write of each process\<close>

definition secs :: "nat \<Rightarrow> nat \<Rightarrow> int" where
  "secs skew nanos = int (nanos div 10 ^ 9) + int skew"

text \<open>
  The API server accepts a creation when there is no lease, and a replacement when the metadata
  carries the stored resource version; the new object's version was never used before.
\<close>

definition admits :: "string \<Rightarrow> lease list \<Rightarrow> req \<Rightarrow> lease \<Rightarrow> bool" where
  "admits ns vs q x \<longleftrightarrow> q = Create K_Lease ns (O_lease x) \<and> vs = []
     \<or> q = Replace K_Lease ns LEASE_NAME (O_lease x) \<and> vs \<noteq> [] \<and> le_meta x = le_meta (hd vs)"

inductive stores :: "string \<Rightarrow> lease_sys \<Rightarrow> string \<Rightarrow> req \<Rightarrow> lease_sys \<Rightarrow> bool" for ns where
  store: "admits ns (ly_versions s) q x \<Longrightarrow> le_spec l = le_spec x \<Longrightarrow> le_meta l \<notin> le_meta ` set (ly_versions s)
    \<Longrightarrow> stores ns s n q (s\<lparr>ly_versions := l # ly_versions s, ly_renewed := (ly_renewed s)(n := ls_renew_time (lease_spec_of x))\<rparr>)"

inductive meets :: "nat \<Rightarrow> string \<Rightarrow> lease_sys \<Rightarrow> string \<Rightarrow> req \<Rightarrow> resp \<Rightarrow> lease_sys \<Rightarrow> bool" for skew ns where
  absent: "meets skew ns s n (Get K_Lease ns LEASE_NAME) R_none s"
| present: "l \<in> set (ly_versions s) \<Longrightarrow> meets skew ns s n (Get K_Lease ns LEASE_NAME) (R_obj (O_lease l)) s"
| time: "int (t div 10 ^ 9) \<le> secs skew (ly_clock s) \<Longrightarrow> meets skew ns s n Now (R_time t) s"
| accepted: "stores ns s n q s' \<Longrightarrow> meets skew ns s n q a s'"
| refused: "q \<noteq> Now \<Longrightarrow> meets skew ns s n q (R_err e) s"
| delayed: "q \<noteq> Now \<Longrightarrow> meets skew ns s n q (R_err e) (s\<lparr>ly_delayed := insert (n, q) (ly_delayed s)\<rparr>)"

inductive lease_step :: "nat \<Rightarrow> string \<Rightarrow> lease_sys \<Rightarrow> lease_sys \<Rightarrow> bool" for skew ns where
  pass: "lease_step skew ns s (s\<lparr>ly_clock := ly_clock s + d\<rparr>)"
| attempt: "ly_running s n = None \<Longrightarrow> lease_step skew ns s (s\<lparr>ly_running := (ly_running s)(n \<mapsto> [])\<rparr>)"
| call: "ly_running s n = Some h \<Longrightarrow> runs (try_acquire ns n) (h @ [(q, a)]) \<Longrightarrow> meets skew ns s n q a s'
    \<Longrightarrow> lease_step skew ns s (s'\<lparr>ly_running := (ly_running s')(n \<mapsto> h @ [(q, a)])\<rparr>)"
| arrive: "(n, q) \<in> ly_delayed s \<Longrightarrow> stores ns s n q s' \<Longrightarrow> lease_step skew ns s s'"
| over: "lease_step skew ns s (s\<lparr>ly_running := (ly_running s)(n := None)\<rparr>)"

inductive_cases storesE: "stores ns s n q s'"

section \<open>The invariant\<close>

definition stored :: "lease_sys \<Rightarrow> lease option" where
  "stored s = (case ly_versions s of [] \<Rightarrow> None | l # _ \<Rightarrow> Some l)"

definition holds_lease :: "lease_sys \<Rightarrow> string \<Rightarrow> int \<Rightarrow> bool" where
  "holds_lease s p t \<longleftrightarrow> (\<exists>l. stored s = Some l \<and> names p l \<and> ls_renew_time (lease_spec_of l) = Some t)"

text \<open>What justifies a write, in flight or delayed.\<close>

definition takable :: "nat \<Rightarrow> lease_sys \<Rightarrow> string \<Rightarrow> lease \<Rightarrow> bool" where
  "takable skew s n l \<longleftrightarrow> holder_of l = n \<or> ls_renew_time (lease_spec_of l) = None
     \<or> (\<exists>c \<le> secs skew (ly_clock s). expired_at l c)"

definition justified :: "nat \<Rightarrow> string \<Rightarrow> lease_sys \<Rightarrow> string \<Rightarrow> req \<Rightarrow> bool" where
  "justified skew ns s n q \<longleftrightarrow> (\<forall>x. q = Create K_Lease ns (O_lease x) \<longrightarrow> names n x)
     \<and> (\<forall>x. q = Replace K_Lease ns LEASE_NAME (O_lease x) \<longrightarrow> names n x
          \<and> (\<exists>l \<in> set (ly_versions s). le_meta x = le_meta l \<and> takable skew s n l))"

definition saw :: "nat \<Rightarrow> string \<Rightarrow> lease_sys \<Rightarrow> trace \<Rightarrow> bool" where
  "saw skew ns s h \<longleftrightarrow> (\<forall>l. (Get K_Lease ns LEASE_NAME, R_obj (O_lease l)) \<in> set h \<longrightarrow> l \<in> set (ly_versions s))
     \<and> (\<forall>a. (Now, a) \<in> set h \<longrightarrow> int (of_time a div 10 ^ 9) \<le> secs skew (ly_clock s))"

definition lease_inv :: "nat \<Rightarrow> string \<Rightarrow> lease_sys \<Rightarrow> bool" where
  "lease_inv skew ns s \<longleftrightarrow> distinct (map le_meta (ly_versions s))
     \<and> (\<forall>n h. ly_running s n = Some h \<longrightarrow> saw skew ns s h)
     \<and> (\<forall>(n, q) \<in> ly_delayed s. justified skew ns s n q)
     \<and> (\<forall>p t. ly_renewed s p = Some t \<longrightarrow> holds_lease s p t \<or> secs skew (ly_clock s) - t > 30)"

text \<open>Time and new versions invalidate no justification and nothing that was seen.\<close>

lemma secs_mono: "m \<le> n \<Longrightarrow> secs skew m \<le> secs skew n"
  by (simp add: secs_def div_le_mono)

definition later :: "lease_sys \<Rightarrow> lease_sys \<Rightarrow> bool" where
  "later s s' \<longleftrightarrow> set (ly_versions s) \<subseteq> set (ly_versions s') \<and> ly_clock s \<le> ly_clock s'"

lemma takable_later: "takable skew s n l \<Longrightarrow> later s s' \<Longrightarrow> takable skew s' n l"
  unfolding takable_def later_def using secs_mono by (meson order_trans)

lemma justified_later: "justified skew ns s n q \<Longrightarrow> later s s' \<Longrightarrow> justified skew ns s' n q"
  using takable_later [of skew s n _ s'] unfolding justified_def later_def by (fast dest: subsetD)

lemma saw_later: "saw skew ns s h \<Longrightarrow> later s s' \<Longrightarrow> saw skew ns s' h"
  unfolding saw_def later_def using secs_mono by (meson order_trans subsetD)

lemma run_justified:
  assumes "runs (try_acquire ns n) (h @ [(q, a)])" and "saw skew ns s h"
  shows "justified skew ns s n q"
proof -
  have ok: "lease_write_ok ns n h q" using assms(1) by (rule lease_writes)
  show ?thesis
    unfolding justified_def
  proof (intro conjI allI impI)
    fix x assume "q = Create K_Lease ns (O_lease x)"
    then show "names n x" using ok by (simp add: lease_write_ok_def)
  next
    fix x assume "q = Replace K_Lease ns LEASE_NAME (O_lease x)"
    then obtain l where l: "(Get K_Lease ns LEASE_NAME, R_obj (O_lease l)) \<in> set h" "names n x" "le_meta x = le_meta l"
      "holder_of l = n \<or> ls_renew_time (lease_spec_of l) = None \<or> (\<exists>t. (Now, t) \<in> set h \<and> expired_at l (int (of_time t div 10 ^ 9)))"
      using ok by (auto simp: lease_write_ok_def)
    then show "names n x" by simp
    show "\<exists>l \<in> set (ly_versions s). le_meta x = le_meta l \<and> takable skew s n l"
      using l assms(2) unfolding saw_def takable_def by blast
  qed
qed

text \<open>A lease that is replaced by another process is expired: its last holder's renewal is old.\<close>

lemma expired_old: "names p l \<Longrightarrow> ls_renew_time (lease_spec_of l) = Some t \<Longrightarrow> expired_at l c \<Longrightarrow> c - t > 30"
  by (simp add: names_def expired_at_def LEASE_DURATION_SECS_def)

lemma justified_old:
  assumes inv: "lease_inv skew ns s" and j: "justified skew ns s n q" and adm: "admits ns (ly_versions s) q x"
    and p: "ly_renewed s p = Some t" "p \<noteq> n"
  shows "secs skew (ly_clock s) - t > 30"
proof -
  consider "holds_lease s p t" | "secs skew (ly_clock s) - t > 30" using inv p(1) unfolding lease_inv_def by blast
  then show ?thesis
  proof cases
    case 1
    then obtain l vs where l: "ly_versions s = l # vs" "names p l" "ls_renew_time (lease_spec_of l) = Some t"
      by (auto simp: holds_lease_def stored_def split: list.splits)
    then have q: "q = Replace K_Lease ns LEASE_NAME (O_lease x)" "le_meta x = le_meta l" using adm by (auto simp: admits_def)
    then obtain l' where l': "l' \<in> set (ly_versions s)" "le_meta x = le_meta l'" and
      why: "takable skew s n l'"
      using j by (auto simp: justified_def)
    have "l' = l" using inv l(1) l' q(2) by (auto simp: lease_inv_def)
    then obtain c where "c \<le> secs skew (ly_clock s)" "expired_at l c" using why l(2,3) p(2) by (auto simp: takable_def names_def)
    then show ?thesis using expired_old [OF l(2,3)] by fastforce
  qed
qed

section \<open>Its preservation\<close>

lemma stores_inv:
  assumes inv: "lease_inv skew ns s" and j: "justified skew ns s n q" and st: "stores ns s n q s'"
  shows "lease_inv skew ns s'" and "later s s'" and "ly_running s' = ly_running s"
proof -
  from st obtain x l where s': "s' = s\<lparr>ly_versions := l # ly_versions s, ly_renewed := (ly_renewed s)(n := ls_renew_time (lease_spec_of x))\<rparr>"
    and adm: "admits ns (ly_versions s) q x" and l: "le_spec l = le_spec x" "le_meta l \<notin> le_meta ` set (ly_versions s)"
    by (rule storesE)
  show later: "later s s'" and "ly_running s' = ly_running s" by (auto simp: s' later_def)
  have x: "names n x" using j adm by (auto simp: justified_def admits_def)
  then have "names n l" using l(1) by (simp add: names_def holder_of_def lease_spec_of_def)
  then have own: "holds_lease s' n t" if "ls_renew_time (lease_spec_of x) = Some t" for t
    using that l(1) by (simp add: s' holds_lease_def stored_def lease_spec_of_def)
  show "lease_inv skew ns s'"
    using inv own l(2) justified_old [OF inv j adm] justified_later [OF _ later] saw_later [OF _ later]
    by (fastforce simp: lease_inv_def s' split: if_splits)
qed

lemma inv_same:
  assumes inv: "lease_inv skew ns s" and same: "ly_versions s' = ly_versions s" "ly_renewed s' = ly_renewed s" "ly_clock s \<le> ly_clock s'"
    and runs: "\<And>n h. ly_running s' n = Some h \<Longrightarrow> ly_running s n = Some h \<or> saw skew ns s h"
    and late: "\<And>n q. (n, q) \<in> ly_delayed s' \<Longrightarrow> (n, q) \<in> ly_delayed s \<or> justified skew ns s n q"
  shows "lease_inv skew ns s'"
  unfolding lease_inv_def
proof (intro conjI allI impI)
  have later: "later s s'" using same by (simp add: later_def)
  show "distinct (map le_meta (ly_versions s'))" using inv same by (simp add: lease_inv_def)
  show "saw skew ns s' h" if "ly_running s' n = Some h" for n h
    using inv runs [OF that] saw_later [OF _ later] unfolding lease_inv_def by blast
  show "\<forall>(n, q) \<in> ly_delayed s'. justified skew ns s' n q"
    using inv late justified_later [OF _ later] unfolding lease_inv_def by blast
  show "holds_lease s' p t \<or> secs skew (ly_clock s') - t > 30" if "ly_renewed s' p = Some t" for p t
    using inv that same(1,2) secs_mono [OF same(3), of skew] unfolding lease_inv_def holds_lease_def stored_def by fastforce
qed

lemma call_inv:
  assumes inv: "lease_inv skew ns s" and j: "justified skew ns s n q" and m: "meets skew ns s n q a s1"
  shows "lease_inv skew ns s1 \<and> later s s1 \<and> ly_running s1 = ly_running s \<and> saw skew ns s1 [(q, a)]"
  using m
proof cases
  case accepted
  then show ?thesis using stores_inv [OF inv j] by (auto elim!: storesE simp: admits_def saw_def)
next
  case (delayed e)
  have "lease_inv skew ns s1" by (rule inv_same [OF inv]) (use delayed j in auto)
  then show ?thesis using delayed by (auto simp: later_def saw_def)
qed (use inv in \<open>simp_all add: later_def saw_def of_time_def\<close>)

lemma lease_step_inv:
  assumes "lease_step skew ns s s'" and inv: "lease_inv skew ns s"
  shows "lease_inv skew ns s'"
  using assms(1)
proof cases
  case (call n h q a s1)
  have saw: "saw skew ns s h" using inv call(2) by (simp add: lease_inv_def)
  have s1: "lease_inv skew ns s1 \<and> later s s1 \<and> ly_running s1 = ly_running s \<and> saw skew ns s1 [(q, a)]"
    by (rule call_inv [OF inv run_justified [OF call(3) saw] call(4)])
  then have saw1: "saw skew ns s1 (h @ [(q, a)])" using saw_later [OF saw] by (auto simp: saw_def)
  show ?thesis
    by (rule inv_same [of skew ns s1]) (use s1 saw1 call(1) in \<open>auto split: if_splits\<close>)
next
  case (arrive n q)
  then have "justified skew ns s n q" using inv by (auto simp: lease_inv_def)
  then show ?thesis using stores_inv(1) [OF inv _ arrive(2)] by blast
next
  case (pass d)
  show ?thesis by (rule inv_same [OF inv]) (use pass in \<open>simp_all\<close>)
next
  case (attempt n)
  show ?thesis by (rule inv_same [OF inv]) (use attempt in \<open>auto simp: saw_def split: if_splits\<close>)
next
  case (over n)
  show ?thesis by (rule inv_same [OF inv]) (use over in \<open>auto split: if_splits\<close>)
qed

definition nobody_yet :: "lease_sys \<Rightarrow> bool" where
  "nobody_yet s \<longleftrightarrow> distinct (map le_meta (ly_versions s)) \<and> ly_running s = Map.empty \<and> ly_delayed s = {} \<and> ly_renewed s = Map.empty"

lemma lease_inv_reachable:
  assumes "(lease_step skew ns)\<^sup>*\<^sup>* s0 s" and "nobody_yet s0"
  shows "lease_inv skew ns s"
  using assms(1)
  by (induction rule: rtranclp_induct) (use assms(2) lease_step_inv in \<open>auto simp: lease_inv_def nobody_yet_def\<close>)

section \<open>One process with a recent renewal\<close>

definition fresh_renewal :: "nat \<Rightarrow> lease_sys \<Rightarrow> string \<Rightarrow> bool" where
  "fresh_renewal skew s p \<longleftrightarrow> (\<exists>t. ly_renewed s p = Some t \<and> secs skew (ly_clock s) - t \<le> 30)"

lemma fresh_renewal_holds:
  assumes "(lease_step skew ns)\<^sup>*\<^sup>* s0 s" and "nobody_yet s0" and "fresh_renewal skew s p"
  shows "\<exists>l. stored s = Some l \<and> holder_of l = p"
  using lease_inv_reachable [OF assms(1,2)] assms(3) unfolding lease_inv_def fresh_renewal_def holds_lease_def names_def by fastforce

text \<open>Playing the reads of an attempt, which leave the system as it is.\<close>

lemma reads_play:
  assumes "\<And>q a r. (q, a) \<in> set tr \<Longrightarrow> meets skew ns (s\<lparr>ly_running := r\<rparr>) n q a (s\<lparr>ly_running := r\<rparr>)"
    and "runs (try_acquire ns n) (h @ tr)"
  shows "(lease_step skew ns)\<^sup>*\<^sup>* (s\<lparr>ly_running := [n \<mapsto> h]\<rparr>) (s\<lparr>ly_running := [n \<mapsto> h @ tr]\<rparr>)"
  using assms
proof (induction tr arbitrary: h)
  case (Cons x tr)
  obtain q a where x: "x = (q, a)" by (cases x)
  have "lease_step skew ns (s\<lparr>ly_running := [n \<mapsto> h]\<rparr>) ((s\<lparr>ly_running := [n \<mapsto> h]\<rparr>)\<lparr>ly_running :=
      (ly_running (s\<lparr>ly_running := [n \<mapsto> h]\<rparr>))(n \<mapsto> h @ [(q, a)])\<rparr>)"
  proof (rule lease_step.call)
    show "runs (try_acquire ns n) (h @ [(q, a)])" using runs_prefix [of _ "h @ [x]" tr] Cons.prems(2) x by simp
    show "meets skew ns (s\<lparr>ly_running := [n \<mapsto> h]\<rparr>) n q a (s\<lparr>ly_running := [n \<mapsto> h]\<rparr>)" using Cons.prems(1) x by simp
  qed simp
  then have "lease_step skew ns (s\<lparr>ly_running := [n \<mapsto> h]\<rparr>) (s\<lparr>ly_running := [n \<mapsto> h @ [x]]\<rparr>)"
    unfolding x by (simp del: fun_upd_apply)
  moreover have "(lease_step skew ns)\<^sup>*\<^sup>* (s\<lparr>ly_running := [n \<mapsto> h @ [x]]\<rparr>) (s\<lparr>ly_running := [n \<mapsto> (h @ [x]) @ tr]\<rparr>)"
    by (rule Cons.IH) (use Cons.prems in simp_all)
  ultimately have "(lease_step skew ns)\<^sup>*\<^sup>* (s\<lparr>ly_running := [n \<mapsto> h]\<rparr>) (s\<lparr>ly_running := [n \<mapsto> (h @ [x]) @ tr]\<rparr>)"
    by (metis converse_rtranclp_into_rtranclp)
  then show ?case by (simp del: fun_upd_apply)
qed simp

end
