(* ===== verification/Loop_Properties.thy ===== *)
theory Loop_Properties
  imports Scenario Trigger_Loop Startup Relay_Splice Lease_System
begin

text \<open>
  Properties of the tasks beside the reconcile: the trigger loop, leader election and the relay of one
  attempt.
\<close>

section \<open>The trigger\<close>

text \<open>C20 Everything the trigger does to the cluster. An evacuation is created only right after three reads
  in this order: there is no evacuation of that name (or a finished one was just deleted), and then,
  read afresh, the PV is still annotated, or it still carries the handle of a volume whose owner node
  still carries the taint; taint evacuations are always WhenClaimed, annotated ones WhenIdle. An
  evacuation is deleted only if the read just before showed it completed, or failed by cancellation: a
  failed one the operator has to look at is never replaced, nor one in flight. Besides these two the
  trigger only reads.\<close>

theorem trigger_acts_rightly:
  assumes "runs (trigger_task n k ctx) (h @ (q, a) # t)"
  shows "(\<forall>kd ns x. q = Create kd ns x \<longrightarrow> kd = K_Evacuation \<and> (\<exists>n.
       (x = O_evac (evacuation_for n Annotation WhenIdle) \<and> annotation_seen n h)
     \<or> (x = O_evac (evacuation_for n NodeTaint WhenClaimed) \<and> taint_seen ctx n h)))
   \<and> (\<forall>kd ns n. q = Delete kd ns n \<longrightarrow> kd = K_Evacuation
     \<and> (\<exists>h0 e st. h = h0 @ [(Get K_Evacuation [] n, R_obj (O_evac e))] \<and> ev_status e = Some st
          \<and> (s_phase st = Completed \<or> s_phase st = Failed \<and> s_cancelled st)))
   \<and> (case q of Get _ _ _ \<Rightarrow> True | List_all _ _ _ \<Rightarrow> True | Create _ _ _ \<Rightarrow> True | Delete _ _ _ \<Rightarrow> True | _ \<Rightarrow> False)"
  using safe_runs [OF safe_trigger_task assms]
  by (auto simp: trigger_ok_def replaceable_def is_some_and_iff split: req.splits)

definition trigger_calls :: trace where
  "trigger_calls = [(List_all K_PV [] None, R_objs [O_pv (pv0 ''uid-pv'' ''pvc-1'')]),
     (Get K_Evacuation [] ''pv-1'', R_obj (O_evac (evac0 (late Completed True))))]"

definition trigger_replaced :: trace where
  "trigger_replaced = trigger_calls @ [(Delete K_Evacuation [] ''pv-1'', R_ok), seen_pv]"

lemmas trigger_defs = tick_def annotated_pv_def wants_evacuation_def create_when_def clear_for_creation_def
  annotation_condition_fresh_def create_evacuation_def

lemma trigger_run: "runs (trigger_task 1 1 ctx0)
    (trigger_replaced @ (Create K_Evacuation [] (O_evac (evacuation_for ''pv-1'' Annotation WhenIdle)), R_ok) # [])"
  by (rule fits_runs [where m = Map.empty])
    (simp add: run_defs trigger_defs replaceable_def trigger_replaced_def trigger_calls_def scene_defs cong: run_cong)

lemma trigger_acts_rightly_witness: "annotation_seen ''pv-1'' trigger_replaced"
  using trigger_acts_rightly [OF trigger_run] by (auto simp: evacuation_for_def named_meta_def)

section \<open>Leader election\<close>

text \<open>C21 However the attempts of several processes at one lease interleave, with writes that are reported
  as failed and arrive all the same, then or later, with stale reads and with clocks that run ahead by
  up to a known number of seconds: a process whose last accepted renewal is at most 30 seconds old by
  every clock is the holder in the stored lease, and there is no second such process. The API server
  does what the code relies on, resource versions: a replacement of anything but the stored object is
  refused, and nobody else writes or deletes the lease.\<close>

theorem one_recent_holder:
  assumes "(lease_step skew ns)\<^sup>*\<^sup>* s0 s" and "nobody_yet s0" and "fresh_renewal skew s p"
  shows "(\<exists>l. stored s = Some l \<and> holder_of l = p) \<and> (\<forall>q. fresh_renewal skew s q \<longrightarrow> q = p)"
proof -
  obtain l where l: "stored s = Some l" "holder_of l = p" using fresh_renewal_holds [OF assms] by blast
  moreover have "q = p" if "fresh_renewal skew s q" for q using fresh_renewal_holds [OF assms(1,2) that] l by simp
  ultimately show ?thesis by blast
qed

definition lease_calls :: trace where
  "lease_calls = [(Get K_Lease ''sys'' LEASE_NAME, R_obj (O_lease (new_lease ''other'' 100 100))), seen_time 500, seen_time 500, seen_time 500]"

definition taken0 :: lease where
  "taken0 = renewed (new_lease ''other'' 100 100) (taken_over (lease_spec_of (new_lease ''other'' 100 100)) 500) ''me'' 500"

definition leased0 :: lease_sys where
  "leased0 = \<lparr>ly_clock = 500 * 10 ^ 9, ly_versions = [new_lease ''other'' 100 100], ly_running = Map.empty,
     ly_delayed = {}, ly_renewed = Map.empty\<rparr>"

lemma lease_run: "runs (try_acquire ''sys'' ''me'') (lease_calls @ [(Replace K_Lease ''sys'' LEASE_NAME (O_lease taken0), R_ok)])"
  by (rule fits_runs [where m = Map.empty])
    (simp add: run_defs try_acquire_def get_lease_def update_lease_def lease_expired_def expired_at_def now_micro_def base_spec_def
      put_lease_def holder_of_def lease_spec_of_def new_lease_def LEASE_DURATION_SECS_def lease_calls_def seen_time_def taken0_def
      cong: run_cong)

lemma lease_taken0: "\<exists>s. (lease_step 0 ''sys'')\<^sup>*\<^sup>* leased0 s \<and> ly_renewed s ''me'' = Some 500 \<and> ly_clock s = 500 * 10 ^ 9"
proof -
  let ?q = "Replace K_Lease ''sys'' LEASE_NAME (O_lease taken0)"
  let ?s = "leased0\<lparr>ly_running := [''me'' \<mapsto> lease_calls]\<rparr>"
  let ?l = "taken0\<lparr>le_meta := default_meta\<rparr>"
  let ?s' = "?s\<lparr>ly_versions := ?l # ly_versions ?s, ly_renewed := (ly_renewed ?s)(''me'' := ls_renew_time (lease_spec_of taken0))\<rparr>"
  have "lease_step 0 ''sys'' leased0 (leased0\<lparr>ly_running := (ly_running leased0)(''me'' \<mapsto> [])\<rparr>)"
    by (rule lease_step.attempt) (simp add: leased0_def)
  moreover have "ly_running leased0 = Map.empty" by (simp add: leased0_def)
  moreover have "(lease_step 0 ''sys'')\<^sup>*\<^sup>* (leased0\<lparr>ly_running := [''me'' \<mapsto> []]\<rparr>) (leased0\<lparr>ly_running := [''me'' \<mapsto> [] @ lease_calls]\<rparr>)"
    by (rule reads_play)
      (use runs_prefix [OF lease_run] in \<open>auto simp: lease_calls_def seen_time_def leased0_def secs_def intro: meets.intros\<close>)
  moreover have "stores ''sys'' ?s ''me'' ?q ?s'"
    by (rule stores.store [where x = taken0])
      (simp_all add: admits_def taken0_def renewed_def leased0_def new_lease_def named_meta_def default_meta_def)
  then have "lease_step 0 ''sys'' ?s (?s'\<lparr>ly_running := (ly_running ?s')(''me'' \<mapsto> lease_calls @ [(?q, R_ok)])\<rparr>)"
    by (intro lease_step.call [where n = "''me''"] meets.accepted lease_run) simp_all
  ultimately have "(lease_step 0 ''sys'')\<^sup>*\<^sup>* leased0 (?s'\<lparr>ly_running := (ly_running ?s')(''me'' \<mapsto> lease_calls @ [(?q, R_ok)])\<rparr>)"
    by (simp add: converse_rtranclp_into_rtranclp rtranclp.rtrancl_into_rtrancl)
  moreover have "ly_renewed ?s' ''me'' = Some 500" "ly_clock ?s' = 500 * 10 ^ 9"
    by (simp_all add: leased0_def taken0_def renewed_def lease_spec_of_def)
  ultimately show ?thesis by (intro exI [of _ "?s'\<lparr>ly_running := (ly_running ?s')(''me'' \<mapsto> lease_calls @ [(?q, R_ok)])\<rparr>"]) simp
qed

lemma one_recent_holder_witness: "\<exists>s l. (lease_step 0 ''sys'')\<^sup>*\<^sup>* leased0 s \<and> stored s = Some l \<and> holder_of l = ''me''"
proof -
  obtain s where s: "(lease_step 0 ''sys'')\<^sup>*\<^sup>* leased0 s" "ly_renewed s ''me'' = Some 500" "ly_clock s = 500 * 10 ^ 9"
    using lease_taken0 by blast
  have "nobody_yet leased0" by (simp add: nobody_yet_def leased0_def)
  moreover have "fresh_renewal 0 s ''me''" using s by (simp add: fresh_renewal_def secs_def)
  ultimately show ?thesis using one_recent_holder [OF s(1)] s(1) by blast
qed

text \<open>C22 The loops start only as the leader: when the start hands a context to the reconciler and the
  trigger, the configuration was read from the environment (so the relay's own address is set) and
  the last call created or replaced the lease of the controller's namespace without an error; and with
  the flag that prints the CRDs nothing starts.\<close>

theorem loops_start_as_leader:
  assumes "exec api (main_start libs args fuel env pid) w m = (Inr (Some ctx), tr, s)"
  shows "\<not> print_crds args \<and> config_from_env env = Inr (c_cfg ctx) \<and> env ''POD_IP'' = Some (cfg_pod_ip (c_cfg ctx))
     \<and> (\<exists>h0 q a. tr = h0 @ [(q, a)] \<and> (\<forall>e. a \<noteq> R_err e)
        \<and> ((\<exists>x. q = Create K_Lease (cfg_pod_namespace (c_cfg ctx)) x)
           \<or> (\<exists>x. q = Replace K_Lease (cfg_pod_namespace (c_cfg ctx)) LEASE_NAME x)))"
proof -
  have p: "\<not> print_crds args" and c: "config_from_env env = Inr (c_cfg ctx)" and l: "lease_written (cfg_pod_namespace (c_cfg ctx)) tr"
    using vc_sound_post [OF main_start_leads [where h = "[]"] assms] by auto
  from p c l config_ip [OF c] show ?thesis by (simp add: lease_written_def)
qed

lemma loops_start_as_leader_witness:
  "\<exists>h0 q a. run_trace replay (main_start libs0 [''controller''] 1 [''POD_IP'' \<mapsto> ''10.0.0.9''] 7) [R_none, R_time 0, R_time 0, R_ok] Map.empty = h0 @ [(q, a)]
     \<and> (\<forall>e. a \<noteq> R_err e)"
proof -
  have "\<exists>ctx tr s. exec replay (main_start libs0 [''controller''] 1 [''POD_IP'' \<mapsto> ''10.0.0.9''] 7) [R_none, R_time 0, R_time 0, R_ok] Map.empty
      = (Inr (Some ctx), tr, s)"
    by (simp add: run_defs main_start_def print_crds_def startup_def config_from_env_def env_or_def identity_of_def try_acquire_def get_lease_def create_lease_def
        now_micro_def cong: run_cong)
  then obtain ctx tr s where r: "exec replay (main_start libs0 [''controller''] 1 [''POD_IP'' \<mapsto> ''10.0.0.9''] 7) [R_none, R_time 0, R_time 0, R_ok] Map.empty
      = (Inr (Some ctx), tr, s)" by blast
  from loops_start_as_leader [OF r] r show ?thesis by auto
qed

text \<open>C23 When the leader steps down. After any history of renewals, a process still running after an
  attempt has renewed at that attempt, or has renewed (or started) at most 30 whole seconds before it.
  But the check is made only when an attempt has failed: with three failed renewals, at 10, 20 and 30
  seconds, the process keeps running until the fourth fails at 40 seconds, while the lease it wrote at 0
  can be taken by another process from the 31st second on.\<close>

theorem fence_after_expiry:
  assumes "renew_rounds start (xs @ [(t, r)]) = Some l" and "\<forall>x \<in> set (xs @ [(t, r)]). fst x < 2 ^ 64"
  shows "((l = t \<and> r = Inr True) \<or> (t - l) div 10 ^ 9 \<le> 30) \<and> (l = start \<or> (l, Inr True) \<in> set (xs @ [(t, r)]))
   \<and> renew_rounds 0 [(10 * 10 ^ 9, Inl e), (20 * 10 ^ 9, Inl e), (30 * 10 ^ 9, Inl e)] = Some 0
   \<and> renew_rounds 0 [(10 * 10 ^ 9, Inl e), (20 * 10 ^ 9, Inl e), (30 * 10 ^ 9, Inl e), (40 * 10 ^ 9, Inl e)] = None
   \<and> expired_at (new_lease me 0 0) 31 \<and> \<not> expired_at (new_lease me 0 0) 30"
  using renew_rounds_recent [OF assms(1)] renew_rounds_renewal [OF assms] assms(2) fence_is_late by simp

lemma fence_after_expiry_witness: "(25 * 10 ^ 9 - 10 ^ 10) div 10 ^ 9 \<le> (30 :: nat)"
proof -
  have "renew_rounds 0 ([(10 ^ 10, Inr True)] @ [(25 * 10 ^ 9, Inl (E_msg ''timeout''))]) = Some (10 ^ 10)"
    by (simp add: renew_step_def LEASE_DURATION_SECS_def word_less_nat_alt unat_of_nat)
  from fence_after_expiry [OF this] show ?thesis by simp
qed

section \<open>The relay\<close>

text \<open>C12 A relay that ends well has delivered the source's whole stream, in order and without a gap, and
  that stream was not empty; the count it returns is the length, modulo the counter's width. Until
  then what was delivered is a prefix of the stream.\<close>

theorem relay_delivers_stream:
  assumes "spliced bps rps stream s" and "sp_main s = Finished (Inr n)"
  shows "sp_delivered s = stream \<and> stream \<noteq> [] \<and> n = word_of_nat (length stream)"
  using spliced_inv [OF assms(1)] assms(2) by (auto simp: stream_inv_def)

definition net1 :: "ip_net list" where "net1 = [host (V4 1)]"
definition net2 :: "ip_net list" where "net2 = [host (V4 2)]"

definition splice_events :: "relay_event list" where
  "splice_events = [Dial_backup (V4 2) 5, Dial_backup (V4 1) 6, Read 2 7, Dial_restore (V4 2) 8, Send, Receive, Write_all 9,
     Read 1 10, Send, Receive, Write_all 11, Read 0 12, Closed]"

lemma accepts0: "accepts net1 (V4 1)" "\<not> accepts net1 (V4 2)" "accepts net2 (V4 2)"
  by (simp_all add: accepts_def net1_def net2_def contains_host)

lemma spliced0: "\<exists>s. splice_run net1 net2 splice_events (spawn ''abc'' 0) = Some s \<and> sp_main s = Finished (Inr 3)
    \<and> spliced net1 net2 ''abc'' s"
proof -
  have "\<exists>s. splice_run net1 net2 splice_events (spawn ''abc'' 0) = Some s \<and> sp_main s = Finished (Inr 3)"
    by (simp add: splice_events_def spawn_def accepts0 CHUNK_def BUFFER_CHUNKS_def ended_def finish_with_def Let_def)
  then show ?thesis using spliced_run spliced.spawned by blast
qed

lemma relay_delivers_stream_witness: "\<exists>s. spliced net1 net2 ''abc'' s \<and> sp_delivered s = ''abc''"
  using spliced0 relay_delivers_stream by blast

text \<open>C36 The relay's memory is bounded: between reading a byte and delivering it, at most the queue's 256
  chunks and two more are held, whatever the target does.\<close>

theorem relay_memory_bound:
  assumes "spliced bps rps stream s"
  shows "length (on_the_way s) \<le> (BUFFER_CHUNKS + 2) * CHUNK"
proof -
  have b: "buffer_inv s" using spliced_inv [OF assms] by blast
  have "length (concat (sp_queue s)) \<le> length (sp_queue s) * CHUNK"
    using b by (intro length_concat_chunks) (simp add: buffer_inv_def)
  also have "\<dots> \<le> BUFFER_CHUNKS * CHUNK" using b by (simp add: buffer_inv_def)
  finally have q: "length (concat (sp_queue s)) \<le> BUFFER_CHUNKS * CHUNK" .
  have "length (in_hand s) \<le> CHUNK" "length (just_read s) \<le> CHUNK"
    using b by (auto simp: in_hand_def just_read_def buffer_inv_def chunk_ok_def split: main_task.split option.split reader.split)
  with q show ?thesis by (simp add: on_the_way_def add_mult_distrib)
qed

lemma relay_memory_bound_witness: "length (on_the_way (spawn ''abc'' 0)) \<le> (BUFFER_CHUNKS + 2) * CHUNK"
  by (rule relay_memory_bound [OF spliced.spawned [of net1 net2]])

text \<open>C37 The relay talks to its two nodes only: the source counts as connected exactly when a peer was
  accepted on the backup port, that peer is in the source's allowlist and the target's peer in the
  target's, and no byte moves before both are there. An empty allowlist accepts nobody.\<close>

theorem relay_peers_pinned:
  assumes "spliced bps rps stream s"
  shows "(sp_source_connected s \<longleftrightarrow> (\<exists>p. sp_source_peer s = Some p))
     \<and> (\<forall>p. sp_source_peer s = Some p \<longrightarrow> accepts bps p) \<and> (\<forall>p. sp_target_peer s = Some p \<longrightarrow> accepts rps p)
     \<and> (sp_delivered s \<noteq> [] \<longrightarrow> bps \<noteq> [] \<and> rps \<noteq> [] \<and> sp_source_peer s \<noteq> None \<and> sp_target_peer s \<noteq> None)"
  using spliced_inv [OF assms] accepts_empty unfolding peer_inv_def by auto

lemma relay_peers_pinned_witness: "\<exists>s. spliced net1 net2 ''abc'' s \<and> sp_source_peer s \<noteq> None"
proof -
  obtain s where s: "spliced net1 net2 ''abc'' s" "sp_delivered s = ''abc''" using relay_delivers_stream_witness by blast
  with relay_peers_pinned [OF s(1)] show ?thesis by auto
qed

text \<open>C34 A relay ends: on a finite stream at most \<open>4 * length stream + 5\<close> events change its state, so it
  cannot run for ever; what is left are refused connections.\<close>

theorem relay_terminates:
  assumes "splice_run bps rps es (spawn stream t) = Some s"
  shows "changes bps rps es (spawn stream t) \<le> 4 * length stream + 5"
proof -
  have "stream_inv stream (spawn stream t)" using spliced_inv [OF spliced.spawned] by blast
  from changes_le [OF assms this] show ?thesis by (simp add: relay_measure_def spawn_def main_rank_def reader_rank_def)
qed

lemma relay_terminates_witness: "changes net1 net2 splice_events (spawn ''abc'' 0) \<le> 17"
  using spliced0 relay_terminates by fastforce

text \<open>C35 A relay can always complete: once both agents are connected and the source has not failed, the
  remaining events exist that deliver the whole of a stream whose length the counter does not count
  as zero, and the task returns that length.\<close>

theorem relay_can_complete:
  assumes "spliced bps rps stream s" and "sp_main s = Draining c" and "\<forall>e. sp_reader s \<noteq> Returned (Inl e)"
    and "(word_of_nat (length stream) :: u64) \<noteq> 0"
  shows "\<exists>es s'. splice_run bps rps es s = Some s' \<and> sp_main s' = Finished (Inr (word_of_nat (length stream)))"
  using on_course_completes [OF _ assms(4)] spliced_inv [OF assms(1)] assms(2,3) by (auto simp: on_course_def)

lemma relay_can_complete_witness:
  "\<exists>es s s'. spliced net1 net2 ''abc'' s \<and> splice_run net1 net2 es s = Some s' \<and> sp_main s' = Finished (Inr 3)"
proof -
  have "\<exists>s. splice_run net1 net2 [Dial_backup (V4 1) 6, Dial_restore (V4 2) 8] (spawn ''abc'' 0) = Some s
      \<and> sp_main s = Draining None \<and> sp_reader s = Reading"
    by (simp add: spawn_def accepts0)
  then obtain s where s: "splice_run net1 net2 [Dial_backup (V4 1) 6, Dial_restore (V4 2) 8] (spawn ''abc'' 0) = Some s"
      "sp_main s = Draining None" "sp_reader s = Reading" by blast
  then have sp: "spliced net1 net2 ''abc'' s" using spliced_run spliced.spawned by blast
  from relay_can_complete [OF sp s(2)] s(3) sp show ?thesis by auto
qed

end
