(* ===== verification/Target_Facts.thy ===== *)
theory Target_Facts
  imports Evac_Machine
begin

text \<open>
  What holds of a target that was chosen, read off the eligibility of its candidate; the two readers
  are the selection itself and the caps that hold between concurrent selections.
\<close>

section \<open>The chosen target\<close>

lemma chosen_target_best:
  assumes "choose_target tkey i nodes evacs dest allowed zns = Inr tg"
  shows "\<exists>c n zn p. eligible tkey i nodes allowed (build_ledger (in_evac_name i) evacs) (pool_component dest) zns c
     \<and> (\<forall>c'. eligible tkey i nodes allowed (build_ledger (in_evac_name i) evacs) (pool_component dest) zns c' \<longrightarrow> cd_free c' \<le> cd_free c)
     \<and> ti_node_id tg = cd_node_id c \<and> ti_pool tg = dest
     \<and> ti_node_id tg \<noteq> in_source_node_id i
     \<and> n \<in> set nodes \<and> node_id_of n = ti_node_id tg \<and> node_is_ready n \<and> \<not> node_repels_pods n tkey
     \<and> (\<forall>ids. allowed = Some ids \<longrightarrow> ti_node_id tg \<in> set ids) \<and> (\<forall>pl. in_placement i = Some pl \<longrightarrow> admits pl n)
     \<and> \<not> (\<exists>e \<in> set evacs. receives_on (in_evac_name i) e (ti_node_id tg))
     \<and> zn \<in> set zns \<and> p \<in> set (zn_pools zn) \<and> name_any (zn_meta zn) = ti_node_id tg \<and> zp_name p = pool_component dest
     \<and> unat (space_needed i) \<le> unat (pool_free p)
          - unat (reserved_in (build_ledger (in_evac_name i) evacs) (ti_node_id tg, pool_component dest))"
proof -
  let ?L = "build_ledger (in_evac_name i) evacs"
  obtain c where c: "eligible tkey i nodes allowed ?L (pool_component dest) zns c"
    "\<And>c'. eligible tkey i nodes allowed ?L (pool_component dest) zns c' \<Longrightarrow> cd_free c' \<le> cd_free c"
    "tg = \<lparr>ti_node = cd_node c, ti_node_id = cd_node_id c, ti_pool = dest, ti_new_volume_handle = []\<rparr>"
    using choose_target_Inr [OF assms] by blast
  from c(1) obtain zn p n where z: "zn \<in> set zns" "p \<in> set (zn_pools zn)" "name_any (zn_meta zn) = cd_node_id c"
      "zp_name p = pool_component dest" "\<not> skipped i nodes (cd_node_id c)"
      "eligible_node tkey i nodes allowed ?L (cd_node_id c) = Inr n"
      "consider_pool ?L (space_needed i) (pool_component dest) n (cd_node_id c) p = Inr c"
    unfolding eligible_def by blast
  have n: "find (\<lambda>n. node_id_of n = cd_node_id c) nodes = Some n" "\<forall>ids. allowed = Some ids \<longrightarrow> cd_node_id c \<in> set ids"
      "node_is_ready n" "\<not> node_has_evacuate_taint n tkey" "cd_node_id c \<notin> set (lg_busy ?L)"
      "\<forall>pl. in_placement i = Some pl \<longrightarrow> admits pl n"
    using z(6) unfolding eligible_node_iff by blast+
  have "n \<in> set nodes \<and> node_id_of n = cd_node_id c" using n(1) by (auto simp: find_Some_iff)
  moreover have "\<not> node_repels_pods n tkey" using n(3,4) by (rule target_node_not_repelling)
  moreover have "\<not> (\<exists>e \<in> set evacs. receives_on (in_evac_name i) e (cd_node_id c))" using n(5) by (simp add: busy_build_ledger)
  moreover have "cd_node_id c \<noteq> in_source_node_id i" using z(5) by (simp add: skipped_def)
  moreover have "unat (space_needed i) \<le> unat (pool_free p) - unat (reserved_in ?L (cd_node_id c, pool_component dest))"
    using consider_pool_no_wrap(1) [OF z(7)] z(4) by (cases "space_needed i = 0") auto
  ultimately show ?thesis
    using c z(1-4) n(2,3,6) by (intro exI [of _ c] exI [of _ n] exI [of _ zn] exI [of _ p]) simp
qed

lemma choose_target_free:
  assumes "choose_target tkey i nodes es dest allowed zns = Inr tg"
  shows "\<not> (\<exists>e \<in> set es. receives_on (in_evac_name i) e (ti_node_id tg))"
  using chosen_target_best [OF assms] by blast

end
