(* ===== verification/Admission.thy ===== *)
theory Admission
  imports Phase_Common Placement
begin

text \<open>
  The attach lock's reader (\<open>deploy/admission.yaml\<close>): the ValidatingAdmissionPolicy's CEL expressions
  over a pod at its creation and the parameter object the controller maintains, and what they
  promise together with the scheduler's rules, as \<open>placement.rs\<close> states them.
\<close>

section \<open>The policy\<close>

definition SOURCE_TAINT :: string where "SOURCE_TAINT = ''zfsevac.alumino.us/evacuate''"
definition CORDON_TAINT_KEY :: string where "CORDON_TAINT_KEY = ''node.kubernetes.io/unschedulable''"

definition referenced_keys :: "string \<Rightarrow> pod \<Rightarrow> string list" where
  "referenced_keys ns p = (case Option.bind (pod_spec p) ps_volumes of
     None \<Rightarrow> []
   | Some vs \<Rightarrow> map (\<lambda>v. ns @ ''/'' @ (case vol_claim v of Some c \<Rightarrow> c | None \<Rightarrow> pod_name p @ ''-'' @ vol_name v))
       (filter (\<lambda>v. vol_claim v \<noteq> None \<or> vol_ephemeral v) vs))"

definition unset :: "string option \<Rightarrow> bool" where
  "unset o1 \<longleftrightarrow> o1 = None \<or> o1 = Some []"

definition bypassing_toleration :: "toleration \<Rightarrow> bool" where
  "bypassing_toleration t \<longleftrightarrow>
     (unset (tol_key t) \<or> tol_key t = Some CORDON_TAINT_KEY) \<and> (unset (tol_effect t) \<or> tol_effect t = Some ''NoSchedule'')
   \<or> tol_key t = Some SOURCE_TAINT
     \<and> (unset (tol_effect t) \<or> tol_effect t = Some ''NoSchedule'' \<or> tol_effect t = Some ''NoExecute'')"

definition bypasses_cordon :: "pod \<Rightarrow> bool" where
  "bypasses_cordon p \<longleftrightarrow>
     is_some_and (Option.bind (pod_spec p) ps_node_name) (\<lambda>n. n \<noteq> [])
   \<or> is_some_and (Option.bind (pod_spec p) ps_tolerations) (list_ex bypassing_toleration)"

definition denied :: "evacuation_params_spec \<Rightarrow> string \<Rightarrow> pod \<Rightarrow> bool" where
  "denied params ns p \<longleftrightarrow>
     list_ex (\<lambda>k. k \<in> set (pvc_keys params)) (referenced_keys ns p)
   \<or> bypasses_cordon p \<and> list_ex (\<lambda>k. k \<in> set (claimable_pvc_keys params)) (referenced_keys ns p)"

text \<open>\<open>parameterNotFoundAction: Allow\<close>\<close>

definition admitted :: "evacuation_params option \<Rightarrow> string \<Rightarrow> pod \<Rightarrow> bool" where
  "admitted o1 ns p = (case o1 of None \<Rightarrow> True | Some x \<Rightarrow> \<not> denied (ep_spec x) ns p)"

section \<open>The policy reads the lock table\<close>

lemma set_referenced_keys:
  "set (referenced_keys ns p) = (\<lambda>n. ns @ ''/'' @ n) ` set (pod_pvc_names p)"
proof (cases "Option.bind (pod_spec p) ps_volumes")
  case None
  then show ?thesis by (cases "pod_spec p") (simp_all add: referenced_keys_def pod_pvc_names_def List.map_filter_simps)
next
  case (Some vs)
  then obtain s where s: "pod_spec p = Some s" "ps_volumes s = Some vs" by (auto simp: bind_eq_Some_conv)
  have "set (map (\<lambda>v. ns @ ''/'' @ (case vol_claim v of Some c \<Rightarrow> c | None \<Rightarrow> pod_name p @ ''-'' @ vol_name v))
       (filter (\<lambda>v. vol_claim v \<noteq> None \<or> vol_ephemeral v) vs))
     = (\<lambda>n. ns @ ''/'' @ n) ` set (List.map_filter (volume_pvc_name (pod_name p)) vs)"
    by (induction vs) (auto simp: List.map_filter_simps volume_pvc_name_def split: option.split)
  then show ?thesis using Some s by (simp add: referenced_keys_def pod_pvc_names_def)
qed

lemma denied_iff:
  "denied params ns p \<longleftrightarrow> (\<exists>n \<in> set (pod_pvc_names p). (case locked_mode params (ns @ ''/'' @ n) of
     None \<Rightarrow> False | Some WhenIdle \<Rightarrow> True | Some WhenClaimed \<Rightarrow> bypasses_cordon p))"
  by (auto simp: denied_def list_ex_iff set_referenced_keys locked_mode_def)

section \<open>Binding to the source\<close>

text \<open>
  The cordon stands for a taint of its own (\<open>spec.unschedulable\<close>).
\<close>

definition cordon_taint :: taint where
  "cordon_taint = \<lparr>ta_key = CORDON_TAINT_KEY, ta_effect = ''NoSchedule'', ta_value = None\<rparr>"

definition cordoned :: "node \<Rightarrow> bool" where
  "cordoned n \<longleftrightarrow> (\<exists>s. node_spec n = Some s \<and> ns_unschedulable s = Some True)"

definition pod_tolerations :: "pod \<Rightarrow> toleration list" where
  "pod_tolerations p = unwrap_or (Option.bind (pod_spec p) ps_tolerations) []"

text \<open>
  Which pods get onto which nodes is the scheduler's business, a parameter \<open>lands\<close>. What the code
  relies on is its documented rule: a pod that does not name its node lands only where it tolerates
  every hard taint, the cordon's included.
\<close>

definition obeys_taints :: "(pod \<Rightarrow> node \<Rightarrow> bool) \<Rightarrow> bool" where
  "obeys_taints lands \<longleftrightarrow> (\<forall>p n. lands p n \<and> \<not> pod_is_scheduled p \<longrightarrow>
     (cordoned n \<longrightarrow> (\<exists>tol \<in> set (pod_tolerations p). tolerates tol cordon_taint))
   \<and> (\<forall>t \<in> set (node_taints n). hard_taint t \<longrightarrow> (\<exists>tol \<in> set (pod_tolerations p). tolerates tol t)))"

text \<open>The toleration that the policy lets through although it matches the evacuate taint.\<close>

definition tolerates_all_noexecute :: "toleration \<Rightarrow> bool" where
  "tolerates_all_noexecute tol \<longleftrightarrow> unset (tol_key tol) \<and> tol_operator tol = Some ''Exists'' \<and> tol_effect tol = Some ''NoExecute''"

lemma tolerates_bypassing:
  assumes "tolerates tol t" and "ta_key t = CORDON_TAINT_KEY \<and> ta_effect t = ''NoSchedule''
      \<or> ta_key t = SOURCE_TAINT \<and> ta_effect t = ''NoSchedule''"
  shows "bypassing_toleration tol"
  using tolerates_key [OF assms(1)] tolerates_effect [OF assms(1)] assms(2)
  by (auto simp: bypassing_toleration_def unset_def CORDON_TAINT_KEY_def SOURCE_TAINT_def)

lemma tolerates_noexecute:
  assumes "tolerates tol t" and "ta_key t = SOURCE_TAINT" and "ta_effect t = ''NoExecute''" and "\<not> bypassing_toleration tol"
  shows "tolerates_all_noexecute tol"
  using tolerates_key [OF assms(1)] tolerates_effect [OF assms(1)] assms(2-4)
  by (auto simp: bypassing_toleration_def tolerates_all_noexecute_def unset_def)

lemma not_bypassing:
  assumes "\<not> bypasses_cordon p"
  shows "\<not> pod_is_scheduled p" and "tol \<in> set (pod_tolerations p) \<Longrightarrow> \<not> bypassing_toleration tol"
  using assms
  by (auto simp: bypasses_cordon_def pod_is_scheduled_def pod_tolerations_def is_some_and_def list_ex_iff
      split: option.splits)

text \<open>What makes a node repel pods, by the code's own test.\<close>

lemma repels_cases:
  assumes "node_repels_pods n key"
  shows "cordoned n \<or> (\<exists>t \<in> set (node_taints n). ta_key t = key \<and> hard_taint t)"
  using assms
  by (auto simp: node_repels_pods_iff cordoned_def hard_taint_def)

text \<open>A pod that the policy admits and that lands on a repelling node all the same.\<close>

lemma admitted_landing:
  assumes "obeys_taints lands" and "lands p n" and "\<not> bypasses_cordon p" and "node_repels_pods n SOURCE_TAINT"
  shows "\<not> cordoned n \<and> (\<forall>t \<in> set (node_taints n). ta_key t = SOURCE_TAINT \<longrightarrow> ta_effect t \<noteq> ''NoSchedule'')
     \<and> (\<exists>t \<in> set (node_taints n). ta_key t = SOURCE_TAINT \<and> ta_effect t = ''NoExecute'')
     \<and> (\<exists>tol \<in> set (pod_tolerations p). tolerates_all_noexecute tol)"
proof -
  note no = not_bypassing [OF assms(3)]
  have ok: "cordoned n \<Longrightarrow> \<exists>tol \<in> set (pod_tolerations p). tolerates tol cordon_taint"
    "\<And>t. t \<in> set (node_taints n) \<Longrightarrow> hard_taint t \<Longrightarrow> \<exists>tol \<in> set (pod_tolerations p). tolerates tol t"
    using assms(1,2) no(1) unfolding obeys_taints_def by blast+
  have c: "\<not> cordoned n"
    using ok(1) no(2) tolerates_bypassing [of _ cordon_taint] by (auto simp: cordon_taint_def)
  have s: "ta_effect t \<noteq> ''NoSchedule''" if "t \<in> set (node_taints n)" "ta_key t = SOURCE_TAINT" for t
    using ok(2) [OF that(1)] no(2) tolerates_bypassing [of _ t] that(2) by (auto simp: hard_taint_def)
  obtain t where t: "t \<in> set (node_taints n)" "ta_key t = SOURCE_TAINT" "hard_taint t"
    using repels_cases [OF assms(4)] c by blast
  then have e: "ta_effect t = ''NoExecute''" using s by (auto simp: hard_taint_def)
  obtain tol where "tol \<in> set (pod_tolerations p)" "tolerates tol t" using ok(2) t by blast
  then have "tolerates_all_noexecute tol" using tolerates_noexecute t(2) e no(2) by blast
  then show ?thesis using c s t e \<open>tol \<in> set (pod_tolerations p)\<close> by blast
qed

end
