(* ===== verification/Quantity_Facts.thy ===== *)
theory Quantity_Facts
  imports Quantity
begin

text \<open>
  Where \<open>parse_quantity\<close> is exact: the double arithmetic it uses represents the value of every binary
  quantity whose number has at most 53 bits, so such a quantity is read without rounding; plain
  byte counts never go through doubles at all.
\<close>

section \<open>Bit lengths\<close>

lemma bit_length_0 [simp]: "bit_length 0 = 0"
  by (simp add: bit_length.simps)

lemma bit_length_double: "0 < n \<Longrightarrow> bit_length (2 * n) = Suc (bit_length n)"
  by (simp add: bit_length.simps [of "2 * n"])

lemma bit_length_mult_power: "0 < n \<Longrightarrow> bit_length (n * 2 ^ k) = bit_length n + k"
proof (induction k)
  case (Suc k)
  have "bit_length (n * 2 ^ Suc k) = bit_length (2 * (n * 2 ^ k))" by (simp add: ac_simps)
  also have "\<dots> = Suc (bit_length (n * 2 ^ k))" using Suc.prems by (intro bit_length_double) simp
  finally show ?case using Suc by simp
qed simp

lemma bit_length_1 [simp]: "bit_length (Suc 0) = 1"
  by (simp add: bit_length.simps)

lemma bit_length_power [simp]: "bit_length (2 ^ k) = Suc k"
  using bit_length_mult_power [of 1 k] by simp

lemma bit_length_le: "n < 2 ^ k \<Longrightarrow> bit_length n \<le> k"
proof (induction n arbitrary: k rule: bit_length.induct)
  case (1 n)
  show ?case
  proof (cases "n = 0")
    case False
    then have "0 < k" using "1.prems" by (cases k) auto
    then obtain k' where k: "k = Suc k'" by (cases k) auto
    have "n div 2 < 2 ^ k'" using "1.prems" k by simp
    with "1.IH" [OF False, of k'] False k show ?thesis by (simp add: bit_length.simps [of n])
  qed simp
qed

lemma less_bit_length: "n < 2 ^ bit_length n"
proof (induction n rule: bit_length.induct)
  case (1 n)
  show ?case
  proof (cases "n = 0")
    case False
    with 1 have "n div 2 < 2 ^ bit_length (n div 2)" by simp
    then have "n < 2 * 2 ^ bit_length (n div 2)" by linarith
    then show ?thesis using False by (simp add: bit_length.simps [of n])
  qed simp
qed

section \<open>Exact results\<close>

lemma round_half_even_exact [simp]: "0 < q \<Longrightarrow> round_half_even (a * q) q = a"
  by (simp add: round_half_even_def Let_def)

text \<open>A number of 53 bits times a power of two is a double, whatever fraction it is given as.\<close>

definition f64_value :: "f64 \<Rightarrow> nat \<Rightarrow> bool" where
  "f64_value x v \<longleftrightarrow> (\<exists>m e. x = F_fin m e \<and> (if 0 \<le> e then m * 2 ^ nat e = v else m = v * 2 ^ nat (- e)))"

lemma f64_exponent_le:
  assumes "0 < a" "a < 2 ^ 53" and p: "p = a * 2 ^ j * 2 ^ k" "q = 2 ^ k"
  shows "f64_exponent p q \<le> int j"
proof -
  have "bit_length a \<le> 53" using assms(2) by (rule bit_length_le)
  then have "int (bit_length p) - int (bit_length q) - 53 \<le> int j - 1"
    using assms(1) by (simp add: p bit_length_mult_power)
  then show ?thesis by (auto simp: f64_exponent_def Let_def)
qed

lemma f64_of_exact:
  assumes "a < 2 ^ 53" and p: "p = a * 2 ^ j * 2 ^ k" "q = 2 ^ k" and "a * 2 ^ j < 2 ^ 128"
  shows "f64_value (f64_of p q) (a * 2 ^ j)"
proof -
  define e where "e = f64_exponent p q"
  have e: "a = 0 \<or> e \<le> int j" using f64_exponent_le [OF _ assms(1) p] by (auto simp: e_def)
  have m: "scaled_round p q e = (if 0 \<le> e then (a * 2 ^ j) div 2 ^ nat e else a * 2 ^ j * 2 ^ nat (- e)) \<and>
      (0 \<le> e \<longrightarrow> (a * 2 ^ j) div 2 ^ nat e * 2 ^ nat e = a * 2 ^ j)"
  proof (cases "0 \<le> e")
    case True
    show ?thesis
    proof (cases "a = 0")
      case False
      then obtain i where i: "j = nat e + i" using e True by (metis le_add_diff_inverse le_nat_iff nat_int nat_le_iff)
      have "p = (a * 2 ^ i) * (q * 2 ^ nat e)" by (simp add: p i power_add ac_simps)
      then have "scaled_round p q e = a * 2 ^ i"
        using True by (simp only: scaled_round_def if_True) (rule round_half_even_exact, simp add: p)
      then show ?thesis using True by (simp add: i power_add)
    qed (use True p in \<open>simp add: scaled_round_def round_half_even_def\<close>)
  next
    case False
    have "p * 2 ^ nat (- e) = (a * 2 ^ j * 2 ^ nat (- e)) * q" by (simp add: p ac_simps)
    then have "scaled_round p q e = a * 2 ^ j * 2 ^ nat (- e)"
      using False by (simp only: scaled_round_def if_False) (rule round_half_even_exact, simp add: p)
    then show ?thesis using False by simp
  qed
  have small: "\<not> int (bit_length (scaled_round p q e)) + e > 1024"
  proof (cases "0 \<le> e")
    case True
    then have "scaled_round p q e * 2 ^ nat e < 2 ^ 128" using m assms(4) by simp
    then have "scaled_round p q e = 0 \<or> bit_length (scaled_round p q e) + nat e \<le> 128"
      using bit_length_mult_power [of "scaled_round p q e" "nat e"] bit_length_le [of "scaled_round p q e * 2 ^ nat e" 128] by fastforce
    moreover have "e \<le> 1024 \<or> scaled_round p q e \<noteq> 0"
    proof (rule disjCI)
      assume "\<not> scaled_round p q e \<noteq> 0"
      then have "a = 0" using m True by simp
      then have "e \<le> 0" by (simp add: e_def p f64_exponent_def Let_def)
      then show "e \<le> 1024" by simp
    qed
    ultimately show ?thesis using True by fastforce
  next
    case False
    then have "scaled_round p q e = a * 2 ^ j * 2 ^ nat (- e)" using m by simp
    moreover have "a * 2 ^ j * 2 ^ nat (- e) < 2 ^ 128 * 2 ^ nat (- e)" using assms(4) by simp
    ultimately have "scaled_round p q e < 2 ^ (128 + nat (- e))" by (simp add: power_add)
    then have "bit_length (scaled_round p q e) \<le> 128 + nat (- e)" by (rule bit_length_le)
    then show ?thesis using False by linarith
  qed
  have "f64_of p q = F_fin (scaled_round p q e) e" using small by (simp add: f64_of_def Let_def e_def)
  then show ?thesis using m by (auto simp: f64_value_def)
qed

lemma f64_mult_exact:
  assumes x: "f64_value x a" and "a < 2 ^ 53" and "a * 2 ^ j < 2 ^ 128"
  shows "f64_value (f64_mult x (2 ^ j)) (a * 2 ^ j)"
proof -
  obtain m e where m: "x = F_fin m e" "if 0 \<le> e then m * 2 ^ nat e = a else m = a * 2 ^ nat (- e)"
    using x by (auto simp: f64_value_def)
  show ?thesis
  proof (cases "0 \<le> e")
    case True
    then have "f64_mult x (2 ^ j) = f64_of (a * 2 ^ j * 2 ^ 0) (2 ^ 0)" using m by (simp add: f64_mult_def)
    then show ?thesis using f64_of_exact [OF assms(2) refl refl assms(3), where k = 0] by simp
  next
    case False
    then have "f64_mult x (2 ^ j) = f64_of (a * 2 ^ j * 2 ^ nat (- e)) (2 ^ nat (- e))"
      using m by (simp add: f64_mult_def ac_simps)
    then show ?thesis using f64_of_exact [OF assms(2) refl refl assms(3), where k = "nat (- e)"] by simp
  qed
qed

lemma f64_to_u128_exact: "f64_value x v \<Longrightarrow> v < 2 ^ 128 \<Longrightarrow> f64_to_u128 x = word_of_nat v"
  by (auto simp: f64_value_def f64_to_u128_def Let_def split: if_splits)

section \<open>Quantities read exactly\<close>

lemma strip_all_id:
  assumes "\<And>w. w \<in> set ws \<Longrightarrow> hd w \<noteq> c"
  shows "strip_all ws (c # cs) = c # cs"
proof -
  have "first_some (\<lambda>w. strip_prefix w (c # cs)) ws = None"
  proof (rule ccontr)
    assume "first_some (\<lambda>w. strip_prefix w (c # cs)) ws \<noteq> None"
    then obtain w s' where w: "w \<in> set ws" "strip_prefix w (c # cs) = Some s'" using first_some_in by fastforce
    then have "take (length w) (c # cs) = w" "w \<noteq> []" by (auto simp: strip_prefix_def split: if_splits)
    then have "hd w = c" by (cases w) auto
    with assms w show False by blast
  qed
  then show ?thesis by (simp add: strip_all.simps)
qed

text \<open>Text that starts with a digit and ends in a digit or a letter has nothing to trim.\<close>

lemma white_space_ends:
  "w \<in> set white_space \<Longrightarrow> of_char (hd w) \<in> ({9, 10, 11, 12, 13, 32, 194, 225, 226, 227} :: nat set)"
  "w \<in> set white_space \<Longrightarrow> of_char (last w) < (48 :: nat) \<or> 127 < (of_char (last w) :: nat)"
  by (auto simp: white_space_def bytes_def upt_rec)

lemma trim_id:
  assumes "is_digit c" and "of_char d \<in> {48 .. 127 :: nat}" and "s = c # cs" and "s = ds @ [d]"
  shows "trim s = s"
proof -
  have "strip_all white_space s = s"
    unfolding assms(3) by (rule strip_all_id) (use white_space_ends(1) assms(1) in \<open>fastforce simp: is_digit_def\<close>)
  moreover have "strip_all (map rev white_space) (rev s) = rev s"
    unfolding assms(4) rev_append rev.simps append.simps
  proof (rule strip_all_id)
    fix w assume "w \<in> set (map rev white_space)"
    then obtain v where "v \<in> set white_space" "w = rev v" by auto
    then show "hd w \<noteq> d" using white_space_ends(2) [of v] assms(2) by (auto simp: hd_rev)
  qed
  ultimately show ?thesis by (simp add: trim_def)
qed

lemma dec_Cons: "\<exists>c cs. dec n = c # cs \<and> is_digit c"
  by (metis dec_no_sign dec_nonempty list.exhaust)

lemma dec_snoc: "\<exists>ds d. dec n = ds @ [d] \<and> is_digit d"
  by (metis append_butlast_last_id dec_digits dec_nonempty last_in_set list.pred_set)

lemma takeWhile_dec: "(\<And>c. is_digit c \<Longrightarrow> P c) \<Longrightarrow> s = [] \<or> \<not> P (hd s) \<Longrightarrow> takeWhile P (dec n @ s) = dec n \<and> dropWhile P (dec n @ s) = s"
proof -
  assume P: "\<And>c. is_digit c \<Longrightarrow> P c" and s: "s = [] \<or> \<not> P (hd s)"
  have all: "\<forall>c \<in> set (dec n). P c" using dec_digits [of n] P by (simp add: list_all_iff)
  show ?thesis using s all by (cases s) (simp_all add: takeWhile_append2 dropWhile_append2)
qed

lemma parse_decimal_dec: "parse_decimal (dec n) = Some (False, n, 0)"
proof -
  obtain c cs where c: "dec n = c # cs" "is_digit c" using dec_Cons by blast
  then have sign: "(take 1 (dec n) = ''-'') = False" "(take 1 (dec n) = ''+'') = False" by (auto simp: is_digit_def)
  have w: "takeWhile is_digit (dec n) = dec n" "dropWhile is_digit (dec n) = []"
    using takeWhile_dec [of is_digit "[]" n] by simp_all
  show ?thesis unfolding parse_decimal_def Let_def sign if_False disj_not1 simp_thms w list.case prod.case by simp
qed

definition binary_suffixes :: "(string \<times> nat) list" where
  "binary_suffixes = [(''Ki'', 10), (''Mi'', 20), (''Gi'', 30), (''Ti'', 40), (''Pi'', 50), (''Ei'', 60)]"

lemma binary_suffix:
  assumes "(suf, j) \<in> set binary_suffixes"
  shows "suffix_mult suf = Some (2 ^ j)" "\<not> number_char (hd suf)" "suf \<noteq> []" "last suf = CHR ''i''" "j \<le> 60"
proof -
  consider "suf = ''Ki'' \<and> j = 10" | "suf = ''Mi'' \<and> j = 20" | "suf = ''Gi'' \<and> j = 30" | "suf = ''Ti'' \<and> j = 40"
    | "suf = ''Pi'' \<and> j = 50" | "suf = ''Ei'' \<and> j = 60"
    using assms by (auto simp: binary_suffixes_def)
  then have "suffix_mult suf = Some (2 ^ j) \<and> \<not> number_char (hd suf) \<and> suf \<noteq> [] \<and> last suf = CHR ''i'' \<and> j \<le> 60"
    by cases (simp_all add: suffix_mult_def number_char_def is_digit_def)
  then show "suffix_mult suf = Some (2 ^ j)" "\<not> number_char (hd suf)" "suf \<noteq> []" "last suf = CHR ''i''" "j \<le> 60"
    by blast+
qed

lemma trim_quantity:
  assumes "(suf, j) \<in> set binary_suffixes"
  shows "trim (dec n @ suf) = dec n @ suf"
proof -
  note suf = binary_suffix [OF assms(1)]
  obtain c cs where c: "dec n = c # cs" "is_digit c" using dec_Cons by blast
  have last: "dec n @ suf = (dec n @ butlast suf) @ [CHR ''i'']" using suf(3,4) append_butlast_last_id [of suf] by simp
  show ?thesis by (rule trim_id [OF c(2) _ _ last]) (simp_all add: c)
qed

lemma parse_quantity_binary:
  assumes "(suf, j) \<in> set binary_suffixes" and "n < 2 ^ 53"
  shows "parse_quantity (dec n @ suf) = Some (word_of_nat (n * 2 ^ j))"
proof -
  note suf = binary_suffix [OF assms(1)]
  note t = trim_quantity [OF assms(1), of n]
  have w: "takeWhile number_char (dec n @ suf) = dec n" "dropWhile number_char (dec n @ suf) = suf"
    using takeWhile_dec [of number_char suf n] suf(2) by (simp_all add: number_char_def)
  have b1: "n * 2 ^ j < 2 ^ 128"
  proof -
    have "n * 2 ^ j < 2 ^ 53 * 2 ^ j" using assms(2) by simp
    also have "\<dots> \<le> 2 ^ 53 * 2 ^ 60" using suf(5) by (intro mult_le_mono power_increasing) simp_all
    finally show ?thesis by simp
  qed
  have "n < 2 ^ 128" using assms(2) by simp
  then have "f64_value (f64_of n 1) n" using f64_of_exact [OF assms(2), of n 0 0 1] by simp
  then have "f64_value (f64_mult (f64_of n 1) (2 ^ j)) (n * 2 ^ j)" by (rule f64_mult_exact [OF _ assms(2) b1])
  then have "f64_to_u128 (f64_mult (f64_of n 1) (2 ^ j)) = word_of_nat (n * 2 ^ j)" using b1 by (rule f64_to_u128_exact)
  then show ?thesis
    unfolding parse_quantity_def Let_def t w parse_decimal_dec suf(1) option.case prod.case using suf(3) by simp
qed

lemma suffix_not_a_number:
  assumes "(suf, j) \<in> set binary_suffixes"
  shows "parse_unsigned 128 (dec n @ suf) = None"
proof -
  note suf = binary_suffix [OF assms]
  obtain c cs where c: "dec n = c # cs" "is_digit c" using dec_Cons by blast
  have plus: "c \<noteq> CHR ''+''" using c(2) by (auto simp: is_digit_def)
  have "\<not> list_all is_digit suf" using suf(4) last_in_set [OF suf(3)] by (auto simp: list_all_iff is_digit_def intro!: bexI [of _ "CHR ''i''"])
  then have "parse_digits (dec n @ suf) = None" by (simp add: parse_digits_def)
  with plus show ?thesis by (simp add: parse_unsigned_def c)
qed

lemma trim_dec: "trim (dec n) = dec n"
proof -
  obtain c cs where c: "dec n = c # cs" "is_digit c" using dec_Cons by blast
  obtain ds d where d: "dec n = ds @ [d]" "is_digit d" using dec_snoc by blast
  show ?thesis by (rule trim_id [OF c(2) _ c(1) d(1)]) (use d(2) in \<open>simp add: is_digit_def\<close>)
qed

end
