(* ===== verification/Component_Properties.thy ===== *)
theory Component_Properties
  imports Target_Facts Admission Quantity_Facts
begin

text \<open>
  Properties of the pure components: the verdict on an attempt, the lock table and the admission
  policy that reads it, placement and target selection, the relay's allowlist, quantities, handles
  and the replacement PV.
\<close>

section \<open>Inputs of the witnesses\<close>

definition relay1 :: relay_obs where
  "relay1 = \<lparr>ro_attempt = 1, ro_bytes = 5, ro_last_activity = 100, ro_task_finished = False, ro_source_connected = True\<rparr>"

definition obs1 :: transfer_obs where
  "obs1 = \<lparr>to_attempt = 1, to_failure_reason = None, to_bkp_status = ''Init'', to_rst_status = ''Init'', to_rst_exists = True,
     to_mem = Some relay1, to_elapsed_secs = 4000, to_now_secs = 1000, to_timeout_secs = 3600, to_stall_secs = 120\<rparr>"

definition pod_of :: "string option \<Rightarrow> toleration list \<Rightarrow> pod" where
  "pod_of nd tols = \<lparr>pod_meta = named_meta ''web-0'',
     pod_spec = Some (default_pod_spec\<lparr>ps_node_name := nd, ps_tolerations := Some tols,
       ps_volumes := Some [\<lparr>vol_name = ''v'', vol_claim = Some ''data'', vol_ephemeral = False\<rparr>]\<rparr>)\<rparr>"

definition node_of :: "string \<Rightarrow> bool \<Rightarrow> taint list \<Rightarrow> node" where
  "node_of n cordon ts = \<lparr>node_meta = named_meta n,
     node_spec = Some \<lparr>ns_taints = Some ts, ns_unschedulable = Some cordon, ns_pod_cidr = None, ns_pod_cidrs = Some [''10.0.0.0/8'']\<rparr>,
     node_status = Some \<lparr>nt_addresses = None, nt_conditions = Some [\<lparr>c_type = ''Ready'', c_status = ''True''\<rparr>]\<rparr>\<rparr>"

definition evacuate_taint :: "string \<Rightarrow> taint" where
  "evacuate_taint eff = \<lparr>ta_key = SOURCE_TAINT, ta_effect = eff, ta_value = None\<rparr>"

lemma pvc_names_of [simp]: "pod_pvc_names (pod_of nd tols) = [''data'']"
  by (simp add: pod_of_def pod_pvc_names_def volume_pvc_name_def List.map_filter_simps)

section \<open>The verdict\<close>

text \<open>C24 The verdict, with the exact condition of each of its seven outcomes. An attempt is complete
  exactly when both agents report Done, whatever else was recorded, so data that did arrive is never
  thrown away; it fails exactly for one of the causes of \<open>fail_cause\<close>, with that text; the other five
  come only while nothing durable has decided. And a stream that flows is never cut by the attempt
  timeout: with the relay of the recorded attempt moving bytes, only a recorded reason, an agent's
  failure report or a stall ends it.\<close>

theorem verdict_decided:
  "(transfer_verdict o1 = Complete b \<longleftrightarrow>
      to_bkp_status o1 = BKP_STATUS_DONE \<and> to_rst_status o1 = BKP_STATUS_DONE \<and> b = map_option ro_bytes (to_mem o1))
   \<and> (transfer_verdict o1 = FailAttempt r \<longleftrightarrow>
      \<not> (to_bkp_status o1 = BKP_STATUS_DONE \<and> to_rst_status o1 = BKP_STATUS_DONE) \<and> fail_cause o1 r)
   \<and> (transfer_verdict o1 = StaleStatus \<longleftrightarrow> undecided o1 \<and> (\<exists>m. to_mem o1 = Some m \<and> to_attempt o1 < ro_attempt m))
   \<and> (transfer_verdict o1 = StaleRelay \<longleftrightarrow> undecided o1 \<and> (\<exists>m. to_mem o1 = Some m \<and> ro_attempt m < to_attempt o1))
   \<and> (transfer_verdict o1 = CreateRestore \<longleftrightarrow> undecided o1 \<and> \<not> to_rst_exists o1
        \<and> (\<exists>m. current_relay o1 m \<and> \<not> timed_out o1 m \<and> ro_source_connected m))
   \<and> (transfer_verdict o1 = WaitingForSource \<longleftrightarrow> undecided o1 \<and> \<not> to_rst_exists o1
        \<and> (\<exists>m. current_relay o1 m \<and> \<not> timed_out o1 m \<and> \<not> ro_source_connected m))
   \<and> (transfer_verdict o1 = Continue n \<longleftrightarrow> undecided o1 \<and> to_rst_exists o1
        \<and> (\<exists>m. current_relay o1 m \<and> \<not> timed_out o1 m \<and> \<not> stalled o1 m \<and> n = ro_bytes m))
   \<and> (current_relay o1 m \<and> 0 < ro_bytes m \<and> \<not> ro_task_finished m \<and> transfer_verdict o1 = FailAttempt r \<longrightarrow>
        to_failure_reason o1 = Some r \<or> bad_status (to_bkp_status o1) \<or> bad_status (to_rst_status o1)
      \<or> (to_rst_exists o1 \<and> unat (to_stall_secs o1) < unat (to_now_secs o1) - unat (ro_last_activity m)))"
proof (intro conjI)
  show "current_relay o1 m \<and> 0 < ro_bytes m \<and> \<not> ro_task_finished m \<and> transfer_verdict o1 = FailAttempt r \<longrightarrow>
        to_failure_reason o1 = Some r \<or> bad_status (to_bkp_status o1) \<or> bad_status (to_rst_status o1)
      \<or> (to_rst_exists o1 \<and> unat (to_stall_secs o1) < unat (to_now_secs o1) - unat (ro_last_activity m))"
    by (auto simp: fail_iff fail_cause_def current_relay_def timed_out_def stalled_def flowing_def word_less_nat_alt unat_sat_sub)
qed (rule complete_iff fail_iff stale_status_iff stale_relay_iff create_restore_iff waiting_iff continue_iff)+

lemma verdict_decided_witness: "unat (to_stall_secs obs1) < unat (to_now_secs obs1) - unat (ro_last_activity relay1)"
proof -
  have "transfer_verdict obs1 = FailAttempt ''transfer stalled (no bytes)''"
    by (simp add: obs1_def relay1_def transfer_verdict_def openebs_consts bad_status_def flowing_def sat_sub_def word_less_nat_alt)
  with verdict_decided [of obs1 None "''transfer stalled (no bytes)''" 0 relay1] show ?thesis
    by (simp add: obs1_def relay1_def openebs_consts bad_status_def current_relay_def)
qed

section \<open>The lock\<close>

text \<open>C27 The lock table after any history of operations: a key is locked under the mode of the last
  operation on it, and not at all when that was an unlock, or when there was none and it was not
  locked before; operations on other keys do not matter. No key ever is in both lists or twice in
  one.\<close>

theorem lock_history:
  assumes "wf_params p"
  shows "locked_mode (params.apply_ops xs p) k =
       (case filter (\<lambda>x. op_key x = k) xs of [] \<Rightarrow> locked_mode p k | ys \<Rightarrow> op_mode (last ys))
     \<and> wf_params (params.apply_ops xs p)"
  using params.view_apply_ops params.wf_apply_ops [OF assms] by blast

lemma lock_history_witness:
  "locked_mode (params.apply_ops [Lock_op ''a/b'' WhenIdle, Lock_op ''a/c'' WhenIdle, Unlock_op ''a/b''] default_params) ''a/b'' = None"
  using lock_history [of default_params "[Lock_op ''a/b'' WhenIdle, Lock_op ''a/c'' WhenIdle, Unlock_op ''a/b'']" "''a/b''"]
  by (simp add: wf_params_def default_params_def)



text \<open>C15 The lock and a repelling source together keep the consumers away, with one gap. Let the claim be
  locked, and let the source node repel pods by the controller's own test (a cordon, or the evacuate
  taint with a hard effect). Then whatever pod references the claim, it is denied, or it does not land
  on that node, by any scheduler that respects taints; unless the lock is WhenClaimed, the node is not
  cordoned, its evacuate taint has only the effect NoExecute, and the pod has a toleration without a key
  for every NoExecute taint.\<close>

theorem lock_and_cordon_suffice:
  assumes "pvc \<in> set (pod_pvc_names p)" and "\<forall>x \<in> set later. op_key x \<noteq> ns @ ''/'' @ pvc"
    and "node_repels_pods n SOURCE_TAINT" and "obeys_taints lands"
  shows "denied (params.apply_ops (earlier @ Lock_op (ns @ ''/'' @ pvc) m # later) s) ns p \<or> \<not> lands p n
     \<or> (m = WhenClaimed \<and> \<not> cordoned n \<and> \<not> pod_is_scheduled p
        \<and> (\<forall>t \<in> set (node_taints n). ta_key t = SOURCE_TAINT \<longrightarrow> ta_effect t \<noteq> ''NoSchedule'')
        \<and> (\<exists>t \<in> set (node_taints n). ta_key t = SOURCE_TAINT \<and> ta_effect t = ''NoExecute'')
        \<and> (\<exists>tol \<in> set (pod_tolerations p). unset (tol_key tol) \<and> tol_operator tol = Some ''Exists'' \<and> tol_effect tol = Some ''NoExecute''))"
proof -
  have "locked_mode (params.apply_ops (earlier @ Lock_op (ns @ ''/'' @ pvc) m # later) s) (ns @ ''/'' @ pvc) = Some m"
    by (rule params.view_after_lock) (use assms(2) in blast)
  then have d: "m = WhenIdle \<or> bypasses_cordon p \<longrightarrow> denied (params.apply_ops (earlier @ Lock_op (ns @ ''/'' @ pvc) m # later) s) ns p"
    unfolding denied_iff using assms(1) by (auto intro!: bexI [of _ pvc] split: evacuation_mode.split)
  show ?thesis
  proof (cases "m = WhenIdle \<or> bypasses_cordon p \<or> \<not> lands p n")
    case False
    then show ?thesis
      using admitted_landing [OF assms(4) _ _ assms(3), of p] not_bypassing(1) [of p]
      unfolding tolerates_all_noexecute_def by (cases m) blast+
  qed (use d in blast)
qed

lemma lock_and_cordon_suffice_witness:
  "denied (params.apply_ops ([] @ Lock_op (''app'' @ ''/'' @ ''data'') WhenClaimed # []) default_params) ''app'' (pod_of (Some ''n1'') [])"
proof -
  let ?lands = "\<lambda>p n. pod_is_scheduled p
     \<or> (cordoned n \<longrightarrow> (\<exists>tol \<in> set (pod_tolerations p). tolerates tol cordon_taint))
       \<and> (\<forall>t \<in> set (node_taints n). hard_taint t \<longrightarrow> (\<exists>tol \<in> set (pod_tolerations p). tolerates tol t))"
  have "obeys_taints ?lands" unfolding obeys_taints_def by blast
  moreover have "pod_is_scheduled (pod_of (Some ''n1'') [])" by (simp add: pod_of_def pod_is_scheduled_def)
  moreover have "node_repels_pods (node_of ''n1'' True []) SOURCE_TAINT" by (simp add: node_repels_pods_def node_of_def)
  ultimately show ?thesis
    using lock_and_cordon_suffice [of "''data''" "pod_of (Some ''n1'') []" "[]" "''app''" "node_of ''n1'' True []"
      ?lands "[]" WhenClaimed default_params] by simp
qed

text \<open>C38 The gap is real, for every such pod and node. When the only hard taints of a node have effect
  NoExecute and one of them is the evacuate taint, the controller counts the node as repelling; and a
  pod that tolerates every NoExecute taint without naming a key, and nothing else that the policy
  looks for, is admitted under every table in which its claims are locked WhenClaimed at most, while
  the placement rules the controller itself applies allow it onto that node wherever its selectors do.\<close>

theorem noexecute_gap:
  assumes "\<forall>t \<in> set (node_taints n). hard_taint t \<longrightarrow> ta_effect t = ''NoExecute''"
    and "t \<in> set (node_taints n)" and "ta_key t = key" and "hard_taint t"
    and "pod_tolerations p = [tol]" and "unset (tol_key tol)" and "tol_operator tol = Some ''Exists''" and "tol_effect tol = Some ''NoExecute''"
    and "Option.bind (pod_spec p) ps_node_name = None"
    and "\<forall>c \<in> set (pod_pvc_names p). locked_mode table (ns @ ''/'' @ c) \<noteq> Some WhenIdle"
  shows "node_repels_pods n key \<and> \<not> denied table ns p
     \<and> (admits (from_pod p) n \<longleftrightarrow>
          (\<forall>(k, v) \<in> set (pl_node_selector (from_pod p)). map_of (meta_labels (node_meta n)) k = Some v)
        \<and> (pl_terms (from_pod p) = [] \<or> (\<exists>t \<in> set (pl_terms (from_pod p)). term_matches t n)))"
proof (intro conjI)
  show "node_repels_pods n key"
    using assms(2-4) by (cases "node_spec n") (auto simp: node_repels_pods_iff hard_taint_def node_taints_def)
  have key: "tol_key tol \<noteq> Some CORDON_TAINT_KEY" "tol_key tol \<noteq> Some SOURCE_TAINT"
    using assms(6) by (auto simp: unset_def CORDON_TAINT_KEY_def SOURCE_TAINT_def)
  then have "\<not> bypassing_toleration tol" using assms(8) by (simp add: bypassing_toleration_def unset_def)
  then have "\<not> bypasses_cordon p"
    using assms(5,9) by (auto simp: bypasses_cordon_def pod_tolerations_def is_some_and_iff list_ex_iff split: option.splits)
  then show "\<not> denied table ns p"
    using assms(10) unfolding denied_iff by (auto split: option.splits evacuation_mode.splits)
  have "tolerates tol t'" if "t' \<in> set (node_taints n)" "hard_taint t'" for t'
    using assms(1,6-8) that by (auto simp: tolerates_def Let_def unset_def)
  moreover have "pl_tolerations (from_pod p) = [tol]"
    using assms(5) by (cases "pod_spec p") (simp_all add: from_pod_def pod_tolerations_def Let_def)
  ultimately show "admits (from_pod p) n \<longleftrightarrow>
          (\<forall>(k, v) \<in> set (pl_node_selector (from_pod p)). map_of (meta_labels (node_meta n)) k = Some v)
        \<and> (pl_terms (from_pod p) = [] \<or> (\<exists>t \<in> set (pl_terms (from_pod p)). term_matches t n))"
    unfolding admits_iff by auto
qed

lemma noexecute_gap_witness:
  "node_repels_pods (node_of ''n1'' False [evacuate_taint ''NoExecute'']) SOURCE_TAINT
   \<and> \<not> denied (params.apply_ops [Lock_op ''app/data'' WhenClaimed] default_params) ''app''
        (pod_of None [\<lparr>tol_key = None, tol_operator = Some ''Exists'', tol_effect = Some ''NoExecute'', tol_value = None\<rparr>])
   \<and> admits (from_pod (pod_of None [\<lparr>tol_key = None, tol_operator = Some ''Exists'', tol_effect = Some ''NoExecute'', tol_value = None\<rparr>]))
        (node_of ''n1'' False [evacuate_taint ''NoExecute''])"
  using noexecute_gap [of "node_of ''n1'' False [evacuate_taint ''NoExecute'']" "evacuate_taint ''NoExecute''" SOURCE_TAINT
      "pod_of None [\<lparr>tol_key = None, tol_operator = Some ''Exists'', tol_effect = Some ''NoExecute'', tol_value = None\<rparr>]"
      "\<lparr>tol_key = None, tol_operator = Some ''Exists'', tol_effect = Some ''NoExecute'', tol_value = None\<rparr>"
      "params.apply_ops [Lock_op ''app/data'' WhenClaimed] default_params" "''app''"]
  by (simp add: node_of_def node_taints_def evacuate_taint_def hard_taint_def pod_tolerations_def unset_def
      params.view_apply_ops) (simp add: pod_of_def default_pod_spec_def from_pod_def)

section \<open>Target selection\<close>

definition input1 :: selection_input where
  "input1 = \<lparr>in_evac_name = ''pv-1'', in_spec = \<lparr>es_pv_name = ''pv-1'', es_trigger = Annotation, es_mode = WhenIdle,
       es_target_node = None, es_target_pool = None, es_settle_seconds = None, es_transfer_timeout_seconds = None,
       es_max_attempts = None, es_headroom_percent = None\<rparr>,
     in_source_node_id = ''n1'', in_source_pool = ''tank/vols'', in_capacity_bytes = 100,
     in_pv = \<lparr>pv_meta = named_meta ''pv-1'', pv_spec = None, pv_status = None\<rparr>, in_group_extra_bytes = 0, in_anchor = None,
     in_placement = None\<rparr>"

definition nodes1 :: "node list" where
  "nodes1 = [node_of ''n1'' True [], node_of ''n2'' False []]"

definition znodes1 :: "zfs_node list" where
  "znodes1 = [\<lparr>zn_meta = named_meta ''n2'', zn_pools = [\<lparr>zp_name = ''tank'', zp_uuid = None, zp_free = Some (dec 500)\<rparr>]\<rparr>]"

text \<open>C13 The choice of the target is right and complete. It fails exactly when nothing is eligible, so a
  volume never waits while a place for it exists. Otherwise it is an eligible candidate with the most
  free space: another node than the source, Ready, not repelling pods, allowed by the StorageClass and
  by the consumer's placement, and not yet receiving another evacuation; and its pool has room for the
  volume, its group and the headroom beyond everything other evacuations have reserved there, counted
  without wrap-around.\<close>

theorem target_is_best:
  "case choose_target tkey i nodes evacs dest allowed zns of
     Inl e \<Rightarrow> \<not> (\<exists>c. eligible tkey i nodes allowed (build_ledger (in_evac_name i) evacs) (pool_component dest) zns c)
   | Inr tg \<Rightarrow> (\<exists>c n zn p. eligible tkey i nodes allowed (build_ledger (in_evac_name i) evacs) (pool_component dest) zns c
     \<and> (\<forall>c'. eligible tkey i nodes allowed (build_ledger (in_evac_name i) evacs) (pool_component dest) zns c' \<longrightarrow> cd_free c' \<le> cd_free c)
     \<and> ti_node_id tg = cd_node_id c \<and> ti_pool tg = dest
     \<and> ti_node_id tg \<noteq> in_source_node_id i
     \<and> n \<in> set nodes \<and> node_id_of n = ti_node_id tg \<and> node_is_ready n \<and> \<not> node_repels_pods n tkey
     \<and> (\<forall>ids. allowed = Some ids \<longrightarrow> ti_node_id tg \<in> set ids) \<and> (\<forall>pl. in_placement i = Some pl \<longrightarrow> admits pl n)
     \<and> \<not> (\<exists>e \<in> set evacs. receives_on (in_evac_name i) e (ti_node_id tg))
     \<and> zn \<in> set zns \<and> p \<in> set (zn_pools zn) \<and> name_any (zn_meta zn) = ti_node_id tg \<and> zp_name p = pool_component dest
     \<and> unat (space_needed i) \<le> unat (pool_free p)
          - unat (reserved_in (build_ledger (in_evac_name i) evacs) (ti_node_id tg, pool_component dest)))"
proof (cases "choose_target tkey i nodes evacs dest allowed zns")
  case (Inl e)
  then show ?thesis using choose_target_Inl [of tkey i nodes evacs dest allowed zns] by simp
next
  case (Inr tg)
  show ?thesis unfolding Inr sum.case by (rule chosen_target_best [OF Inr])
qed

lemma chosen1: "choose_target SOURCE_TAINT input1 nodes1 [] ''tank/vols'' None znodes1
    = Inr \<lparr>ti_node = ''n2'', ti_node_id = ''n2'', ti_pool = ''tank/vols'', ti_new_volume_handle = []\<rparr>"
proof -
  have "parse_quantity_or_bytes (dec 500) = Some 500"
    by (simp add: parse_quantity_or_bytes_def trim_dec parse_unsigned_dec)
  then show ?thesis
    by (simp add: choose_target_def Let_def znodes1_def nodes1_def consider_znode_def skipped_def input1_def explicit_node_def
        eligible_node_def node_of_def node_id_of_def meta_labels_def node_is_ready_def node_has_evacuate_taint_def node_taints_def
        build_ledger_def pool_component_def consider_pool_def pool_free_def reserved_in_def space_needed_def
        DEFAULT_HEADROOM_PERCENT_def sat_sub_def word_less_nat_alt word_le_nat_alt unat_div most_free_first_def rights_def List.map_filter_simps)
qed

lemma target_is_best_witness: "\<exists>n \<in> set nodes1. node_id_of n = ''n2'' \<and> \<not> node_repels_pods n SOURCE_TAINT"
  using target_is_best [where tkey = SOURCE_TAINT and i = input1 and nodes = nodes1 and evacs = "[]" and dest = "''tank/vols''"
    and allowed = None and zns = znodes1] unfolding chosen1 by auto

text \<open>C29 The anchor a group follows is the majority's node, and every controller run picks the same one:
  whatever the iteration order of the vote table, the pick is a sibling whose node has the most votes
  and, among those, the smallest name.\<close>

theorem anchor_majority:
  assumes "\<forall>xs. set (order xs) = set xs" and "\<forall>xs. set (order' xs) = set xs" and "pick_anchor order as = Some a"
  shows "a \<in> set as \<and> pick_anchor order' as = Some a
     \<and> (\<forall>b \<in> set as. votes as (an_node b) < votes as (an_node a)
          \<or> votes as (an_node b) = votes as (an_node a) \<and> an_node a \<le> an_node b)"
  using pick_anchor_Some [OF _ assms(3)] pick_anchor_order [of order order' as] assms by auto

definition anchors1 :: "anchor list" where
  "anchors1 = [\<lparr>an_node = ''n3'', an_pv_name = ''a'', an_how = ''x''\<rparr>, \<lparr>an_node = ''n2'', an_pv_name = ''b'', an_how = ''x''\<rparr>,
     \<lparr>an_node = ''n2'', an_pv_name = ''c'', an_how = ''x''\<rparr>]"

lemma anchor_majority_witness: "\<exists>a. pick_anchor rev anchors1 = Some a \<and> an_pv_name a = ''b''"
proof -
  have "pick_anchor id anchors1 = Some \<lparr>an_node = ''n2'', an_pv_name = ''b'', an_how = ''x''\<rparr>"
    by (simp add: pick_anchor_def anchors1_def vote_le_def votes_def)
  from anchor_majority [OF _ _ this, of rev] show ?thesis by simp
qed

section \<open>The relay's allowlist\<close>

definition pod_cidrs :: "node \<Rightarrow> string set" where
  "pod_cidrs n = {c. \<exists>spec. node_spec n = Some spec \<and> (c \<in> set (unwrap_or (ns_pod_cidrs spec) []) \<or> ns_pod_cidr spec = Some c)}"

text \<open>The address has the network's family and its leading prefix bits.\<close>

definition same_prefix :: "ip_net \<Rightarrow> ip_addr \<Rightarrow> bool" where
  "same_prefix net ip = (case (net_addr net, ip) of
     (V4 a, V4 b) \<Rightarrow> drop_bit (32 - unat (net_prefix net)) a = drop_bit (32 - unat (net_prefix net)) b
   | (V6 a, V6 b) \<Rightarrow> drop_bit (128 - unat (net_prefix net)) a = drop_bit (128 - unat (net_prefix net)) b
   | _ \<Rightarrow> False)"

lemma contains_same_prefix: "wf_net net \<Longrightarrow> contains net ip \<longleftrightarrow> same_prefix net ip"
  by (cases "net_addr net"; cases ip)
    (auto simp: same_prefix_def contains_V4 contains_V6 dest: contains_family simp: is_ipv4_def)

text \<open>C30 The allowlist of a relay port admits exactly the node's own addresses and the addresses of its pod
  networks: for a network read from a CIDR, those of its family that share its prefix bits. There is
  no empty allowlist: a node without any such address is an error.\<close>

theorem allowlist_exact:
  assumes "relay_peers n = Inr peers"
  shows "peers \<noteq> [] \<and> (accepts peers ip \<longleftrightarrow>
     ip \<in> set (node_ips n) \<or> (\<exists>c \<in> pod_cidrs n. \<exists>net. parse_cidr c = Some net \<and> same_prefix net ip))"
proof -
  have set: "set peers = host ` set (node_ips n) \<union> {net. \<exists>c \<in> pod_cidrs n. parse_cidr c = Some net}"
    using assms
    by (cases "node_spec n")
      (auto simp: relay_peers_def Let_def pod_cidrs_def set_map_filter split: if_splits option.splits)
  have "accepts peers ip \<longleftrightarrow> (\<exists>net \<in> set peers. contains net ip)" by (simp add: accepts_def list_ex_iff)
  also have "\<dots> \<longleftrightarrow> ip \<in> set (node_ips n) \<or> (\<exists>c \<in> pod_cidrs n. \<exists>net. parse_cidr c = Some net \<and> contains net ip)"
    unfolding set using contains_host by auto
  finally show ?thesis
    using relay_peers_nonempty [OF assms] contains_same_prefix wf_net_parse_cidr by metis
qed

lemma cidr1: "parse_cidr ''10.0.0.0/8'' = Some \<lparr>net_addr = V4 0x0A000000, net_prefix = 8\<rparr>"
proof -
  have t: "trim ''10.0.0.0'' = ''10.0.0.0''" "trim ''8'' = ''8''"
    by (rule trim_id [where ds = "''10.0.0.''", OF _ _ refl]; simp add: is_digit_def)
      (rule trim_id [where ds = "[]", OF _ _ refl]; simp add: is_digit_def)
  have a: "parse_ip ''10.0.0.0'' = Some (V4 0x0A000000)"
    by (simp add: parse_ip_def read_v4_def read_octet_def read_number_def radix_digit_def hex_value_def read_char_def)
  have "parse_unsigned 8 ''8'' = Some 8"
    by (simp add: parse_unsigned_def parse_digits_def digits_value_def is_digit_def)
  then show ?thesis by (simp add: parse_cidr_def split_once_def t a is_ipv4_def)
qed

lemma allowlist_exact_witness: "accepts [\<lparr>net_addr = V4 0x0A000000, net_prefix = 8\<rparr>] (V4 0x0A010203)"
proof -
  have "relay_peers (node_of ''n2'' False []) = Inr [\<lparr>net_addr = V4 0x0A000000, net_prefix = 8\<rparr>]"
    by (simp add: relay_peers_def node_ips_def node_of_def cidr1 List.map_filter_simps)
  from allowlist_exact [OF this] show ?thesis
    by (auto simp: pod_cidrs_def node_of_def cidr1 same_prefix_def)
qed

section \<open>Sizes, handles and the replacement PV\<close>

text \<open>C31 Sizes are read exactly: a plain byte count of any size the type holds, and a binary quantity whose
  number has at most 53 bits, although the code multiplies in floating point.\<close>

theorem quantity_exact:
  assumes "n < 2 ^ 53" and "(suf, j) \<in> {(''Ki'', 10), (''Mi'', 20), (''Gi'', 30), (''Ti'', 40), (''Pi'', 50), (''Ei'', 60)}"
    and "b < 2 ^ 128"
  shows "parse_quantity_or_bytes (dec n @ suf) = Some (word_of_nat (n * 2 ^ j))
     \<and> parse_quantity_or_bytes (dec b) = Some (word_of_nat b)"
proof -
  have suf: "(suf, j) \<in> set binary_suffixes" using assms(2) by (auto simp: binary_suffixes_def)
  show ?thesis
    using parse_quantity_binary [OF suf assms(1)] suffix_not_a_number [OF suf, of n] parse_unsigned_dec [OF assms(3)]
    by (simp add: parse_quantity_or_bytes_def trim_dec trim_quantity [OF suf])
qed

lemma quantity_exact_witness: "parse_quantity_or_bytes (dec 3 @ ''Gi'') = Some 3221225472"
  using quantity_exact [of 3 "''Gi''" 30 0] by simp

text \<open>C32 A migrated volume can be migrated again: the handle made for the destination from any random number
  passes the test a source handle must pass, and different numbers give different handles.\<close>

theorem handles_recyclable:
  "source_handle_fits_snapshot_label (handle_of r) \<and> (handle_of r = handle_of r' \<longleftrightarrow> r = r')"
proof
  have hex: "is_alnum (hex_digit d)" if "d < 16" for d
    using that of_char_hex_digit [OF that] by (auto simp: is_alnum_def is_digit_def)
  have all: "list_all is_alnum (hex_fixed w n)" for w n by (induction w arbitrary: n) (simp_all add: hex)
  have last: "is_alnum (last (hex_fixed (Suc w) n))" for w n by (simp add: hex)
  have z: "is_alnum (CHR ''z'')" "list_all (\<lambda>c. is_alnum c \<or> c = CHR ''-'' \<or> c = CHR ''_'' \<or> c = CHR ''.'') ''zevac-''"
    by (simp_all add: is_alnum_def)
  have h32: "hex_fixed 32 = hex_fixed (Suc 31)" by simp
  have "hex_fixed 32 (unat r) \<noteq> []" by (metis length_hex_fixed list.size(3) zero_neq_numeral)
  then have l: "last (''zevac-'' @ hex_fixed 32 (unat r)) = last (hex_fixed 32 (unat r))" by (rule last_appendR)
  have "list_all (\<lambda>c. is_alnum c \<or> c = CHR ''-'' \<or> c = CHR ''_'' \<or> c = CHR ''.'') (''zevac-'' @ hex_fixed 32 (unat r))"
    using z(2) all [of 32 "unat r"] by (auto simp only: list_all_append intro: list.pred_mono_strong)
  moreover have "is_alnum (last (''zevac-'' @ hex_fixed 32 (unat r)))"
    unfolding l unfolding h32 by (rule last)
  moreover have "length (''zevac-'' @ hex_fixed 32 (unat r)) \<le> 63" by simp
  ultimately show "source_handle_fits_snapshot_label (handle_of r)"
    using z(1) unfolding source_handle_fits_snapshot_label_def handle_of_def by simp
  have "unat x < 16 ^ 32" for x :: u128 using unsigned_less [of x, where ?'a = nat] by simp
  then show "handle_of r = handle_of r' \<longleftrightarrow> r = r'"
    using hex_fixed_inj [of "unat r" 32 "unat r'"] by (auto simp: handle_of_def word_unat_eq_iff)
qed

text \<open>C28 The replacement PV: the old one's name, labels and other annotations, the fields of its spec that the
  controller does not read (capacity, access modes, mount options, volume mode and the rest), its storage
  class, and of the CSI source the driver, all other attributes and every other field; the new volume
  handle, bound to the recorded claim by UID; the Retain policy until the swap is done; the node
  affinity of the target and of no other node; the pool attribute, where there was one, of the
  target; no trigger annotation, no finalizer, no UID, no deletion mark, no other metadata and no status.\<close>

theorem replacement_pv:
  assumes "render_new_pv old pref tg = Inr new"
  shows "\<exists>spec csi spec' csi'. pv_spec old = Some spec \<and> pvs_csi spec = Some csi \<and> pv_spec new = Some spec' \<and> pvs_csi spec' = Some csi'
     \<and> m_name (pv_meta new) = m_name (pv_meta old) \<and> m_labels (pv_meta new) = m_labels (pv_meta old)
     \<and> (\<forall>k. meta_annotation (pv_meta new) k = (if k = EVACUATE_ANNOTATION then None else meta_annotation (pv_meta old) k))
     \<and> m_uid (pv_meta new) = None \<and> meta_finalizers (pv_meta new) = [] \<and> \<not> being_deleted (pv_meta new) \<and> pv_status new = None
     \<and> csi_volume_handle csi' = ti_new_volume_handle tg \<and> csi_driver csi' = csi_driver csi \<and> csi_others csi' = csi_others csi
     \<and> (\<forall>k. oget (csi_volume_attributes csi') k =
          (if k = POOLNAME_ATTRIBUTE \<and> oget (csi_volume_attributes csi) k \<noteq> None then Some (ti_pool tg) else oget (csi_volume_attributes csi) k))
     \<and> pvs_others spec' = pvs_others spec \<and> m_generate_name (pv_meta new) = None \<and> m_others (pv_meta new) = []
     \<and> pvs_storage_class_name spec' = pvs_storage_class_name spec \<and> pvs_reclaim_policy spec' = Some ''Retain''
     \<and> (\<exists>ref. pvs_claim_ref spec' = Some ref \<and> or_namespace ref = Some (pr_namespace pref) \<and> or_name ref = Some (pr_name pref)
          \<and> or_uid ref = Some (pr_uid pref))
     \<and> (\<exists>pin. pvs_node_affinity spec' = Some \<lparr>vna_required = Some [pin]\<rparr>
          \<and> (\<forall>n. term_matches pin n \<longleftrightarrow> map_of (meta_labels (node_meta n)) NODE_ID_TOPOLOGY_KEY = Some (ti_node_id tg)))"
proof -
  obtain spec csi where o: "pv_spec old = Some spec" "pvs_csi spec = Some csi"
    using assms by (auto simp: render_new_pv_def Let_def split: option.splits)
  have ann: "oget (map_option (AList.delete k0) m) k = (if k = k0 then None else oget m k)" for k0 k m by (cases m) simp_all
  have attr: "oget (map_option (\<lambda>a. if map_of a k0 \<noteq> None then AList.update k0 v a else a) m) k
      = (if k = k0 \<and> oget m k \<noteq> None then Some v else oget m k)" for k0 k v m by (cases m) auto
  define pin where "pin = \<lparr>st_match_expressions = Some [\<lparr>r_key = NODE_ID_TOPOLOGY_KEY, r_operator = ''In'', r_values = Some [ti_node_id tg]\<rparr>],
     st_match_fields = None\<rparr>"
  have only: "term_matches pin n \<longleftrightarrow> map_of (meta_labels (node_meta n)) NODE_ID_TOPOLOGY_KEY = Some (ti_node_id tg)" for n
    by (auto simp: pin_def term_matches_def requirement_matches_def Let_def is_some_and_iff)
  have pinned: "pinned_to (ti_node_id tg) = \<lparr>vna_required = Some [pin]\<rparr>" by (simp add: pinned_to_def pin_def)
  from assms o have new: "new = \<lparr>pv_meta = default_meta\<lparr>m_name := m_name (pv_meta old), m_labels := m_labels (pv_meta old),
        m_annotations := map_option (AList.delete EVACUATE_ANNOTATION) (m_annotations (pv_meta old))\<rparr>,
      pv_spec = Some (spec\<lparr>pvs_claim_ref := Some (claim_for pref), pvs_reclaim_policy := Some ''Retain'',
        pvs_node_affinity := Some (pinned_to (ti_node_id tg)),
        pvs_csi := Some (csi\<lparr>csi_volume_handle := ti_new_volume_handle tg, csi_volume_attributes :=
          map_option (\<lambda>a. if map_of a POOLNAME_ATTRIBUTE \<noteq> None then AList.update POOLNAME_ATTRIBUTE (ti_pool tg) a else a)
            (csi_volume_attributes csi)\<rparr>)\<rparr>),
      pv_status = None\<rparr>"
    by (simp add: render_new_pv_def Let_def)
  show ?thesis
    unfolding new pinned using o only
    by (simp add: ann attr [unfolded not_None_eq] meta_annotation_def meta_finalizers_def being_deleted_def default_meta_def claim_for_def)
qed

definition old_pv1 :: persistent_volume where
  "old_pv1 = \<lparr>pv_meta = named_meta ''pv-1'',
     pv_spec = Some \<lparr>pvs_csi = Some \<lparr>csi_driver = ZFS_DRIVER, csi_volume_handle = ''pvc-1'', csi_volume_attributes = None, csi_others = []\<rparr>,
       pvs_claim_ref = None, pvs_reclaim_policy = Some ''Delete'', pvs_node_affinity = None, pvs_storage_class_name = None,
       pvs_others = [(''capacity'', ''1Gi'')]\<rparr>,
     pv_status = None\<rparr>"

lemma replacement_pv_witness:
  "\<exists>new. render_new_pv old_pv1 \<lparr>pr_namespace = ''app'', pr_name = ''data'', pr_uid = ''u''\<rparr>
      \<lparr>ti_node = ''n2'', ti_node_id = ''n2'', ti_pool = ''tank'', ti_new_volume_handle = ''h''\<rparr> = Inr new \<and> m_name (pv_meta new) = Some ''pv-1''
      \<and> map_option pvs_others (pv_spec new) = Some [(''capacity'', ''1Gi'')]"
proof -
  obtain new where new: "render_new_pv old_pv1 \<lparr>pr_namespace = ''app'', pr_name = ''data'', pr_uid = ''u''\<rparr>
      \<lparr>ti_node = ''n2'', ti_node_id = ''n2'', ti_pool = ''tank'', ti_new_volume_handle = ''h''\<rparr> = Inr new"
    by (simp add: render_new_pv_def old_pv1_def)
  from replacement_pv [OF new] new show ?thesis by (auto simp: old_pv1_def)
qed

end
