(* ===== verification/Selection_Caps.thy ===== *)
theory Selection_Caps
  imports Write_Once Target_Facts
begin

text \<open>
  Concurrent evacuations. Each \<open>ZFSEvacuation\<close> is reconciled by a task of its own; the tasks interleave
  at every API call and share the store of evacuations and the selection lock. The caps the source
  promises, one volume received and one sent per node at a time, rest on the lock: what a selection
  read of the store stays true until it has written its choice.
\<close>

section \<open>What was answered while the lock was held\<close>

definition held_step :: "trace option \<Rightarrow> req \<times> resp \<Rightarrow> trace option" where
  "held_step o1 x = (if fst x = Selection_lock then Some [] else if fst x = Selection_unlock then None
     else map_option (\<lambda>t. t @ [x]) o1)"

text \<open>The calls since the lock was taken, if it was not given back.\<close>

definition held :: "trace \<Rightarrow> trace option" where
  "held h = foldl held_step None h"

lemma held_Nil [simp]: "held [] = None"
  by (simp add: held_def)

lemma held_snoc: "held (h @ [x]) = held_step (held h) x"
  by (simp add: held_def)

lemma held_append:
  assumes "\<forall>x \<in> set u. fst x \<noteq> Selection_lock \<and> fst x \<noteq> Selection_unlock"
  shows "held (h @ u) = map_option (\<lambda>t. t @ u) (held h)"
  using assms
proof (induction u rule: rev_induct)
  case Nil
  show ?case by (simp add: option.map_ident)
next
  case (snoc x u)
  then have "held (h @ u @ [x]) = held_step (map_option (\<lambda>t. t @ u) (held h)) x"
    by (simp flip: append_assoc add: held_snoc)
  then show ?case using snoc.prems by (cases "held h") (simp_all add: held_step_def)
qed

abbreviation lists_evacs :: "trace \<Rightarrow> zfs_evacuation list \<Rightarrow> bool" where
  "lists_evacs t es \<equiv> (List_all K_Evacuation [] None, R_objs (map O_evac es)) \<in> set t"

section \<open>Selecting under the lock\<close>

definition quiet_req :: "req \<Rightarrow> bool" where
  "quiet_req q \<longleftrightarrow> \<not> status_write q \<and> q \<noteq> Selection_lock \<and> q \<noteq> Selection_unlock"

lemma quiet_req_simps [simp]:
  "quiet_req (Get k ns n)" "quiet_req (List_all k ns sel)" "quiet_req Rand_u128"
  by (simp_all add: quiet_req_def)

lemma safe_try_locked:
  assumes "calls quiet_req p (\<lambda>_. True)" and "vc (\<lambda>_ _. True) p (\<lambda>r h'. \<exists>u. h' = h @ u \<and> Q r u) h" and "held h = Some t"
    and "\<And>r h' u. Q r u \<Longrightarrow> held h' = Some (t @ u) \<Longrightarrow> safe (status_guard W) (f r) h'"
  shows "safe (status_guard W) (try_with p f) h"
proof -
  have "held (h @ u) = Some (t @ u)" if "list_all (\<lambda>(q, a). quiet_req q) u" for u
  proof -
    have "\<forall>x \<in> set u. fst x \<noteq> Selection_lock \<and> fst x \<noteq> Selection_unlock"
      using that by (fastforce simp: list_all_iff quiet_req_def)
    then show ?thesis using assms(3) by (simp add: held_append)
  qed
  then have "vc (\<lambda>_ _. True) p (\<lambda>r h'. \<exists>u. h' = h @ u \<and> held h' = Some (t @ u)) h"
    by (intro vc_frame [OF assms(1)]) auto
  moreover have "vc (status_guard W) p (\<lambda>_ _. True) h"
    by (rule vc_frame [OF assms(1)]) (auto simp: status_guard_def quiet_req_def status_write_def)
  ultimately have "vc (\<lambda>h q. status_guard W h q \<and> True \<and> True) p (\<lambda>r h'. True \<and> (\<exists>u. h' = h @ u \<and> held h' = Some (t @ u)) \<and> (\<exists>u. h' = h @ u \<and> Q r u)) h"
    by (intro vc_conj assms(2))
  then have "vc (status_guard W) p (\<lambda>r h'. \<exists>u. Q r u \<and> held h' = Some (t @ u)) h" by (rule vc_mono) auto
  then show ?thesis
    unfolding safe_def vc_try_with by (rule vc_conseq) (use assms(4) in \<open>auto simp: safe_def\<close>)
qed

lemma safe_bnd_locked:
  assumes "calls quiet_req p (\<lambda>_. True)" and "vc (\<lambda>_ _. True) p (\<lambda>r h'. \<exists>u. h' = h @ u \<and> Q r u) h" and "held h = Some t"
    and "\<And>x h' u. Q (Inr x) u \<Longrightarrow> held h' = Some (t @ u) \<Longrightarrow> safe (status_guard W) (f x) h'"
  shows "safe (status_guard W) (bnd p f) h"
  unfolding bnd_try_with
  by (rule safe_try_locked [OF assms(1-3)]) (auto split: sum.split intro: safe_Done assms(4))

lemma vc_extends_any: "vc (\<lambda>_ _. True) p (\<lambda>r h'. \<exists>u. h' = h @ u \<and> True) h"
  by (rule vc_conseq [OF vc_extends]) simp

lemma vc_list_evacs:
  "vc (\<lambda>_ _. True) list_evacs (\<lambda>r h'. \<exists>u. h' = h @ u \<and> (\<forall>es. r = Inr es \<longrightarrow> lists_evacs u es)) h"
proof -
  have "xs = map O_evac es" if "as_list un_evac a = Inr es" "a = R_objs xs" for a xs es
  proof -
    have "map un_evac xs = map Some es" using that by (simp add: as_list_Inr those_Some)
    then show ?thesis by (induction xs arbitrary: es) (auto simp: Cons_eq_map_conv)
  qed
  then show ?thesis
    by (auto simp: list_evacs_def vc_ask as_list_Inr)
qed

text \<open>A selected target was not receiving in a list of the evacuations that was read for it.\<close>

lemma vc_after_list:
  assumes "\<exists>u. h = h0 @ u \<and> lists_evacs u es"
  shows "vc (\<lambda>_ _. True) p (\<lambda>r h'. \<exists>u. h' = h0 @ u \<and> lists_evacs u es) h"
  by (rule vc_conseq [OF vc_extends]) (use assms in fastforce)

lemma select_target_free:
  "vc (\<lambda>_ _. True) (select_target ctx i) (\<lambda>r h'. \<exists>u. h' = h @ u \<and> (\<forall>tg. r = Inr tg \<longrightarrow>
     (\<exists>es. lists_evacs u es \<and> \<not> (\<exists>e \<in> set es. receives_on (in_evac_name i) e (ti_node_id tg))))) h"
proof -
  have rest: "vc (\<lambda>_ _. True) (bnd (sc_poolname pv) (\<lambda>x. bnd (allowed_node_ids pv) (\<lambda>y. bnd (list_znodes ctx) (\<lambda>z.
      Done (choose_target tk i nodes es (dest x) y z))))) (\<lambda>r h'. \<exists>u. h' = h @ u \<and> (\<forall>tg. r = Inr tg \<longrightarrow>
     (\<exists>es. lists_evacs u es \<and> \<not> (\<exists>e \<in> set es. receives_on (in_evac_name i) e (ti_node_id tg))))) h'"
    if h': "\<exists>u. h' = h @ u \<and> lists_evacs u es" for pv tk nodes es dest h'
  proof (rule vc_bnd_using [OF vc_after_list [OF h']])
    fix x h1 assume "\<exists>u. h1 = h @ u \<and> lists_evacs u es"
    then show "vc (\<lambda>_ _. True) (bnd (allowed_node_ids pv) (\<lambda>y. bnd (list_znodes ctx) (\<lambda>z.
      Done (choose_target tk i nodes es (dest x) y z)))) (\<lambda>r h'. \<exists>u. h' = h @ u \<and> (\<forall>tg. r = Inr tg \<longrightarrow>
     (\<exists>es. lists_evacs u es \<and> \<not> (\<exists>e \<in> set es. receives_on (in_evac_name i) e (ti_node_id tg))))) h1"
    proof (rule vc_bnd_using [OF vc_after_list])
      fix y h2 assume "\<exists>u. h2 = h @ u \<and> lists_evacs u es"
      then show "vc (\<lambda>_ _. True) (bnd (list_znodes ctx) (\<lambda>z.
      Done (choose_target tk i nodes es (dest x) y z))) (\<lambda>r h'. \<exists>u. h' = h @ u \<and> (\<forall>tg. r = Inr tg \<longrightarrow>
     (\<exists>es. lists_evacs u es \<and> \<not> (\<exists>e \<in> set es. receives_on (in_evac_name i) e (ti_node_id tg))))) h2"
        by (rule vc_bnd_using [OF vc_after_list]) (auto dest: choose_target_free)
    qed auto
  qed auto
  show ?thesis
    unfolding select_target_def
  proof (rule vc_bnd_using [OF vc_extends])
    fix nodes h1 assume "\<exists>u. h1 = h @ u"
    then obtain u where u: "h1 = h @ u" by blast
    show "vc (\<lambda>_ _. True) (bnd list_evacs (\<lambda>evacs. bnd (sc_poolname (in_pv i)) (\<lambda>sc_pool. bnd (allowed_node_ids (in_pv i)) (\<lambda>allowed.
       bnd (list_znodes ctx) (\<lambda>zns. Done (choose_target (taint_key ctx) i nodes evacs
         (fst (resolve_dest_poolname (es_target_pool (in_spec i)) sc_pool (in_source_pool i))) allowed zns))))))
       (\<lambda>r h'. \<exists>u. h' = h @ u \<and> (\<forall>tg. r = Inr tg \<longrightarrow>
       (\<exists>es. lists_evacs u es \<and> \<not> (\<exists>e \<in> set es. receives_on (in_evac_name i) e (ti_node_id tg))))) h1"
      by (rule vc_bnd_using [OF vc_list_evacs]) (rule rest, auto simp: u)
  qed simp
qed

section \<open>The choice is written while the lock is held\<close>

definition cap_seen :: "string \<Rightarrow> evac_status \<Rightarrow> trace \<Rightarrow> evac_status \<Rightarrow> bool" where
  "cap_seen me st h st' \<longleftrightarrow> (s_phase st = TargetSelecting \<and> s_phase st' = Transferring \<longrightarrow>
     (\<exists>t es1 es2 src tg. held h = Some t \<and> lists_evacs t es1 \<and> lists_evacs t es2
        \<and> s_source st = Some src \<and> s_target st' = Some tg
        \<and> \<not> (\<exists>e \<in> set es1. sends_from me e (si_node_id src))
        \<and> \<not> (\<exists>e \<in> set es2. receives_on me e (ti_node_id tg))))"


lemma safe_selection_lock:
  assumes "\<And>a. safe (status_guard W) p (h @ [(Selection_lock, a)])"
  shows "safe (status_guard W) (with_selection_lock p) h"
proof -
  have "safe (status_guard W) (try_with p (\<lambda>r. Call Selection_unlock (\<lambda>_. Done r))) h'" if "safe (status_guard W) p h'" for h'
    using that unfolding safe_def vc_try_with by (rule vc_conseq) (simp add: status_guard_def)
  then show ?thesis
    unfolding with_selection_lock_def using assms by (intro safe_CallI) (simp_all add: status_guard_def)
qed

lemma quiet_parts:
  "calls quiet_req (get_pv n) (\<lambda>_. True)" "calls quiet_req (select_target ctx i) (\<lambda>_. True)"
  "calls quiet_req new_destination_handle (\<lambda>_. True)"
  "calls quiet_req (if b then bnd (pods_referencing_pvc ns m) (\<lambda>pods. resolve_group ctx nm pref nid pods) else ret None) (\<lambda>_. True)"
  by (intro call_intros calls_select_target [THEN calls_mono] calls_handle [THEN calls_mono]; simp)+

lemma safe_target_selecting_cap:
  assumes "s_phase st = TargetSelecting"
  shows "safe (status_guard (cap_seen (ev_name evac) st)) (target_selecting ctx evac st) h"
proof -
  let ?me = "ev_name evac"
  let ?G = "status_guard (cap_seen ?me st)"
  have out: "safe ?G p h'" if "calls (status_req (\<lambda>s. s_phase s \<noteq> Transferring)) p (\<lambda>_. True)" for p :: "action prog" and h'
    by (rule safe_calls [OF that]) (auto simp: status_guard_def cap_seen_def)
  have leave: "safe ?G (wait n st m k) h'" "safe ?G (fail n st m') h'" for n m k m' h'
    by (rule out, intro call_intros; simp add: assms)+
  have adv: "safe ?G (bnd new_destination_handle (\<lambda>handle.
        advance n (st\<lparr>s_colocation := c, s_target := Some (t\<lparr>ti_new_volume_handle := handle\<rparr>)\<rparr>) Transferring)) h'"
    if "held h' = Some u" "lists_evacs u es1" "lists_evacs u es2" "s_source st = Some src"
      "\<not> (\<exists>e \<in> set es1. sends_from ?me e (si_node_id src))" "\<not> (\<exists>e \<in> set es2. receives_on ?me e (ti_node_id t))"
    for n c t h' u es1 es2 src
  proof (rule safe_bnd_locked [OF quiet_parts(3) vc_extends_any that(1)], rule safe_advance)
    fix handle h'' v assume "held h'' = Some (u @ v)"
    then show "?G h'' (Patch_status n ((st\<lparr>s_colocation := c, s_target := Some (t\<lparr>ti_new_volume_handle := handle\<rparr>)\<rparr>)\<lparr>s_phase := Transferring, s_message := None\<rparr>))"
      unfolding status_guard_simps cap_seen_def
      by (intro impI exI [of _ "u @ v"] exI [of _ es1] exI [of _ es2] exI [of _ src]
          exI [of _ "t\<lparr>ti_new_volume_handle := handle\<rparr>"]) (use that in auto)
  qed
  have sel: "safe ?G (try_with (select_target ctx (selection_for evac src pv g)) (\<lambda>r. (case r of
        Inr t \<Rightarrow> bnd new_destination_handle (\<lambda>handle.
          advance ?me (st\<lparr>s_colocation := map_option (colocation_of (ev_spec evac)) g,
            s_target := Some (t\<lparr>ti_new_volume_handle := handle\<rparr>)\<rparr>) Transferring)
      | Inl e \<Rightarrow> wait ?me st (''no target yet: '' @ show_error ctx e) 60))) h'"
    if "held h' = Some u" "lists_evacs u es1" "s_source st = Some src" "\<not> (\<exists>e \<in> set es1. sends_from ?me e (si_node_id src))"
    for pv g h' u es1 src
  proof (rule safe_try_locked [OF quiet_parts(2) select_target_free that(1)], rule safe_sumI, rule leave)
    fix r h'' v and t :: target_info
    assume free: "\<forall>tg. r = Inr tg \<longrightarrow> (\<exists>es. lists_evacs v es
        \<and> \<not> (\<exists>e \<in> set es. receives_on (in_evac_name (selection_for evac src pv g)) e (ti_node_id tg)))"
      and h'': "held h'' = Some (u @ v)" and r: "r = Inr t"
    from free r obtain es where "lists_evacs (u @ v) es" "\<not> (\<exists>e \<in> set es. receives_on ?me e (ti_node_id t))"
      by (auto simp: selection_for_def Let_def)
    moreover have "lists_evacs (u @ v) es1" using that(2) by simp
    ultimately show "safe ?G (bnd new_destination_handle (\<lambda>handle.
        advance ?me (st\<lparr>s_colocation := map_option (colocation_of (ev_spec evac)) g,
          s_target := Some (t\<lparr>ti_new_volume_handle := handle\<rparr>)\<rparr>) Transferring)) h''"
      using that(3,4) h'' by (intro adv)
  qed
  have sel2: "safe ?G (try_with (select_target ctx (selection_for evac src pv g)) (\<lambda>r. (case r of
        Inr t \<Rightarrow> bnd new_destination_handle (\<lambda>handle.
          advance ?me (st\<lparr>s_colocation := map_option (colocation_of (ev_spec evac)) g,
            s_target := Some (t\<lparr>ti_new_volume_handle := handle\<rparr>)\<rparr>) Transferring)
      | Inl e \<Rightarrow> wait ?me st (''no target yet: '' @ show_error ctx e) 60))) h'"
    if "s_source st = Some src" "\<not> list_ex (\<lambda>e. sends_from ?me e (si_node_id src)) xs"
      "held h' = Some (([(List_all K_Evacuation [] None, R_objs (map O_evac xs))] @ u) @ v)"
    for pv g h' u v xs src
    by (rule sel [OF that(3) _ that(1), of xs]) (use that(2) in \<open>simp_all add: list_ex_iff\<close>)
  have held1: "held ((h' @ [(Selection_lock, a)]) @ [(List_all K_Evacuation [] None, R_objs (map O_evac xs))])
      = Some [(List_all K_Evacuation [] None, R_objs (map O_evac xs))]" for h' a xs
    unfolding held_snoc by (simp add: held_step_def)
  show ?thesis
    unfolding target_selecting_def Let_def
    apply (intro safe_bnd_need safe_selection_lock)
    apply (rule safe_bnd_list(2), simp)
    apply (rule safe_ifI, rule leave)
    apply (rule safe_bnd_locked [OF quiet_parts(1) vc_extends_any held1])
    apply (rule safe_optionI, rule leave)
    apply (rule safe_bnd_locked [OF quiet_parts(4) vc_extends_any], assumption)
    apply (rule sel2, assumption, assumption, assumption)
    done
qed


lemma safe_reconcile_cap:
  "safe (status_guard (cap_seen (ev_name evac) (recorded_status evac))) (reconcile ctx evac) h"
proof (rule safe_reconcile_status)
  show "safe (status_guard (cap_seen (ev_name evac) (recorded_status evac))) (handle_phase ctx evac (recorded_status evac)) h" for h
  proof (cases "s_phase (recorded_status evac) = TargetSelecting")
    case True
    then show ?thesis by (simp add: handle_phase_def safe_target_selecting_cap)
  next
    case False
    then show ?thesis by (intro safe_trivial) (simp add: status_guard_def cap_seen_def)
  qed
qed (auto simp: cap_seen_def)

section \<open>What one run writes of the slots\<close>

text \<open>
  Seen from the status a run started from, and not only from one write to the next: the target
  changes in the selection alone, and a phase that sends comes from one that selects or sends.
\<close>

definition slot_step :: "evac_status \<Rightarrow> evac_status \<Rightarrow> bool" where
  "slot_step st st' \<longleftrightarrow> s_phase st \<notin> {Completed, Failed}
     \<and> (s_phase st = TargetSelecting \<and> s_phase st' = Transferring \<or> s_target st' = s_target st)
     \<and> (s_phase st' \<in> {Transferring, Adopting} \<longrightarrow>
          s_source st' = s_source st \<and> s_phase st \<in> {TargetSelecting, Transferring, Adopting}
          \<and> (s_phase st = TargetSelecting \<longrightarrow> s_phase st' \<noteq> Adopting))"

lemma slot_step_status_step:
  assumes "status_step mx st st'" and "s_phase st \<notin> {Completed, Failed}"
  shows "slot_step st st'"
  using stepD(1-3) [OF assms(1)] assms(2)
  by (cases "s_phase st") (auto simp: slot_step_def stays_or_edge_def phase_edge_from source_step_def target_step_def)

lemma slot_step_edit: "s_phase st \<notin> {Completed, Failed} \<Longrightarrow> s_phase st' \<in> {Aborting, Failed} \<Longrightarrow> s_target st' = s_target st \<Longrightarrow> slot_step st st'"
  by (auto simp: slot_step_def)

lemma slot_steps_abort:
  assumes "s_phase st \<notin> {Completed, Failed}" and "s_target st0 = s_target st"
  shows "calls (status_req (slot_step st)) (abort_run ctx evac st0) (\<lambda>_. True)"
  unfolding abort_run_def Let_def
  by (intro call_intros) (use assms in \<open>auto intro: slot_step_edit\<close>)

lemma slot_steps_reconcile: "writes (slot_step (recorded_status evac)) (reconcile ctx evac)"
proof -
  let ?st = "recorded_status evac"
  have phase: "calls (status_req (slot_step ?st)) (handle_phase ctx evac ?st) (\<lambda>_. True)" if "s_phase ?st \<notin> {Completed, Failed}"
    using writes_mono [OF writes_handle_phase slot_step_status_step [OF _ that]] by (simp add: writes_def)
  show ?thesis
    unfolding writes_def reconcile_def Let_def bnd_if_ret
    by (intro call_intros slot_steps_abort phase) (auto intro: slot_step_edit)
qed

section \<open>The two slots\<close>

definition receives_at :: "evac_status \<Rightarrow> string \<Rightarrow> bool" where
  "receives_at st x \<longleftrightarrow> s_phase st \<notin> {Completed, Failed} \<and> (\<exists>tg. s_target st = Some tg \<and> ti_node_id tg = x)"

definition sends_at :: "evac_status \<Rightarrow> string \<Rightarrow> bool" where
  "sends_at st x \<longleftrightarrow> s_phase st \<in> {Transferring, Adopting} \<and> (\<exists>src. s_source st = Some src \<and> si_node_id src = x)"

lemma receives_on_at: "receives_on me e x \<longleftrightarrow> ev_name e \<noteq> me \<and> receives_at (recorded_status e) x"
  by (cases "ev_status e") (auto simp: receives_on_def receives_at_def default_status_def)

lemma sends_from_at: "sends_from me e x \<longleftrightarrow> ev_name e \<noteq> me \<and> sends_at (recorded_status e) x"
  by (cases "ev_status e") (auto simp: sends_from_def sends_at_def default_status_def is_some_and_iff)

text \<open>
  The law of a slot: a run writes a status that takes a slot only if the evacuation had it, in the
  status the run started from and in all it wrote since, or after a list read under the lock, which
  is still held, in which nobody else has it.
\<close>

definition takes_free :: "(evac_status \<Rightarrow> string \<Rightarrow> bool) \<Rightarrow> zfs_evacuation \<Rightarrow> trace \<Rightarrow> evac_status \<Rightarrow> bool" where
  "takes_free slot evac h st' \<longleftrightarrow> (\<forall>x. slot st' x \<longrightarrow>
     (\<forall>s \<in> insert (recorded_status evac) (written h). slot s x)
   \<or> (\<exists>t es. held h = Some t \<and> lists_evacs t es \<and> (\<forall>e \<in> set es. ev_name e \<noteq> ev_name evac \<longrightarrow> \<not> slot (recorded_status e) x)))"

lemma write_facts:
  assumes "runs (reconcile ctx evac) (h @ (Patch_status n st', a) # t)"
  shows "n = ev_name evac" and "ordered_write h st'" and "cap_seen (ev_name evac) (recorded_status evac) h st'"
    and "slot_step (recorded_status evac) st'" and "\<And>s. s \<in> written h \<Longrightarrow> slot_step (recorded_status evac) s"
proof -
  from calls_sound [OF frame_reconcile assms, of "Patch_status n st'" a] show "n = ev_name evac"
    using abort_may_no_status phase_may_no_status by fastforce
  show "ordered_write h st'" using safe_runs [OF safe_reconcile_order assms] by simp
  show "cap_seen (ev_name evac) (recorded_status evac) h st'" using safe_runs [OF safe_reconcile_cap assms] by simp
  show "slot_step (recorded_status evac) st'" by (rule writes_run [OF slot_steps_reconcile assms, of n st' a]) simp
  show "slot_step (recorded_status evac) s" if "s \<in> written h" for s
    using that writes_run [OF slot_steps_reconcile assms] by (fastforce simp: written_def)
qed

lemma takes_free_inbound:
  assumes "runs (reconcile ctx evac) (h @ (Patch_status n st', a) # t)"
  shows "takes_free receives_at evac h st'"
  unfolding takes_free_def
proof (intro allI impI)
  fix x assume x: "receives_at st' x"
  let ?st = "recorded_status evac"
  note f = write_facts [OF assms]
  show "(\<forall>s \<in> insert ?st (written h). receives_at s x)
    \<or> (\<exists>t es. held h = Some t \<and> lists_evacs t es \<and> (\<forall>e \<in> set es. ev_name e \<noteq> ev_name evac \<longrightarrow> \<not> receives_at (recorded_status e) x))"
  proof (cases "s_phase ?st = TargetSelecting \<and> s_phase st' = Transferring")
    case True
    then obtain u es tg where "held h = Some u" "lists_evacs u es" "s_target st' = Some tg"
      "\<not> (\<exists>e \<in> set es. receives_on (ev_name evac) e (ti_node_id tg))"
      using f(3) unfolding cap_seen_def by blast
    moreover have "ti_node_id tg = x" using x calculation(3) by (simp add: receives_at_def)
    ultimately show ?thesis unfolding receives_on_at by blast
  next
    case False
    then have tg: "s_target st' = s_target ?st" and act: "s_phase ?st \<notin> {Completed, Failed}" using f(4) by (auto simp: slot_step_def)
    have "receives_at s x" if "s \<in> written h" for s
    proof -
      have "s_phase s \<in> {Aborting, CleaningUp}" using f(2) that by (auto simp: ordered_write_def)
      moreover from this have "s_target s = s_target ?st" using f(5) [OF that] by (auto simp: slot_step_def)
      ultimately show ?thesis using tg x by (auto simp: receives_at_def)
    qed
    moreover have "receives_at ?st x" using tg act x by (simp add: receives_at_def)
    ultimately show ?thesis by blast
  qed
qed

lemma takes_free_outbound:
  assumes "runs (reconcile ctx evac) (h @ (Patch_status n st', a) # t)"
  shows "takes_free sends_at evac h st'"
  unfolding takes_free_def
proof (intro allI impI)
  fix x assume x: "sends_at st' x"
  let ?st = "recorded_status evac"
  note f = write_facts [OF assms]
  have ph: "s_phase st' \<in> {Transferring, Adopting}" using x by (simp add: sends_at_def)
  then have src: "s_source st' = s_source ?st" "s_phase ?st \<in> {TargetSelecting, Transferring, Adopting}"
    and none: "written h = {}" using f(2,4) by (auto simp: slot_step_def ordered_write_def)
  show "(\<forall>s \<in> insert ?st (written h). sends_at s x)
    \<or> (\<exists>t es. held h = Some t \<and> lists_evacs t es \<and> (\<forall>e \<in> set es. ev_name e \<noteq> ev_name evac \<longrightarrow> \<not> sends_at (recorded_status e) x))"
  proof (cases "s_phase ?st = TargetSelecting")
    case False
    then show ?thesis using src x none by (simp add: sends_at_def)
  next
    case True
    then have "s_phase st' = Transferring" using ph f(4) by (auto simp: slot_step_def)
    then obtain u es source where "held h = Some u" "lists_evacs u es" "s_source ?st = Some source"
      "\<not> (\<exists>e \<in> set es. sends_from (ev_name evac) e (si_node_id source))"
      using f(3) True unfolding cap_seen_def by blast
    moreover have "si_node_id source = x" using x calculation(3) src(1) by (simp add: sends_at_def)
    ultimately show ?thesis unfolding sends_from_at by blast
  qed
qed

end
