(* ===== verification/Concurrent_Reconciles.thy ===== *)
theory Concurrent_Reconciles
  imports Selection_Caps
begin

text \<open>
  All evacuations together. The work queue (\<open>kube_runtime::Controller\<close>) runs the reconciles of
  different evacuations as concurrent tasks, and one evacuation's never twice at a time; they
  interleave at every API call and share two things: the store of \<open>ZFSEvacuation\<close> objects and
  \<open>Ctx::selection_lock\<close>. A locale states what a per-node slot needs of one reconcile; the two caps
  of the source are its interpretations.
\<close>

section \<open>The system\<close>

record system =
  sy_store :: "string \<rightharpoonup> zfs_evacuation"
  sy_running :: "string \<rightharpoonup> zfs_evacuation \<times> trace"  \<comment> \<open>the object a task was started with, and its calls so far\<close>
  sy_holder :: "string option"                  \<comment> \<open>who has the selection lock\<close>

text \<open>
  What the outside does with a call of the task \<open>n\<close>. A status write may be reported as failed and
  have taken effect all the same; a list shows the store. Everything else leaves the statuses and
  the lock alone, whatever it answers; the patches of an evacuation's finalizers are \<open>edit\<close> steps.
\<close>

inductive serves :: "system \<Rightarrow> string \<Rightarrow> req \<Rightarrow> resp \<Rightarrow> system \<Rightarrow> bool" where
  lock: "sy_holder s = None \<Longrightarrow> serves s n Selection_lock a (s\<lparr>sy_holder := Some n\<rparr>)"
| unlock: "serves s n Selection_unlock a (s\<lparr>sy_holder := (if sy_holder s = Some n then None else sy_holder s)\<rparr>)"
| listed: "set es = ran (sy_store s) \<Longrightarrow> serves s n (List_all K_Evacuation [] None) (R_objs (map O_evac es)) s"
| unlisted: "serves s n (List_all K_Evacuation [] None) (R_err e) s"
| patched: "sy_store s m = Some e \<Longrightarrow>
    serves s n (Patch_status m st) a (s\<lparr>sy_store := (sy_store s)(m \<mapsto> e\<lparr>ev_status := Some st\<rparr>)\<rparr>)"
| unpatched: "serves s n (Patch_status m st) (R_err e) s"
| other: "q \<notin> {Selection_lock, Selection_unlock, List_all K_Evacuation [] None} \<Longrightarrow> \<not> status_write q \<Longrightarrow> serves s n q a s"

text \<open>
  An evacuation is created, edited and removed at any time, also under a running task. A task may start
  with any view of its evacuation: the cache it reads may be behind by any number of writes.
\<close>

inductive sys_step :: "ctx \<Rightarrow> system \<Rightarrow> system \<Rightarrow> bool" for ctx where
  create: "sy_store s n = None \<Longrightarrow> ev_name e = n \<Longrightarrow> ev_status e = None
    \<Longrightarrow> sys_step ctx s (s\<lparr>sy_store := (sy_store s)(n \<mapsto> e)\<rparr>)"
| edit: "sy_store s n = Some e \<Longrightarrow> ev_name e' = n \<Longrightarrow> ev_status e' = ev_status e
    \<Longrightarrow> sys_step ctx s (s\<lparr>sy_store := (sy_store s)(n \<mapsto> e')\<rparr>)"
| remove: "sys_step ctx s (s\<lparr>sy_store := (sy_store s)(n := None)\<rparr>)"
| start: "sy_running s n = None \<Longrightarrow> ev_name v = n
    \<Longrightarrow> sys_step ctx s (s\<lparr>sy_running := (sy_running s)(n \<mapsto> (v, []))\<rparr>)"
| call: "sy_running s n = Some (v, h) \<Longrightarrow> runs (reconcile ctx v) (h @ [(q, a)]) \<Longrightarrow> serves s n q a s'
    \<Longrightarrow> sys_step ctx s (s'\<lparr>sy_running := (sy_running s')(n \<mapsto> (v, h @ [(q, a)]))\<rparr>)"
| stop: "sys_step ctx s (s\<lparr>sy_running := (sy_running s)(n := None),
      sy_holder := (if sy_holder s = Some n then None else sy_holder s)\<rparr>)"

section \<open>A slot and its holders\<close>

definition has_slot :: "(evac_status \<Rightarrow> string \<Rightarrow> bool) \<Rightarrow> system \<Rightarrow> string \<Rightarrow> string \<Rightarrow> bool" where
  "has_slot slot s n x \<longleftrightarrow> (\<exists>e. sy_store s n = Some e \<and> slot (recorded_status e) x)"

definition exclusive :: "(evac_status \<Rightarrow> string \<Rightarrow> bool) \<Rightarrow> system \<Rightarrow> bool" where
  "exclusive slot s \<longleftrightarrow> (\<forall>m n x. has_slot slot s m x \<longrightarrow> has_slot slot s n x \<longrightarrow> m = n)"

text \<open>
  What the caps do not survive: a task that starts with a view which shows a slot that its evacuation
  has in the store no more, or an evacuation created anew under a task of its predecessor. A view that
  is behind in anything else (the attempt, the phase, the message) is no such step.
\<close>

definition outdated_start :: "(evac_status \<Rightarrow> string \<Rightarrow> bool) \<Rightarrow> system \<Rightarrow> system \<Rightarrow> bool" where
  "outdated_start slot s s' \<longleftrightarrow> (\<exists>n v x. sy_running s n = None \<and> sy_running s' n = Some (v, []) \<and> sy_store s n \<noteq> None
       \<and> slot (recorded_status v) x \<and> \<not> has_slot slot s n x)
   \<or> (\<exists>n. sy_running s n \<noteq> None \<and> sy_store s n = None \<and> sy_store s' n \<noteq> None)"

definition named :: "system \<Rightarrow> bool" where
  "named s \<longleftrightarrow> (\<forall>n e. sy_store s n = Some e \<longrightarrow> ev_name e = n)"

text \<open>
  The invariant of one task: it has the lock if it is in the locked part; what it had in every
  status it started from or wrote, it still has; and a list it read under the lock shows everyone
  else who has the slot now.
\<close>

definition task_inv :: "(evac_status \<Rightarrow> string \<Rightarrow> bool) \<Rightarrow> system \<Rightarrow> string \<Rightarrow> zfs_evacuation \<Rightarrow> trace \<Rightarrow> bool" where
  "task_inv slot s n v h \<longleftrightarrow> ev_name v = n \<and> (held h \<noteq> None \<longrightarrow> sy_holder s = Some n)
     \<and> (\<forall>x. sy_store s n \<noteq> None \<longrightarrow> (\<forall>st \<in> insert (recorded_status v) (written h). slot st x) \<longrightarrow> has_slot slot s n x)
     \<and> (\<forall>t es m x. held h = Some t \<longrightarrow> lists_evacs t es \<longrightarrow> m \<noteq> n \<longrightarrow> has_slot slot s m x
          \<longrightarrow> (\<exists>e \<in> set es. ev_name e = m \<and> slot (recorded_status e) x))"

definition slot_inv :: "(evac_status \<Rightarrow> string \<Rightarrow> bool) \<Rightarrow> system \<Rightarrow> bool" where
  "slot_inv slot s \<longleftrightarrow> named s \<and> exclusive slot s
     \<and> (\<forall>n v h. sy_running s n = Some (v, h) \<longrightarrow> task_inv slot s n v h)"

lemma task_inv_cong:
  "task_inv slot s n v h \<Longrightarrow> sy_holder s' = sy_holder s \<or> held h = None
     \<Longrightarrow> (sy_store s' n \<noteq> None \<Longrightarrow> sy_store s n \<noteq> None) \<Longrightarrow> (\<And>x. sy_store s' n \<noteq> None \<Longrightarrow> has_slot slot s n x \<Longrightarrow> has_slot slot s' n x)
     \<Longrightarrow> (\<And>m x. m \<noteq> n \<Longrightarrow> held h \<noteq> None \<Longrightarrow> has_slot slot s' m x \<Longrightarrow> has_slot slot s m x) \<Longrightarrow> task_inv slot s' n v h"
  unfolding task_inv_def by (metis option.distinct(1))

lemma exclusive_mono: "exclusive slot s \<Longrightarrow> (\<And>n x. has_slot slot s' n x \<Longrightarrow> has_slot slot s n x) \<Longrightarrow> exclusive slot s'"
  unfolding exclusive_def by blast

text \<open>One holder of the lock at a time.\<close>

lemma held_alone:
  "slot_inv slot s \<Longrightarrow> sy_running s n = Some (v, h) \<Longrightarrow> sy_running s m = Some (v', h') \<Longrightarrow> held h \<noteq> None \<Longrightarrow> held h' \<noteq> None \<Longrightarrow> m = n"
  unfolding slot_inv_def task_inv_def by (metis option.inject)

section \<open>The contract of a slot\<close>

locale capped =
  fixes slot :: "evac_status \<Rightarrow> string \<Rightarrow> bool"
  assumes idle: "s_target st = None \<Longrightarrow> s_phase st \<le> TargetSelecting \<Longrightarrow> \<not> slot st x"
    and law: "runs (reconcile ctx evac) (h @ [(Patch_status n st', a)]) \<Longrightarrow> takes_free slot evac h st'"
begin

lemma default_free: "\<not> slot default_status x"
  by (rule idle) (simp_all add: default_status_def less_eq_phase_def)

text \<open>Steps of others: creation, edits, removal.\<close>

lemma inv_store:
  assumes "slot_inv slot s" and "named s'" and "sy_running s' = sy_running s" and "sy_holder s' = sy_holder s"
    and "\<And>n x. has_slot slot s' n x \<Longrightarrow> has_slot slot s n x"
    and "\<And>n x. sy_running s n \<noteq> None \<Longrightarrow> sy_store s' n \<noteq> None \<Longrightarrow> sy_store s n \<noteq> None \<and> (has_slot slot s n x \<longrightarrow> has_slot slot s' n x)"
  shows "slot_inv slot s'"
  unfolding slot_inv_def
proof (intro conjI allI impI)
  show "exclusive slot s'" using assms(1,5) exclusive_mono unfolding slot_inv_def by blast
  fix n v h assume r: "sy_running s' n = Some (v, h)"
  then have "task_inv slot s n v h" using assms(1,3) unfolding slot_inv_def by simp
  then show "task_inv slot s' n v h"
    by (rule task_inv_cong) (use assms(3-6) r in auto)
qed (rule assms(2))

text \<open>A call that writes no status.\<close>

lemma inv_silent_call:
  assumes inv: "slot_inv slot s" and r: "sy_running s n = Some (v, h)" and q: "\<not> status_write q" and srv: "serves s n q a s'"
  shows "slot_inv slot (s'\<lparr>sy_running := (sy_running s')(n \<mapsto> (v, h @ [(q, a)]))\<rparr>)"
proof -
  let ?s = "s'\<lparr>sy_running := (sy_running s')(n \<mapsto> (v, h @ [(q, a)]))\<rparr>"
  have same: "sy_store s' = sy_store s" "sy_running s' = sy_running s" using srv q by (auto elim: serves.cases)
  then have has: "has_slot slot ?s = has_slot slot s" by (simp add: has_slot_def fun_eq_iff)
  have own: "task_inv slot s n v h" using inv r by (simp add: slot_inv_def)
  have w: "written (h @ [(q, a)]) = written h" using q by (auto simp: status_write_def split: req.split)
  have mine: "task_inv slot ?s n v (h @ [(q, a)])"
    using srv
  proof cases
    case lock
    then show ?thesis using own w has by (simp add: task_inv_def held_snoc held_step_def)
  next
    case unlock
    then show ?thesis using own w has by (simp add: task_inv_def held_snoc held_step_def)
  next
    case (listed es)
    have "\<exists>e \<in> set es. ev_name e = m \<and> slot (recorded_status e) x" if "has_slot slot s m x" for m x
      using that inv listed by (auto simp: has_slot_def slot_inv_def named_def ran_def)
    then show ?thesis using own w has listed
      by (auto simp: task_inv_def held_snoc held_step_def inj_map_eq_map inj_def)
  next
    case unlisted
    then show ?thesis using own w has by (auto simp: task_inv_def held_snoc held_step_def)
  next
    case other
    then show ?thesis using own w has by (auto simp: task_inv_def held_snoc held_step_def)
  qed (use q in simp_all)
  have "task_inv slot ?s m v' h'" if "sy_running s m = Some (v', h')" "m \<noteq> n" for m v' h'
  proof -
    have t: "task_inv slot s m v' h'" using inv that by (simp add: slot_inv_def)
    have "sy_holder ?s = sy_holder s \<or> held h' = None"
      using srv t that(2) by (cases rule: serves.cases) (auto simp: task_inv_def)
    then show ?thesis by (intro task_inv_cong [OF t]) (use has same in auto)
  qed
  then show ?thesis using inv mine same has by (auto simp: slot_inv_def named_def exclusive_def)
qed

text \<open>A status write: the only step in which anyone comes to have the slot.\<close>

lemma inv_status_call:
  assumes inv: "slot_inv slot s" and r: "sy_running s n = Some (v, h)" and run: "runs (reconcile ctx v) (h @ [(Patch_status m st, a)])"
    and srv: "serves s n (Patch_status m st) a s'"
  shows "slot_inv slot (s'\<lparr>sy_running := (sy_running s')(n \<mapsto> (v, h @ [(Patch_status m st, a)]))\<rparr>)"
proof -
  let ?h = "h @ [(Patch_status m st, a)]"
  let ?s = "s'\<lparr>sy_running := (sy_running s')(n \<mapsto> (v, ?h))\<rparr>"
  have own: "task_inv slot s n v h" using inv r by (simp add: slot_inv_def)
  have "m = ev_name v" using write_facts(1) run by (metis append_Nil2 append_assoc append_Cons)
  then have m: "m = n" using own by (simp add: task_inv_def)
  have run': "sy_running s' = sy_running s" and hold: "sy_holder s' = sy_holder s" using srv by (auto elim: serves.cases)
  have held': "held ?h = map_option (\<lambda>t. t @ [(Patch_status m st, a)]) (held h)" by (simp add: held_snoc held_step_def)
  have lists: "lists_evacs (t @ [(Patch_status m st, a)]) es \<longleftrightarrow> lists_evacs t es" for t es by auto
  have wr: "written ?h = insert st (written h)" by simp
  from srv show ?thesis
  proof cases
    case unpatched
    then have has: "has_slot slot ?s = has_slot slot s" by (simp add: has_slot_def fun_eq_iff)
    have "task_inv slot ?s n v ?h"
      using own unfolding task_inv_def held' wr has by (auto simp: lists unpatched)
    moreover have "task_inv slot ?s k v' h'" if "sy_running s k = Some (v', h')" "k \<noteq> n" for k v' h'
      by (rule task_inv_cong [of slot s]) (use inv that has unpatched in \<open>auto simp: slot_inv_def\<close>)
    ultimately show ?thesis using inv run' has unpatched by (auto simp: slot_inv_def named_def exclusive_def)
  next
    case (patched e)
    have store: "sy_store ?s = (sy_store s)(n \<mapsto> e\<lparr>ev_status := Some st\<rparr>)" using patched m by simp
    have has: "has_slot slot ?s k x \<longleftrightarrow> (if k = n then slot st x else has_slot slot s k x)" for k x
      unfolding has_slot_def store by simp
    have free: "takes_free slot v h st" by (rule law [OF run])
    have kept: "has_slot slot s n x" if "slot st x" "held h = None" for x
      using free own that patched(2) m by (auto simp: takes_free_def task_inv_def)
    have alone: "k = n" if "slot st x" "has_slot slot s k x" for k x
    proof (rule ccontr)
      assume k: "k \<noteq> n"
      from free that(1) consider
        "\<forall>s' \<in> insert (recorded_status v) (written h). slot s' x"
        | t es where "held h = Some t" "lists_evacs t es" "\<forall>e \<in> set es. ev_name e \<noteq> n \<longrightarrow> \<not> slot (recorded_status e) x"
        using own unfolding takes_free_def task_inv_def by blast
      then show False
      proof cases
        case 1
        then have "has_slot slot s n x" using own patched(2) m by (auto simp: task_inv_def)
        then show False using inv that(2) k by (auto simp: slot_inv_def exclusive_def)
      next
        case 2
        then show False using own that(2) k unfolding task_inv_def by blast
      qed
    qed
    have "exclusive slot ?s"
      using inv alone unfolding exclusive_def has slot_inv_def by metis
    moreover have "named ?s"
      using inv own patched m unfolding named_def store by (auto simp: slot_inv_def named_def)
    moreover have "task_inv slot ?s n v ?h"
      using own hold unfolding task_inv_def held' wr has by (auto simp: lists)
    moreover have "task_inv slot ?s k v' h'" if k: "sy_running s k = Some (v', h')" "k \<noteq> n" for k v' h'
    proof (rule task_inv_cong [of slot s])
      show "task_inv slot s k v' h'" using inv k by (simp add: slot_inv_def)
      fix l x assume "held h' \<noteq> None" "has_slot slot ?s l x"
      moreover from this have "held h = None" using held_alone [OF inv k(1) r] k(2) by blast
      ultimately show "has_slot slot s l x" using has kept by (auto split: if_splits)
    qed (use k has hold store in auto)
    ultimately show ?thesis using run' unfolding slot_inv_def by auto
  qed simp
qed

lemma inv_step:
  assumes "sys_step ctx s s'" and inv: "slot_inv slot s" and ok: "\<not> outdated_start slot s s'"
  shows "slot_inv slot s'"
  using assms(1)
proof cases
  case (create n e)
  then show ?thesis
    by (intro inv_store [OF inv])
      (use inv ok default_free in \<open>auto simp: has_slot_def slot_inv_def named_def outdated_start_def split: if_splits\<close>)
next
  case (edit n e e')
  then show ?thesis
    by (intro inv_store [OF inv]) (use inv in \<open>auto simp: has_slot_def slot_inv_def named_def split: if_splits\<close>)
next
  case (remove n)
  then show ?thesis
    by (intro inv_store [OF inv]) (use inv in \<open>auto simp: has_slot_def slot_inv_def named_def split: if_splits\<close>)
next
  case (start n v)
  have has: "has_slot slot s' = has_slot slot s" by (simp add: start has_slot_def fun_eq_iff)
  have "sy_store s n \<noteq> None \<Longrightarrow> slot (recorded_status v) x \<Longrightarrow> has_slot slot s' n x" for x
    using ok start has unfolding outdated_start_def by (metis (no_types, lifting) fun_upd_same select_convs(2) surjective update_convs(2))
  then have "task_inv slot s' n v []" using start by (auto simp: task_inv_def)
  moreover have "task_inv slot s' m v' h" if "sy_running s m = Some (v', h)" for m v' h
    by (rule task_inv_cong [of slot s]) (use inv that start has in \<open>auto simp: slot_inv_def\<close>)
  ultimately show ?thesis using inv start has by (auto simp: slot_inv_def named_def exclusive_def)
next
  case (call n v h q a s1)
  show ?thesis
  proof (cases "status_write q")
    case True
    then show ?thesis using inv_status_call [OF inv] call by (auto simp: status_write_def)
  next
    case False
    then show ?thesis using inv_silent_call [OF inv] call by simp
  qed
next
  case (stop n)
  have has: "has_slot slot s' = has_slot slot s" by (simp add: stop has_slot_def fun_eq_iff)
  have "task_inv slot s' m v h" if "sy_running s m = Some (v, h)" "m \<noteq> n" for m v h
  proof -
    have t: "task_inv slot s m v h" using inv that(1) by (simp add: slot_inv_def)
    have "sy_holder s' = sy_holder s \<or> held h = None" using t that(2) stop by (auto simp: task_inv_def)
    then show ?thesis by (intro task_inv_cong [OF t]) (use stop has in auto)
  qed
  then show ?thesis using inv stop has by (auto simp: slot_inv_def named_def exclusive_def split: if_splits)
qed

lemma stays_exclusive:
  assumes "(sys_step ctx)\<^sup>*\<^sup>* s0 s" and "named s0" and "sy_running s0 = Map.empty" and "exclusive slot s0"
  shows "exclusive slot s
     \<or> (\<exists>s1 s2. (sys_step ctx)\<^sup>*\<^sup>* s0 s1 \<and> sys_step ctx s1 s2 \<and> (sys_step ctx)\<^sup>*\<^sup>* s2 s \<and> outdated_start slot s1 s2)"
    (is "_ \<or> ?late s")
proof -
  have "slot_inv slot s \<or> ?late s" using assms(1)
  proof (induction rule: rtranclp_induct)
    case base
    then show ?case using assms(2-4) by (simp add: slot_inv_def)
  next
    case (step s s')
    show ?case
    proof (cases "?late s \<or> outdated_start slot s s'")
      case True
      then show ?thesis using step.hyps by (meson rtranclp.rtrancl_into_rtrancl rtranclp.rtrancl_refl)
    next
      case False
      then show ?thesis using inv_step [OF step.hyps(2)] step.IH by blast
    qed
  qed
  then show ?thesis by (auto simp: slot_inv_def)
qed

end

text \<open>The two caps of target selection.\<close>

interpretation inbound: capped receives_at
  by unfold_locales (auto simp: receives_at_def intro: takes_free_inbound)

interpretation outbound: capped sends_at
  by unfold_locales (auto simp: sends_at_def less_eq_phase_def intro: takes_free_outbound)

end
