(* ===== verification/System_Scenario.thy ===== *)
theory System_Scenario
  imports Concurrent_Reconciles Scenario Quantity_Facts
begin

text \<open>
  Two runs of the whole system, played call by call: one evacuation selects its target while another is
  transferring; and a task whose view still shows a slot that its evacuation has given up.
\<close>

section \<open>Playing a run in the system\<close>

primrec plays :: "string \<Rightarrow> zfs_evacuation \<Rightarrow> trace \<Rightarrow> trace \<Rightarrow> system \<Rightarrow> system \<Rightarrow> bool" where
  "plays n v [] h s s' \<longleftrightarrow> s' = s"
| "plays n v (x # tr) h s s' \<longleftrightarrow> (\<exists>s1. serves s n (fst x) (snd x) s1
     \<and> plays n v tr (h @ [x]) (s1\<lparr>sy_running := (sy_running s1)(n \<mapsto> (v, h @ [x]))\<rparr>) s')"

lemma plays_steps:
  "plays n v tr h s s' \<Longrightarrow> sy_running s n = Some (v, h) \<Longrightarrow> runs (reconcile ctx v) (h @ tr) \<Longrightarrow> (sys_step ctx)\<^sup>*\<^sup>* s s'"
proof (induction tr arbitrary: h s)
  case (Cons x tr)
  then obtain s1 where s1: "serves s n (fst x) (snd x) s1"
    "plays n v tr (h @ [x]) (s1\<lparr>sy_running := (sy_running s1)(n \<mapsto> (v, h @ [x]))\<rparr>) s'" by auto
  have "sys_step ctx s (s1\<lparr>sy_running := (sy_running s1)(n \<mapsto> (v, h @ [x]))\<rparr>)"
    using sys_step.call [OF Cons.prems(2) _ s1(1), of ctx] runs_prefix [of "reconcile ctx v" "h @ [x]" tr] Cons.prems(3) by simp
  moreover have "(sys_step ctx)\<^sup>*\<^sup>* (s1\<lparr>sy_running := (sy_running s1)(n \<mapsto> (v, h @ [x]))\<rparr>) s'"
    by (rule Cons.IH [OF s1(2)]) (use Cons.prems(3) in simp_all)
  ultimately show ?case by (rule converse_rtranclp_into_rtranclp)
qed simp

section \<open>A selection beside a transfer\<close>

definition idle0 :: zfs_evacuation where
  "idle0 = (evac0 (early TargetSelecting))\<lparr>ev_spec := spec0\<lparr>es_mode := WhenIdle\<rparr>\<rparr>"

definition other0 :: zfs_evacuation where
  "other0 = \<lparr>ev_meta = named_meta ''pv-2'', ev_spec = spec0,
     ev_status = Some ((late Transferring False)\<lparr>s_source := Some (src0\<lparr>si_node_id := ''n3''\<rparr>),
       s_target := Some (target0\<lparr>ti_node_id := ''n4''\<rparr>)\<rparr>)\<rparr>"

definition nodes0 :: "node list" where
  "nodes0 = [node0 ''n1'' True ''192.168.0.1'', node0 ''n2'' False ''192.168.0.2'', node0 ''n4'' False ''192.168.0.4'']"

definition znode0 :: "string \<Rightarrow> nat \<Rightarrow> zfs_node" where
  "znode0 n free = \<lparr>zn_meta = named_meta n, zn_pools = [\<lparr>zp_name = ''tank'', zp_uuid = None, zp_free = Some (dec free)\<rparr>]\<rparr>"

definition listed0 :: "req \<times> resp" where
  "listed0 = (List_all K_Evacuation [] None, R_objs (map O_evac [idle0, other0]))"

definition selection_calls :: trace where
  "selection_calls = not_cancelled @ [(Selection_lock, R_ok), listed0, seen_pv,
     (List_all K_Node [] None, R_objs (map O_node nodes0)), listed0,
     (List_all K_ZFSNode ''openebs'' None, R_objs (map O_znode [znode0 ''n4'' 9000000000, znode0 ''n2'' 5000000000])),
     (Rand_u128, R_u128 7)]"

definition selected0 :: evac_status where
  "selected0 = (early TargetSelecting)\<lparr>s_target := Some target0, s_phase := Transferring, s_message := None\<rparr>"

lemma free0: "parse_quantity_or_bytes (dec 9000000000) = Some 9000000000" "parse_quantity_or_bytes (dec 5000000000) = Some 5000000000"
  by (simp_all add: parse_quantity_or_bytes_def trim_dec parse_unsigned_dec)

lemma chosen0:
  "choose_target ''zfsevac.alumino.us/evacuate'' (selection_for idle0 src0 (pv0 ''uid-pv'' ''pvc-1'') None) nodes0 [idle0, other0]
     ''tank/vols'' None [znode0 ''n4'' 9000000000, znode0 ''n2'' 5000000000]
   = Inr \<lparr>ti_node = ''n2'', ti_node_id = ''n2'', ti_pool = ''tank/vols'', ti_new_volume_handle = []\<rparr>"
  by (simp add: choose_target_def Let_def name_any_def znode0_def nodes0_def consider_znode_def skipped_def selection_for_def idle0_def other0_def spec0_def explicit_node_def
        eligible_node_def node0_def meta0_def node_id_of_def meta_labels_def node_is_ready_def node_has_evacuate_taint_def node_taints_def
        build_ledger_def ledger_step_def placed_def late_def early_def default_status_def target0_def src0_def evac0_def capacity_of_evac_def
        pool_component_def consider_pool_def pool_free_def reserved_in_def space_needed_def free0
        DEFAULT_HEADROOM_PERCENT_def sat_sub_def word_less_nat_alt word_le_nat_alt unat_div most_free_first_def rights_def List.map_filter_simps)


lemma idle0_simps:
  "ev_name idle0 = ''pv-1''" "ev_status idle0 = Some (early TargetSelecting)" "ev_spec idle0 = spec0\<lparr>es_mode := WhenIdle\<rparr>"
  "m_deletion_timestamp (ev_meta idle0) = None" "meta_finalizers (ev_meta idle0) = [''zfsevac.alumino.us/cleanup'']"
  by (simp_all add: idle0_def evac0_def name_any_def being_deleted_def meta_finalizers_def named_meta_def default_meta_def)

lemma quiet0: "\<not> sends_from ''pv-1'' idle0 ''n1''" "\<not> sends_from ''pv-1'' other0 ''n1''"
  by (simp_all add: sends_from_def idle0_simps other0_def)

lemma input0: "in_pv (selection_for idle0 src0 pv None) = pv" "es_target_pool (in_spec (selection_for idle0 src0 pv None)) = None"
    "in_source_pool (selection_for idle0 src0 pv None) = ''tank/vols''" "pv_storage_class (pv0 u h) = None"
    "taint_key ctx0 = ''zfsevac.alumino.us/evacuate''"
  by (simp_all add: selection_for_def idle0_simps src0_def Let_def spec0_def pv_storage_class_def pv0_def ctx0_def)

lemma select0: "select_target ctx0 (selection_for idle0 src0 (pv0 ''uid-pv'' ''pvc-1'') None) =
    bnd list_nodes (\<lambda>nodes. bnd list_evacs (\<lambda>evacs. bnd (list_znodes ctx0) (\<lambda>zns.
      Done (choose_target ''zfsevac.alumino.us/evacuate'' (selection_for idle0 src0 (pv0 ''uid-pv'' ''pvc-1'') None) nodes evacs ''tank/vols'' None zns))))"
  by (simp add: select_target_def sc_poolname_def allowed_node_ids_def input0 resolve_dest_poolname_def)

lemma scene0:
  "m_uid (pvc_meta pvc0) = Some ''uid-pvc''" "m_uid (pv_meta (pv0 u h)) = Some u" "m_deletion_timestamp (pvc_meta pvc0) = None"
  "m_annotations (pv_meta (pv0 u h)) = Some [(''zfsevac.alumino.us/evacuate'', ''true'')]"
  "es_pv_name spec0 = ''pv-1''" "es_trigger spec0 = Annotation" "si_node_id src0 = ''n1''" "si_pv_uid src0 = ''uid-pv''"
  "pr_namespace pref0 = ''app''" "pr_name pref0 = ''data''" "pr_uid pref0 = ''uid-pvc''" "openebs_ns ctx0 = ''openebs''"
  "pvc_spec pvc0 = Some \<lparr>pcs_volume_name = Some ''pv-1''\<rparr>"
  by (simp_all add: scene_defs)

lemma choice0: "(early TargetSelecting)\<lparr>s_colocation := None, s_target := Some (\<lparr>ti_node = ''n2'', ti_node_id = ''n2'', ti_pool = ''tank/vols'',
    ti_new_volume_handle = handle_of 7\<rparr>), s_phase := Transferring, s_message := None\<rparr> = selected0"
  by (simp add: selected0_def target0_def early_def default_status_def)

lemma nodes0_read: "those (map (un_node \<circ> O_node) ns) = Some ns"
  by (induction ns) (simp_all add: un_defs)

lemma selection_run: "runs (reconcile ctx0 idle0) (selection_calls @ (Patch_status ''pv-1'' selected0, R_ok) # [])"
  by (rule fits_runs [where m = Map.empty])
    (simp add: run_defs selection_calls_def listed0_def not_cancelled_def target_selecting_def with_selection_lock_def
      idle0_simps select0 chosen0 quiet0 scene0 choice0 nodes0_read new_destination_handle_def seen_pv_def seen_pvc_def
      being_deleted_def meta_annotation_def evac_consts openebs_consts
      cong: run_cong)


lemma plays_one: "serves s n q a s1 \<Longrightarrow> plays n v tr (h @ [(q, a)]) (s1\<lparr>sy_running := (sy_running s1)(n \<mapsto> (v, h @ [(q, a)]))\<rparr>) s'
    \<Longrightarrow> plays n v ((q, a) # tr) h s s'"
  by auto

definition cluster0 :: system where
  "cluster0 = \<lparr>sy_store = [''pv-1'' \<mapsto> idle0, ''pv-2'' \<mapsto> other0], sy_running = Map.empty, sy_holder = None\<rparr>"

lemma ran0: "ran [''pv-1'' \<mapsto> e, ''pv-2'' \<mapsto> e'] = {e, e'}"
  by (simp add: ran_map_upd insert_commute)

lemma selection_steps:
  "\<exists>s. (sys_step ctx0)\<^sup>*\<^sup>* cluster0 s \<and> sy_store s = [''pv-1'' \<mapsto> idle0\<lparr>ev_status := Some selected0\<rparr>, ''pv-2'' \<mapsto> other0]"
proof -
  let ?s0 = "cluster0\<lparr>sy_running := (sy_running cluster0)(''pv-1'' \<mapsto> (idle0, []))\<rparr>"
  have start: "sys_step ctx0 cluster0 ?s0"
    by (rule sys_step.start) (simp_all add: cluster0_def idle0_simps)
  have "\<exists>s. plays ''pv-1'' idle0 (selection_calls @ [(Patch_status ''pv-1'' selected0, R_ok)]) [] ?s0 s
      \<and> sy_store s = [''pv-1'' \<mapsto> idle0\<lparr>ev_status := Some selected0\<rparr>, ''pv-2'' \<mapsto> other0]"
    unfolding selection_calls_def not_cancelled_def seen_pv_def seen_pvc_def listed0_def append_Cons append_Nil
    apply (intro exI conjI)
     apply (rule plays_one, rule serves.other, simp, (simp; fail))+
     apply (rule plays_one, rule serves.lock, simp add: cluster0_def)
     apply (rule plays_one, rule serves.listed, simp add: cluster0_def ran0)
     apply (rule plays_one, rule serves.other, simp, (simp; fail))+
     apply (rule plays_one, rule serves.listed, simp add: cluster0_def ran0)
     apply (rule plays_one, rule serves.other, simp, (simp; fail))+
     apply (rule plays_one, rule serves.patched [where e = idle0], simp add: cluster0_def)
     apply (rule plays.simps(1) [THEN iffD2], rule refl)
    apply (simp add: cluster0_def fun_eq_iff)
    done
  then obtain s where s: "plays ''pv-1'' idle0 (selection_calls @ [(Patch_status ''pv-1'' selected0, R_ok)]) [] ?s0 s"
      "sy_store s = [''pv-1'' \<mapsto> idle0\<lparr>ev_status := Some selected0\<rparr>, ''pv-2'' \<mapsto> other0]" by blast
  have "(sys_step ctx0)\<^sup>*\<^sup>* ?s0 s"
    by (rule plays_steps [OF s(1)]) (use selection_run in simp_all)
  with start s(2) show ?thesis by (meson converse_rtranclp_into_rtranclp)
qed

section \<open>A view that shows a slot given up\<close>

text \<open>
  \<open>pv-1\<close> has failed and \<open>pv-2\<close> has taken its node. A task of \<open>pv-1\<close> starts with the view of its last transfer,
  and is shown the objects of that attempt as done: it records \<open>Adopting\<close>, on the node of \<open>pv-2\<close>.
\<close>

definition taker0 :: zfs_evacuation where
  "taker0 = other0\<lparr>ev_status := Some ((late Transferring False)\<lparr>s_source := Some (src0\<lparr>si_node_id := ''n3''\<rparr>)\<rparr>)\<rparr>"

definition cluster1 :: system where
  "cluster1 = \<lparr>sy_store = [''pv-1'' \<mapsto> evac0 (late Failed False), ''pv-2'' \<mapsto> taker0], sy_running = Map.empty, sy_holder = None\<rparr>"

lemma outdated_steps:
  "\<exists>s. (sys_step ctx0)\<^sup>*\<^sup>* cluster1 s \<and> sy_store s = [''pv-1'' \<mapsto> evac0 adopting0, ''pv-2'' \<mapsto> taker0]"
proof -
  let ?v = "evac0 (late Transferring False)"
  let ?s0 = "cluster1\<lparr>sy_running := (sy_running cluster1)(''pv-1'' \<mapsto> (?v, []))\<rparr>"
  have start: "sys_step ctx0 cluster1 ?s0"
    by (rule sys_step.start) (simp_all add: cluster1_def)
  have "\<exists>s. plays ''pv-1'' ?v (copied_calls @ [(Patch_status ''pv-1'' adopting0, R_ok)]) [] ?s0 s
      \<and> sy_store s = [''pv-1'' \<mapsto> evac0 adopting0, ''pv-2'' \<mapsto> taker0]"
    unfolding copied_calls_def not_cancelled_def seen_pv_def seen_pvc_def seen_time_def append_Cons append_Nil
    apply (intro exI conjI)
     apply (rule plays_one, rule serves.other, simp, (simp; fail))+
     apply (rule plays_one, rule serves.patched [where e = "evac0 (late Failed False)"], simp add: cluster1_def)
     apply (rule plays.simps(1) [THEN iffD2], rule refl)
    apply (simp add: cluster1_def evac0_def fun_eq_iff)
    done
  then obtain s where s: "plays ''pv-1'' ?v (copied_calls @ [(Patch_status ''pv-1'' adopting0, R_ok)]) [] ?s0 s"
      "sy_store s = [''pv-1'' \<mapsto> evac0 adopting0, ''pv-2'' \<mapsto> taker0]" by blast
  have "(sys_step ctx0)\<^sup>*\<^sup>* ?s0 s"
    by (rule plays_steps [OF s(1)]) (use copied_run in simp_all)
  with start s(2) show ?thesis by (meson converse_rtranclp_into_rtranclp)
qed

end
