(* ===== verification/Spec2Isabelle.thy ===== *)
theory Spec2Isabelle
  imports Reconcile_Properties Loop_Properties Component_Properties System_Scenario
begin

text \<open>
  A model of zfs-evacuation-controller, the Kubernetes controller that moves a zfs-localpv volume from
  one node to another: it locks the claim against new pods, waits until nothing uses the volume,
  streams the dataset through a relay of its own to the chosen node, and swaps the PV for one with
  the same name that points to the copy.

  \<^bold>\<open>The program and the theories.\<close> A task per custom resource reconciles one \<open>ZFSEvacuation\<close> at a
  time (\<open>controller/state_machine.rs\<close> and the phase modules it calls); beside it run the trigger loop, the
  renewal of the leader lease and one relay per transfer attempt. They interact through the API
  server's objects and the in-memory table of live relays.

  \<^item> \<open>Prelude\<close>, \<open>Cluster_Objects\<close> (\<open>crd/openebs.rs\<close> and the k8s-openapi types it reads), \<open>Evac_Objects\<close>
    (\<open>crd/zfs_evacuation.rs\<close>): machine integers, strings, the objects as records; fields the controller
    copies without reading travel in \<open>others\<close>.
  \<^item> \<open>Effects\<close>: programs as trees of requests (\<open>prog\<close>), run against an arbitrary outside (\<open>exec\<close>), all their
    runs with arbitrary answers, interference and crashes (\<open>runs\<close>), and the verification conditions \<open>vc\<close>
    and \<open>calls\<close> with their soundness. \<open>Trace_Rules\<close> adds the rules for guards that look at earlier calls.
  \<^item> \<open>Kube_Calls\<close>, \<open>Lock_Params\<close>, \<open>Node_Pod\<close>, \<open>Quantity\<close> (\<open>controller/mod.rs\<close>), \<open>Placement\<close>, \<open>Colocation\<close>,
    \<open>Target_Select\<close>, \<open>Transfer_Verdict\<close> and \<open>Transfer_Phase\<close> (\<open>controller/transfer.rs\<close>), \<open>Abort_Path\<close>, \<open>Pv_Swap\<close>, \<open>Phase_Common\<close>
    and \<open>Evac_Machine\<close> (\<open>controller/state_machine.rs\<close>): one definition per function, named as in the source.
  \<^item> \<open>Relay_Net\<close> and \<open>Relay_Splice\<close> (\<open>transfer/relay.rs\<close>): CIDR matching and the allowlist; the two concurrent
    tasks of a relay as a step function on their joint state.
  \<^item> \<open>Trigger_Loop\<close> (\<open>controller/trigger.rs\<close>), \<open>Leader_Lease\<close> (\<open>leader.rs\<close>), \<open>Startup\<close> (\<open>main.rs\<close>), \<open>Admission\<close>
    (\<open>deploy/admission.yaml\<close>, the reader of the lock table).
  \<^item> \<open>Status_Invariant\<close>: the abstract state machine (the phase graph with its side conditions), its
    invariant, and the refinement of every handler. \<open>Phase_Frame\<close>: what each phase may send.
    \<open>Swap_Safety\<close>, \<open>Order_Safety\<close>, \<open>Transfer_Safety\<close>, \<open>Teardown_Safety\<close>, \<open>Abort_Safety\<close>: what was seen before each
    call that matters; \<open>Copy_Safety\<close>: before the phases that depend on the copy; \<open>End_Safety\<close>: before an end is
    recorded and the finalizer given back, and the failures that undo nothing. \<open>Abort_Loop\<close>: an abort after the copy is done, reconcile after reconcile. \<open>Swap_Progress\<close>: the rounds of reconciles that complete a swap when the API server
    does its part (\<open>keeps_pv\<close>, \<open>binds\<close>), three from any state. \<open>Quantity_Facts\<close>: where the floating-point reading of sizes is exact.
  \<^item> \<open>Write_Once\<close>: a reconcile writes the status once, except on the abort path and in CleaningUp. \<open>Selection_Caps\<close>:
    what a selection saw while it held the lock. \<open>Concurrent_Reconciles\<close>: the system of all evacuations, whose
    reconciles interleave call by call over one store and one lock, and the caps as its invariants up to a
    start from an outdated view; \<open>System_Scenario\<close> plays a selection and such a start in it. \<open>Settle_Anchor\<close>: what
    Quiescing records once it has listed pods that block. \<open>First_Attempt\<close>: a relay without a recorded attempt.
    \<open>Target_Facts\<close>: what holds of a chosen target. \<open>Lease_System\<close>: several processes at one lease, interleaved call
    by call, with delayed writes and clocks that differ by a bounded number of seconds.
  \<^item> \<open>Scenario\<close>: a concrete cluster and runs of it, on which \<open>Reconcile_Properties\<close>, \<open>Loop_Properties\<close> and
    \<open>Component_Properties\<close> apply the properties they state. The property of the whole system is below.

  \<^bold>\<open>Interfaces.\<close> \<open>lock_table\<close> is what the handlers and the policy rely on of the parameter object,
  interpreted by \<open>lock\<close> and \<open>unlock\<close>; \<open>finalizer_edit\<close> is what every finalizer patch promises, interpreted by
  the edits the code makes; \<open>capped\<close> is what a per-node slot needs of one reconcile, interpreted by receiving
  and by sending.

  \<^bold>\<open>Outside.\<close> The API server, the clock and the random source are the parameter \<open>api\<close>: any function, so
  other writers are part of it and every interleaving at the granularity of API calls is covered.
  humantime, serde_json, the text of kube errors and the iteration order of a hash map are the record
  \<open>libs\<close>. The scheduler is a parameter \<open>lands\<close> of \<open>Admission\<close>, with its documented rule on taints as a
  hypothesis. The zfs-localpv node agents appear only through the objects they write and the bytes they
  send.

  \<^bold>\<open>Bounds.\<close> \<open>update_params_n\<close> is cut at the eight attempts of the source; \<open>trigger_rounds\<close> and \<open>acquire_loop\<close>
  take the number of rounds of loops that the source runs for ever: safety is proved for every number.
  Every other program is a finite tree and returns. The relay's termination has a measure.

  \<^bold>\<open>Not modelled.\<close> The derive macros and the \<open>kube::Resource\<close> implementations (generated or constant
  plumbing), logging, the text of the CRDs, the inside of the runtime's work queue (which reconcile starts
  when: \<open>recorded\<close> lets one start at any time from any recorded status; \<open>sys_step\<close> lets those of different
  evacuations interleave freely, never two of the same, each from a view of any age), the reconciles of a second controller process beside the
  leader's (\<open>Lease_System\<close> has the lease writes of all processes), the RBAC and deployment manifests, the tests.
\<close>

section \<open>One move per node\<close>



end
